(* ===== verification/Prelude.thy ===== *)
theory Prelude
  imports Main "HOL-Library.Word" "HOL-Library.Monad_Syntax"
begin

text \<open>
  Names and generic facts shared by the component theories.

  The model follows the AARCH32 build of Pinyon (\<open>AARCH64=0\<close> in the Makefile): it is the build
  with every component, the MMU and the page allocator included. There \<open>size_t\<close>, \<open>PtrData\<close>,
  \<open>unsigned\<close> and \<open>u32\<close> are 32-bit words, whose \<open>+\<close>, \<open>-\<close> and \<open>*\<close> wrap around as the code's do
  (pine/types.hpp). Code that is a template over the integer type is modelled for words of
  every length.

  Operations that can run into undefined behaviour, a read or write through an invalid pointer
  or a loop that never ends return an \<open>option\<close>, and \<open>None\<close> is that outcome; \<open>do\<close>-blocks of the
  option monad chain them.
\<close>

unbundle bit_operations_syntax

type_synonym u8 = "8 word"
type_synonym u32 = "32 word"
type_synonym u64 = "64 word"
type_synonym size_t = "32 word"
type_synonym ptr = "32 word"

abbreviation nullptr :: ptr where "nullptr \<equiv> 0"

named_theorems align_simps \<open>arithmetic of the power-of-two alignment functions\<close>
named_theorems heap_simps \<open>updates of the pointer heap\<close>

subsection \<open>Options\<close>

lemma bind_eq_SomeE:
  assumes "Option.bind m f = Some y"
  obtains x where "m = Some x" and "f x = Some y"
  using assms by (cases m) auto

lemma find_SomeD: "find P xs = Some x \<Longrightarrow> x \<in> set xs \<and> P x"
  by (auto simp: find_Some_iff)

subsection \<open>Words as natural numbers\<close>

lemma unat_sub_le: "b \<le> a \<Longrightarrow> unat (a - b) = unat a - unat (b :: 'a::len word)"
  by (rule unat_sub)

lemma unat_add_lt:
  "unat a + unat b < 2 ^ LENGTH('a) \<Longrightarrow> unat (a + b) = unat a + unat (b :: 'a::len word)"
  by (simp add: unat_word_ariths)

lemma unat_word_le: "a \<le> b \<longleftrightarrow> unat a \<le> unat (b :: 'a::len word)"
  by (simp add: word_le_nat_alt)

lemma unat_word_lt: "a < b \<longleftrightarrow> unat a < unat (b :: 'a::len word)"
  by (simp add: word_less_nat_alt)

lemma unat_of_nat_lt: "n < 2 ^ LENGTH('a) \<Longrightarrow> unat (of_nat n :: 'a::len word) = n"
  by (simp add: unat_of_nat take_bit_nat_eq_self)

lemma unat_lt_exp: "unat (v :: 'a::len word) < 2 ^ LENGTH('a)"
  by (rule unsigned_less)

lemma unat_inc: "i < c \<Longrightarrow> unat (i + 1 :: 'a::len word) = unat i + 1"
proof -
  assume "i < c"
  then have "unat i < unat c" by (simp add: unat_word_lt)
  then have "unat i + 1 < 2 ^ LENGTH('a)" using unat_lt_exp [of c] by linarith
  then show ?thesis using unat_add_lt [of i 1] by simp
qed

end
