(* ===== verification/TwoMath.thy ===== *)
theory TwoMath
  imports Prelude
begin

text \<open>
  The integer helpers of pine/math.hpp, pine/twomath.hpp and pine/bit.hpp: rounding to a
  power-of-two alignment, bit widths, rounding to a power of two, ceiling division, powers and
  logarithms. They are templates over an unsigned integer type, so they are modelled on words of
  every length; a shift by the width of its operand or more is undefined and gives \<open>None\<close>.
\<close>

section \<open>Alignment (twomath.hpp)\<close>

definition align_down_two :: "'a::len word \<Rightarrow> 'b::len word \<Rightarrow> 'a word" where
  "align_down_two value base_two_num =
     (let alignment = ucast base_two_num :: 'a word in
      if value = 0 \<or> alignment = 0 then 0
      else value AND NOT (alignment - 1))"

definition align_up_two :: "'a::len word \<Rightarrow> 'b::len word \<Rightarrow> 'a word" where
  "align_up_two value base_two_num =
     (let alignment = ucast base_two_num :: 'a word in
      if value = 0 then alignment
      else if alignment = 0 then value
      else (value + (alignment - 1)) AND NOT (alignment - 1))"

definition alignment_up_two :: "'a::len word \<Rightarrow> 'b::len word \<Rightarrow> 'a word" where
  "alignment_up_two value base_two_num =
     (let alignment = ucast base_two_num :: 'a word in
      if alignment = 0 then 0 else align_up_two value alignment - value)"

definition is_aligned_two :: "'a::len word \<Rightarrow> 'b::len word \<Rightarrow> bool" where
  "is_aligned_two value base_two_num =
     (let alignment = ucast base_two_num :: 'a word in
      value = 0 \<or> alignment_up_two value alignment = 0)"

definition is_pointer_aligned_two :: "ptr \<Rightarrow> 'b::len word \<Rightarrow> bool" where
  "is_pointer_aligned_two p base_two_num =
     (let alignment = ucast base_two_num :: 32 word in is_aligned_two p alignment)"

definition is_aligned_two_power :: "'a::len word \<Rightarrow> bool" where
  "is_aligned_two_power value \<longleftrightarrow> value AND (value - 1) = 0"

section \<open>Bit widths and powers of two (twomath.hpp)\<close>

text \<open>
  The loop of \<open>bit_width\<close>; \<open>width\<close> and \<open>count\<close> are at most the number of value bits plus one
  (\<open>bit_width_loop_le\<close>), so they are natural numbers here.
\<close>

function bit_width_loop :: "'a::len word \<Rightarrow> nat \<Rightarrow> nat \<Rightarrow> nat" where
  "bit_width_loop value width count =
     (if value = 0 then width
      else bit_width_loop (drop_bit 1 value) (if value AND 1 \<noteq> 0 then count else width) (Suc count))"
  by pat_completeness auto
termination
  by (relation "measure (\<lambda>(value, width, count). unat value)")
    (auto simp: unat_drop_bit_eq drop_bit_eq_div unat_gt_0 unat_div)

declare bit_width_loop.simps [simp del]

definition bit_width :: "'a::len word \<Rightarrow> 'a word" where
  "bit_width value = of_nat (bit_width_loop value 0 1)"

definition align_down_to_power :: "'a::len word \<Rightarrow> 'a word option" where
  "align_down_to_power value =
     (if value = 0 then Some 0
      else let shift = unat (bit_width value - 1) in
        if 32 \<le> shift then None else Some (ucast (push_bit shift (1 :: 32 word))))"

definition align_up_to_power :: "'a::len word \<Rightarrow> 'a word option" where
  "align_up_to_power value =
     (if value = 0 then Some 1
      else do {
        aligned_down \<leftarrow> align_down_to_power value;
        Some (if aligned_down = value then value else push_bit 1 aligned_down)
      })"

section \<open>Arithmetic (math.hpp)\<close>

definition divide_up :: "'a::len word \<Rightarrow> 'a word \<Rightarrow> 'a word" where
  "divide_up divisor dividend = (divisor + (dividend - 1)) div dividend"

definition max2 :: "'a::ord \<Rightarrow> 'a \<Rightarrow> 'a" where
  "max2 first second = (if second < first then first else second)"

definition min2 :: "'a::ord \<Rightarrow> 'a \<Rightarrow> 'a" where
  "min2 first second = (if first < second then first else second)"

fun pow_loop :: "'a::comm_monoid_mult \<Rightarrow> 'a \<Rightarrow> nat \<Rightarrow> 'a" where
  "pow_loop num result n =
     (if 1 < n then pow_loop num (result * num) (n - 1) else result)"

declare pow_loop.simps [simp del]

definition pow2 :: "'a::comm_monoid_mult \<Rightarrow> nat \<Rightarrow> 'a" where
  "pow2 num n = (if n = 0 then 1 else pow_loop num num n)"

text \<open>
  \<open>log\<close> for the default base 10, the only one the sources instantiate; the template argument is
  an integer type whose values are integers here. It counts the divisions that are possible, and
  a negative number has none.
\<close>

function log_loop :: "int \<Rightarrow> int \<Rightarrow> int" where
  "log_loop num result = (if 10 \<le> num then log_loop (num div 10) (result + 1) else result)"
  by pat_completeness auto
termination by (relation "measure (\<lambda>(num, result). nat num)") auto

declare log_loop.simps [simp del]

definition log :: "int \<Rightarrow> int" where
  "log num = log_loop num 0"

section \<open>Bit ranges (bit.hpp)\<close>

definition overwrite_bit_range ::
    "'a::len word \<Rightarrow> 'b::len word \<Rightarrow> nat \<Rightarrow> nat \<Rightarrow> 'a word option" where
  "overwrite_bit_range dest value start_inclusive end_inclusive =
     (if end_inclusive < start_inclusive \<or> 32 \<le> end_inclusive - start_inclusive \<or> 32 \<le> start_inclusive
      then None
      else let mask = ucast (push_bit start_inclusive
                 (push_bit (end_inclusive - start_inclusive) 1 - 1 :: 32 word)) :: 'a word
        in Some ((dest AND NOT mask) OR (ucast value AND mask)))"

section \<open>Facts about alignment\<close>

lemma unat_and_not_mask:
  "unat (x AND NOT (mask k) :: 'a::len word) = (unat x div 2 ^ k) * 2 ^ k"
proof -
  have "take_bit k x + (x AND NOT (mask k)) = x"
    by (subst disjunctive_add_eq_or) (auto intro!: bit_eqI simp: bit_simps)
  then have eq: "x AND NOT (mask k) = x - take_bit k x"
    by (metis add_diff_cancel_left')
  have "unat (take_bit k x) = unat x mod 2 ^ k"
    by (subst unsigned_take_bit_eq) (rule take_bit_eq_mod)
  moreover have "take_bit k x \<le> x"
    by (simp add: word_le_nat_alt unsigned_take_bit_eq take_bit_nat_less_eq_self)
  ultimately have "unat (x AND NOT (mask k)) = unat x - unat x mod 2 ^ k"
    using eq by (simp add: unat_sub)
  also have "\<dots> = (unat x div 2 ^ k) * 2 ^ k"
    by (simp add: minus_mod_eq_div_mult)
  finally show ?thesis .
qed

lemma exp_minus_1: "(2 ^ k - 1 :: 'a::len word) = mask k"
  by (simp add: mask_eq_exp_minus_1)

lemma exp_word_nonzero: "k < LENGTH('a) \<Longrightarrow> (2 ^ k :: 'a::len word) \<noteq> 0"
  by (simp add: exp_eq_zero_iff)

lemma unat_exp_word: "k < LENGTH('a) \<Longrightarrow> unat (2 ^ k :: 'a::len word) = 2 ^ k"
  by (metis exp_eq_zero_iff linorder_not_le unat_of_nat_lt one_less_numeral_iff power_strict_increasing of_nat_numeral of_nat_power semiring_norm(76))

lemma unat_add_exp_minus_1:
  assumes "k < LENGTH('a)" and "unat v + 2 ^ k \<le> 2 ^ LENGTH('a)"
  shows "unat (v + (2 ^ k - 1) :: 'a::len word) = unat v + 2 ^ k - 1"
proof -
  have "unat (2 ^ k - 1 :: 'a word) = 2 ^ k - 1"
    using assms(1) by (simp add: unat_sub_le unat_exp_word unat_word_le)
  moreover have "0 < (2::nat) ^ k" by simp
  ultimately show ?thesis
    using assms(2) by (subst unat_add_lt) linarith+
qed

lemma unat_align_down_two [align_simps]:
  fixes v :: "'a::len word"
  assumes "ucast b = (2 ^ k :: 'a word)" and "k < LENGTH('a)"
  shows "unat (align_down_two v b) = unat v div 2 ^ k * 2 ^ k"
  using assms by (simp add: align_down_two_def exp_minus_1 unat_and_not_mask exp_word_nonzero)

lemma unat_align_up_two [align_simps]:
  fixes v :: "'a::len word"
  assumes "ucast b = (2 ^ k :: 'a word)" and "k < LENGTH('a)"
    and "v \<noteq> 0" and "unat v + 2 ^ k \<le> 2 ^ LENGTH('a)"
  shows "unat (align_up_two v b) = (unat v + 2 ^ k - 1) div 2 ^ k * 2 ^ k"
  using assms unat_add_exp_minus_1 [OF assms(2,4)]
  by (simp add: align_up_two_def unat_and_not_mask exp_word_nonzero flip: exp_minus_1)
     (simp add: exp_minus_1 unat_and_not_mask)

lemma div_up_ge: "(n::nat) \<le> (n + 2 ^ k - 1) div 2 ^ k * 2 ^ k"
proof -
  have "0 < (2::nat) ^ k" by simp
  then have "(n + 2 ^ k - 1) mod 2 ^ k \<le> 2 ^ k - 1"
    using mod_less_divisor [of "2 ^ k" "n + 2 ^ k - 1"] by linarith
  then show ?thesis
    unfolding minus_mod_eq_div_mult [symmetric] using \<open>0 < (2::nat) ^ k\<close> by linarith
qed

lemma align_up_two_wraps:
  fixes v :: "'a::len word"
  assumes "ucast b = (2 ^ k :: 'a word)" and "k < LENGTH('a)"
    and "v \<noteq> 0" and "2 ^ LENGTH('a) < unat v + 2 ^ k"
  shows "align_up_two v b = 0"
proof -
  have e: "unat (2 ^ k - 1 :: 'a word) = 2 ^ k - 1"
    using assms(2) by (simp add: unat_sub_le unat_exp_word unat_word_le)
  have "unat v < 2 ^ LENGTH('a)" by (rule unsigned_less)
  with assms(4) have "unat (v + (2 ^ k - 1)) = unat v + (2 ^ k - 1) - 2 ^ LENGTH('a)"
    unfolding unat_plus_if' e by (auto simp: Let_def)
  moreover have "0 < (2::nat) ^ k" by simp
  ultimately have "unat (v + (2 ^ k - 1)) < 2 ^ k" using \<open>unat v < _\<close> by linarith
  then have "unat ((v + (2 ^ k - 1)) AND NOT (mask k)) = 0"
    by (simp add: unat_and_not_mask)
  then show ?thesis
    using assms(1-3) by (simp add: align_up_two_def exp_minus_1 exp_word_nonzero unat_eq_0)
qed

lemma exp_dvd_fits:
  assumes "2 ^ k dvd unat (v :: 'a::len word)" and "k < LENGTH('a)"
  shows "unat v + 2 ^ k \<le> 2 ^ LENGTH('a)"
proof -
  obtain q where q: "unat v = 2 ^ k * q" using assms(1) by (rule dvdE)
  have split: "(2::nat) ^ LENGTH('a) = 2 ^ k * 2 ^ (LENGTH('a) - k)"
    using assms(2) by (simp flip: power_add)
  have "2 ^ k * q < (2::nat) ^ k * 2 ^ (LENGTH('a) - k)"
    using unat_lt_exp [of v] q split by (metis)
  then have "q + 1 \<le> 2 ^ (LENGTH('a) - k)" by simp
  then have "2 ^ k * (q + 1) \<le> (2::nat) ^ k * 2 ^ (LENGTH('a) - k)" by (rule mult_le_mono2)
  then show ?thesis by (simp add: q split)
qed

lemma align_up_two_id:
  fixes v :: "'a::len word"
  assumes "ucast b = (2 ^ k :: 'a word)" and "k < LENGTH('a)" and "v \<noteq> 0"
  shows "align_up_two v b = v \<longleftrightarrow> 2 ^ k dvd unat v"
proof (cases "unat v + 2 ^ k \<le> 2 ^ LENGTH('a)")
  case True
  note up = unat_align_up_two [OF assms True]
  show ?thesis
  proof
    assume "align_up_two v b = v"
    with up have "unat v = (unat v + 2 ^ k - 1) div 2 ^ k * 2 ^ k" by simp
    then show "2 ^ k dvd unat v" by (metis dvd_triv_right)
  next
    assume "2 ^ k dvd unat v"
    then obtain q where q: "unat v = 2 ^ k * q" by (rule dvdE)
    have "(2 ^ k * q + 2 ^ k - 1) div 2 ^ k = (q::nat)"
    proof (rule div_nat_eqI)
      have "0 < (2::nat) ^ k" by simp
      then show "2 ^ k * q \<le> 2 ^ k * q + 2 ^ k - 1" by linarith
      show "2 ^ k * q + 2 ^ k - 1 < 2 ^ k * Suc q"
        using \<open>0 < (2::nat) ^ k\<close> unfolding mult_Suc_right by linarith
    qed
    then have "unat (align_up_two v b) = unat v" using up q by simp
    then show "align_up_two v b = v" by (simp add: word_unat_eq_iff)
  qed
next
  case False
  with align_up_two_wraps [OF assms] exp_dvd_fits [OF _ assms(2)] assms(3)
  show ?thesis by auto
qed

lemma align_up_two_ge:
  fixes v :: "'a::len word"
  assumes "ucast b = (2 ^ k :: 'a word)" and "k < LENGTH('a)"
    and "unat v + 2 ^ k \<le> 2 ^ LENGTH('a)"
  shows "2 ^ k dvd unat (align_up_two v b) \<and> v \<le> align_up_two v b
    \<and> unat (align_up_two v b) < max 1 (unat v) + 2 ^ k"
proof (cases "v = 0")
  case True
  with assms show ?thesis by (simp add: align_up_two_def unat_exp_word)
next
  case False
  note up = unat_align_up_two [OF assms(1,2) False assms(3)]
  have "(unat v + 2 ^ k - 1) div 2 ^ k * 2 ^ k \<le> unat v + 2 ^ k - 1" by simp
  moreover have "0 < unat v" using False by (simp add: unat_gt_0)
  moreover have "0 < (2::nat) ^ k" by simp
  ultimately have "(unat v + 2 ^ k - 1) div 2 ^ k * 2 ^ k < max 1 (unat v) + 2 ^ k"
    by linarith
  then show ?thesis
    unfolding up unat_word_le using div_up_ge [of "unat v" k] by simp
qed

text \<open>
  Rounding up to a power-of-two alignment gives the least multiple of the alignment that is
  at least the value, whenever that multiple is representable; zero is rounded up to the alignment
  itself.
\<close>

lemma align_up_two_least:
  fixes v :: "'a::len word"
  assumes "ucast b = (2 ^ k :: 'a word)" and "k < LENGTH('a)"
    and "unat v + 2 ^ k \<le> 2 ^ LENGTH('a)"
  shows "2 ^ k dvd unat (align_up_two v b) \<and> v \<le> align_up_two v b
    \<and> unat (align_up_two v b) < max 1 (unat v) + 2 ^ k"
  using assms by (rule align_up_two_ge)

text \<open>
  \<open>is_aligned_two\<close> decides divisibility by the alignment, for every power-of-two alignment of
  the word and every value, also where rounding up would wrap around.
\<close>

lemma is_aligned_two_iff:
  fixes v :: "'a::len word"
  assumes "ucast b = (2 ^ k :: 'a word)" and "k < LENGTH('a)"
  shows "is_aligned_two v b \<longleftrightarrow> 2 ^ k dvd unat v"
proof -
  have "align_up_two v (ucast b :: 'a word) = align_up_two v b"
    by (simp add: align_up_two_def)
  moreover have "(ucast b :: 'a word) \<noteq> 0"
    using assms by (simp add: exp_word_nonzero)
  ultimately show ?thesis
    using align_up_two_id [OF assms, of v]
    by (cases "v = 0") (simp_all add: is_aligned_two_def alignment_up_two_def Let_def)
qed

section \<open>Facts about bit widths and powers of two\<close>

lemma bit_width_loop_pos:
  "value \<noteq> 0 \<Longrightarrow> \<exists>k. bit_width_loop value width count = count + k \<and>
     2 ^ k \<le> unat value \<and> unat value < 2 ^ Suc k"
proof (induction "value" width count rule: bit_width_loop.induct)
  case (1 v w c)
  let ?h = "drop_bit 1 v"
  have half: "unat ?h = unat v div 2" by (subst unat_drop_bit_eq) (simp add: drop_bit_Suc)
  show ?case
  proof (cases "?h = 0")
    case True
    with half "1.prems" have "unat v = 1"
      by (metis One_nat_def Suc_lessI div_greater_zero_iff less_irrefl unat_0 unat_gt_0 less_2_cases_iff not_less)
    then have "v = 1" by (metis unat_1 word_unat_eq_iff)
    then show ?thesis
      using True by (intro exI [of _ 0]) (simp add: bit_width_loop.simps)
  next
    case False
    then obtain k where k: "bit_width_loop ?h (if v AND 1 \<noteq> 0 then c else w) (Suc c) = Suc c + k"
      "2 ^ k \<le> unat ?h" "unat ?h < 2 ^ Suc k"
      using "1.IH" "1.prems" by blast
    show ?thesis
      using k half "1.prems"
      by (intro exI [of _ "Suc k"]) (auto simp: bit_width_loop.simps [of v w c])
  qed
qed

lemma bit_width_loop_le: "bit_width_loop (v :: 'a::len word) 0 1 \<le> LENGTH('a)"
proof (cases "v = 0")
  case True
  then show ?thesis by (simp add: bit_width_loop.simps)
next
  case False
  then obtain k where k: "bit_width_loop v 0 1 = 1 + k" "2 ^ k \<le> unat v"
    using bit_width_loop_pos by blast
  have "(2::nat) ^ k < 2 ^ LENGTH('a)" using k(2) unat_lt_exp [of v] by linarith
  then show ?thesis using k(1) by simp
qed

lemma unat_bit_width: "unat (bit_width v) = bit_width_loop v 0 1"
  unfolding bit_width_def
  by (rule unat_of_nat_lt) (meson bit_width_loop_le le_less_trans less_exp)

lemma bit_width_0 [simp]: "bit_width 0 = 0"
  by (simp add: bit_width_def bit_width_loop.simps)

lemma bit_width_bounds:
  assumes "v \<noteq> 0"
  obtains k where "unat (bit_width v) = Suc k" "2 ^ k \<le> unat v" "unat v < 2 ^ Suc k"
    "unat (bit_width v - 1) = k"
proof -
  obtain k where k: "bit_width_loop v 0 1 = 1 + k" "2 ^ k \<le> unat v" "unat v < 2 ^ Suc k"
    using bit_width_loop_pos [OF assms] by blast
  then have w: "unat (bit_width v) = Suc k" by (simp add: unat_bit_width)
  then have "1 \<le> bit_width v" by (simp add: unat_word_le)
  then have "unat (bit_width v - 1) = k" using w by (simp add: unat_sub_le)
  then show thesis using that w k by blast
qed

lemma align_down_to_power_pos:
  fixes v :: "'a::len word"
  assumes "v \<noteq> 0" and "unat v < 2 ^ 32"
  obtains k where "align_down_to_power v = Some (2 ^ k)" "k < LENGTH('a)"
    "2 ^ k \<le> unat v" "unat v < 2 ^ Suc k"
proof -
  obtain k where k: "2 ^ k \<le> unat v" "unat v < 2 ^ Suc k" "unat (bit_width v - 1) = k"
    using bit_width_bounds [OF assms(1)] by blast
  have "(2::nat) ^ k < 2 ^ 32" using k(1) assms(2) by linarith
  then have k32: "k < 32" by (rule power_less_imp_less_exp [rotated]) simp
  have "(2::nat) ^ k < 2 ^ LENGTH('a)" using k(1) unat_lt_exp [of v] by linarith
  then have kl: "k < LENGTH('a)" by simp
  have "ucast (push_bit k (1 :: 32 word)) = (2 ^ k :: 'a word)"
    using k32 by (simp add: word_unat_eq_iff unat_exp_word kl unsigned_ucast_eq push_bit_eq_mult
      take_bit_nat_eq_self)
  then show thesis
    using that k kl k32 assms(1) by (simp add: align_down_to_power_def Let_def)
qed

lemma align_up_to_power_ok:
  fixes v :: "'a::len word"
  assumes "unat v \<le> 2 ^ m" and "m < LENGTH('a)" and "m < 32"
  shows "\<exists>k \<le> m. align_up_to_power v = Some (2 ^ k) \<and> unat v \<le> 2 ^ k
    \<and> (\<forall>j < k. 2 ^ j < unat v)"
proof (cases "v = 0")
  case True
  then show ?thesis by (intro exI [of _ 0]) (simp add: align_up_to_power_def)
next
  case False
  have "(2::nat) ^ m < 2 ^ 32" using assms(3) by (rule power_strict_increasing) simp
  with assms(1) obtain k where k: "align_down_to_power v = Some (2 ^ k)" "k < LENGTH('a)"
      "2 ^ k \<le> unat v" "unat v < 2 ^ Suc k"
    using align_down_to_power_pos [OF False] by (metis le_less_trans)
  show ?thesis
  proof (cases "v = 2 ^ k")
    case True
    then have "unat v = 2 ^ k" using k(2) by (simp add: unat_exp_word)
    then show ?thesis
      using k(1) True assms(1) \<open>v \<noteq> 0\<close>
      by (intro exI [of _ k]) (auto simp: align_up_to_power_def intro: power_strict_increasing)
  next
    case False
    then have "unat v \<noteq> 2 ^ k" using k(2) by (metis unat_exp_word word_unat_eq_iff)
    with k(3) have "2 ^ k < unat v" by linarith
    with assms(1) have "(2::nat) ^ k < 2 ^ m" by linarith
    then have "Suc k \<le> m" by simp
    moreover have "align_up_to_power v = Some (2 ^ Suc k)"
      using k(1) False \<open>v \<noteq> 0\<close> by (simp add: align_up_to_power_def push_bit_eq_mult)
    moreover have "2 ^ j < unat v" if "j < Suc k" for j
    proof -
      have "(2::nat) ^ j \<le> 2 ^ k" using that by (intro power_increasing) auto
      with \<open>2 ^ k < unat v\<close> show ?thesis by linarith
    qed
    ultimately show ?thesis using k(4) by (intro exI [of _ "Suc k"]) auto
  qed
qed

text \<open>
  \<open>align_up_to_power\<close> returns the least power of two at or above a value that has one below
  \<open>2 ^ 32\<close> and below the word's size; in particular none of its shifts is undefined there.
\<close>

lemma align_up_to_power_least:
  fixes v :: "'a::len word"
  assumes "unat v \<le> 2 ^ m" and "m < LENGTH('a)" and "m < 32"
  shows "\<exists>k \<le> m. align_up_to_power v = Some (2 ^ k) \<and> unat v \<le> 2 ^ k
    \<and> (\<forall>j < k. 2 ^ j < unat v)"
  using assms by (rule align_up_to_power_ok)

section \<open>Facts about the arithmetic helpers\<close>

lemma unat_divide_up [align_simps]:
  fixes n d :: "'a::len word"
  assumes "d \<noteq> 0" and "unat n + unat d \<le> 2 ^ LENGTH('a)"
  shows "unat (divide_up n d) = (unat n + unat d - 1) div unat d"
proof -
  have d: "0 < unat d" using assms(1) by (simp add: unat_gt_0)
  then have "unat (d - 1) = unat d - 1"
    by (simp add: unat_sub_le unat_word_le)
  moreover have "unat n + (unat d - 1) < 2 ^ LENGTH('a)" using assms(2) d by linarith
  ultimately have "unat (n + (d - 1)) = unat n + unat d - 1"
    using d by (subst unat_add_lt) auto
  then show ?thesis by (simp add: divide_up_def unat_div)
qed

lemma max2_eq [simp]: "max2 (a :: 'a::linorder) b = max a b"
  by (auto simp: max2_def max_def)

lemma min2_eq [simp]: "min2 (a :: 'a::linorder) b = min a b"
  by (auto simp: min2_def min_def)

lemma pow_loop_eq: "1 \<le> n \<Longrightarrow> pow_loop num r n = r * num ^ (n - 1)"
proof (induction num r n rule: pow_loop.induct)
  case (1 num r n)
  show ?case
  proof (cases "1 < n")
    case True
    then have "num ^ (n - 1) = num * num ^ (n - 1 - 1)"
      by (metis power_minus_mult mult.commute zero_less_diff)
    moreover have "pow_loop num r n = r * num * num ^ (n - 1 - 1)"
      using "1.IH" [OF True] True by (subst pow_loop.simps) simp
    ultimately show ?thesis by (simp only: mult.assoc)
  next
    case False
    with "1.prems" have "n = 1" by simp
    then show ?thesis by (simp add: pow_loop.simps)
  qed
qed

lemma pow2_eq: "pow2 num n = num ^ n"
  by (cases n) (simp_all add: pow2_def pow_loop_eq)

lemma log_loop_bounds:
  "1 \<le> num \<Longrightarrow> \<exists>k. log_loop num r = r + int k \<and> 10 ^ k \<le> num \<and> num < 10 ^ Suc k"
proof (induction num r rule: log_loop.induct)
  case (1 num r)
  show ?case
  proof (cases "10 \<le> num")
    case True
    then obtain k where k: "log_loop (num div 10) (r + 1) = r + 1 + int k"
        "10 ^ k \<le> num div 10" "num div 10 < 10 ^ Suc k"
      using "1.IH" by fastforce
    then have "10 ^ Suc k \<le> num" "num < 10 ^ Suc (Suc k)" by auto
    with k(1) True show ?thesis
      by (intro exI [of _ "Suc k"]) (simp add: log_loop.simps [of num r])
  next
    case False
    with "1.prems" show ?thesis by (intro exI [of _ 0]) (simp add: log_loop.simps)
  qed
qed

lemma log_bounds:
  assumes "1 \<le> num"
  obtains k where "log num = int k" "10 ^ k \<le> num" "num < 10 ^ Suc k"
  using log_loop_bounds [OF assms, of 0] by (auto simp: log_def)

lemma log_small: "num < 10 \<Longrightarrow> log num = 0"
  by (simp add: log_def log_loop.simps)

end
