(* ===== verification/Allocator_Interface.thy ===== *)
theory Allocator_Interface
  imports TwoMath
begin

text \<open>
  What the allocators of pine/malloc.hpp return, and the contract their clients rely on. The
  templates (\<open>FallbackAllocatorBinder\<close>, \<open>Vector\<close>, \<open>String\<close>) take the allocator as a parameter
  and only call \<open>allocate\<close> and \<open>free\<close>; the locale \<open>allocator\<close> states what they may expect.
  Allocators interpret it on their models.
\<close>

definition Alignment :: u32 where "Alignment = 8"

definition PageSize :: size_t where "PageSize = 4096"

record allocation =
  al_ptr :: ptr
  al_size :: size_t

definition no_allocation :: allocation where
  "no_allocation = \<lparr>al_ptr = nullptr, al_size = 0\<rparr>"

definition allocation_bool :: "allocation \<Rightarrow> bool" where
  "allocation_bool a \<longleftrightarrow> al_size a \<noteq> 0"

lemma allocation_eta [simp]: "\<lparr>al_ptr = al_ptr a, al_size = al_size a\<rparr> = a"
  by simp

text \<open>The bytes an allocation gives to its owner.\<close>

definition memory_of :: "allocation \<Rightarrow> nat set" where
  "memory_of a = {unat (al_ptr a) ..< unat (al_ptr a) + unat (al_size a)}"

text \<open>
  \<open>live s A\<close>: the allocator is in a good state and \<open>A\<close> are the allocations handed out and not
  yet freed. A request of an \<open>admissible\<close> size either fails, or yields a fresh allocation of at
  least the requested size; memory of different live allocations is disjoint; a live allocation can
  be freed, and the size the client passes to \<open>free\<close> does not matter.
\<close>

locale allocator =
  fixes allocate :: "size_t \<Rightarrow> 's \<Rightarrow> (allocation \<times> 's) option"
    and free :: "allocation \<Rightarrow> 's \<Rightarrow> (size_t \<times> 's) option"
    and live :: "'s \<Rightarrow> allocation set \<Rightarrow> bool"
    and admissible :: "size_t \<Rightarrow> bool"
  assumes allocate_live: "live s A \<Longrightarrow> admissible n \<Longrightarrow>
      (\<exists>s'. allocate n s = Some (no_allocation, s') \<and> live s' A) \<or>
      (\<exists>a s'. allocate n s = Some (a, s') \<and> al_ptr a \<noteq> nullptr \<and> n \<le> al_size a
         \<and> a \<notin> A \<and> live s' (insert a A))"
    and free_live: "live s A \<Longrightarrow> a \<in> A \<Longrightarrow> \<exists>k s'. free a s = Some (k, s') \<and> live s' (A - {a})"
    and live_disjoint: "live s A \<Longrightarrow> a \<in> A \<Longrightarrow> b \<in> A \<Longrightarrow> a \<noteq> b \<Longrightarrow> memory_of a \<inter> memory_of b = {}"
    and free_by_address: "al_ptr a = al_ptr b \<Longrightarrow> free a s = free b s"
begin

lemma allocate_cases:
  assumes "live s A" and "admissible n"
  obtains (failed) s' where "allocate n s = Some (no_allocation, s')" "live s' A"
    | (ok) a s' where "allocate n s = Some (a, s')" "al_ptr a \<noteq> nullptr" "n \<le> al_size a"
        "a \<notin> A" "live s' (insert a A)"
  using allocate_live [OF assms] by blast

lemma allocate_returned:
  assumes "live s A" and "admissible n" and "allocate n s = Some (a, s')" and "al_ptr a \<noteq> nullptr"
  shows "n \<le> al_size a \<and> a \<notin> A \<and> live s' (insert a A)"
  using assms(1,2)
proof (cases rule: allocate_cases)
  case failed
  then show ?thesis using assms(3,4) by (simp add: no_allocation_def)
next
  case ok
  then show ?thesis using assms(3) by simp
qed

lemma allocate_failed:
  assumes "live s A" and "admissible n" and "allocate n s = Some (a, s')" and "al_ptr a = nullptr"
  shows "a = no_allocation \<and> live s' A"
  using assms(1,2)
proof (cases rule: allocate_cases)
  case failed
  then show ?thesis using assms(3) by simp
next
  case ok
  then show ?thesis using assms(3,4) by simp
qed

lemma allocate_disjoint:
  assumes "live s A" and "admissible n" and "allocate n s = Some (a, s')" and "al_ptr a \<noteq> nullptr"
    and "b \<in> A"
  shows "memory_of a \<inter> memory_of b = {}"
  using allocate_returned [OF assms(1-4)] live_disjoint [of s' "insert a A" a b] assms(5) by auto

text \<open>A resize as the clients do it: allocate first, free the old memory after the copy.\<close>

lemma swap_live:
  assumes "live s A" and "admissible n" and "b \<in> A" and "allocate n s = Some (a, s1)" and "al_ptr a \<noteq> nullptr"
  shows "\<exists>k s2. free b s1 = Some (k, s2) \<and> live s2 (insert a (A - {b})) \<and> a \<notin> A"
proof -
  have l: "live s1 (insert a A)" and "a \<notin> A" using allocate_returned [OF assms(1,2,4,5)] by auto
  then have "insert a A - {b} = insert a (A - {b})" using assms(3) by auto
  then show ?thesis using free_live [OF l, of b] assms(3) \<open>a \<notin> A\<close> by auto
qed

end

text \<open>
  An allocator that is given its memory in pieces, with \<open>add\<close>. \<open>managed\<close> is the memory it may
  write to or hand out; a new piece must be disjoint from it and satisfy \<open>region_ok\<close>.
\<close>

locale growing_allocator = allocator allocate free live admissible
  for allocate :: "size_t \<Rightarrow> 's \<Rightarrow> (allocation \<times> 's) option"
    and free :: "allocation \<Rightarrow> 's \<Rightarrow> (size_t \<times> 's) option"
    and live :: "'s \<Rightarrow> allocation set \<Rightarrow> bool"
    and admissible :: "size_t \<Rightarrow> bool" +
  fixes add :: "ptr \<Rightarrow> size_t \<Rightarrow> 's \<Rightarrow> 's option"
    and managed :: "'s \<Rightarrow> allocation set \<Rightarrow> nat set"
    and region_ok :: "allocation \<Rightarrow> bool"
  assumes add_live: "live s A \<Longrightarrow> region_ok b \<Longrightarrow> memory_of b \<inter> managed s A = {} \<Longrightarrow>
      \<exists>s'. add (al_ptr b) (al_size b) s = Some s' \<and> live s' A \<and> managed s' A \<subseteq> managed s A \<union> memory_of b"
    and allocate_managed: "live s A \<Longrightarrow> admissible n \<Longrightarrow> allocate n s = Some (a, s') \<Longrightarrow>
      managed s' (if al_ptr a = nullptr then A else insert a A) \<subseteq> managed s A"
    and free_managed: "live s A \<Longrightarrow> a \<in> A \<Longrightarrow> free a s = Some (k, s') \<Longrightarrow> managed s' (A - {a}) \<subseteq> managed s A"
    and live_managed: "live s A \<Longrightarrow> a \<in> A \<Longrightarrow> memory_of a \<subseteq> managed s A"

end
