(* ===== verification/Pages.thy ===== *)
theory Pages
  imports Allocator_Interface
begin

text \<open>
  \<open>Region\<close> of pine/page.hpp: a range of pages (or sections) given by the index of the first one and
  a count. The template parameter \<open>Magnitude\<close>, the size of a page, is an argument of the operations
  that convert between addresses and indexes.
\<close>

definition SectionSize :: size_t where "SectionSize = 1048576"

record region =
  rg_offset :: size_t
  rg_length :: size_t

definition region_from_ptr :: "size_t \<Rightarrow> ptr \<Rightarrow> size_t \<Rightarrow> region" where
  "region_from_ptr magnitude p size_in_bytes =
     \<lparr>rg_offset = p div magnitude, rg_length = divide_up size_in_bytes magnitude\<rparr>"

definition region_ptr :: "size_t \<Rightarrow> region \<Rightarrow> size_t \<Rightarrow> ptr" where
  "region_ptr magnitude r left_offset = (rg_offset r + left_offset) * magnitude"

definition region_size :: "size_t \<Rightarrow> region \<Rightarrow> size_t" where
  "region_size magnitude r = rg_length r * magnitude"

definition region_fits :: "region \<Rightarrow> size_t \<Rightarrow> bool" where
  "region_fits r other_length \<longleftrightarrow> other_length \<le> rg_length r"

definition region_end_offset :: "region \<Rightarrow> size_t" where
  "region_end_offset r = rg_offset r + rg_length r"

definition region_contains :: "region \<Rightarrow> region \<Rightarrow> bool" where
  "region_contains r other \<longleftrightarrow> rg_offset r \<le> rg_offset other \<and> region_end_offset other \<le> region_end_offset r"

definition region_aligned_to :: "region \<Rightarrow> size_t \<Rightarrow> bool" where
  "region_aligned_to r alignment \<longleftrightarrow> rg_offset r mod alignment = 0"

definition region_end_ptr :: "size_t \<Rightarrow> region \<Rightarrow> ptr" where
  "region_end_ptr magnitude r = region_end_offset r * magnitude"

definition region_halve :: "region \<Rightarrow> region \<times> region" where
  "region_halve r =
     (let remainder = rg_length r mod 2; halved_length = rg_length r div 2
      in (\<lparr>rg_offset = rg_offset r, rg_length = halved_length\<rparr>,
          \<lparr>rg_offset = rg_offset r + halved_length, rg_length = halved_length + remainder\<rparr>))"

definition region_split_left :: "region \<Rightarrow> size_t \<Rightarrow> region \<times> region" where
  "region_split_left r num_pages =
     (\<lparr>rg_offset = rg_offset r, rg_length = num_pages\<rparr>,
      \<lparr>rg_offset = rg_offset r + num_pages, rg_length = rg_length r - num_pages\<rparr>)"

definition region_bool :: "region \<Rightarrow> bool" where
  "region_bool r \<longleftrightarrow> rg_length r \<noteq> 0"

definition region_eq :: "region \<Rightarrow> region \<Rightarrow> bool" where
  "region_eq r other \<longleftrightarrow> rg_offset r = rg_offset other \<and> rg_length r = rg_length other"

definition region_gt :: "region \<Rightarrow> region \<Rightarrow> bool" where
  "region_gt r other \<longleftrightarrow> rg_offset other < rg_offset r
     \<or> (rg_offset r = rg_offset other \<and> rg_length other < rg_length r)"

definition region_ge :: "region \<Rightarrow> region \<Rightarrow> bool" where
  "region_ge r other \<longleftrightarrow> rg_offset other \<le> rg_offset r
     \<or> (rg_offset r = rg_offset other \<and> rg_length other \<le> rg_length r)"

definition region_lt :: "region \<Rightarrow> region \<Rightarrow> bool" where
  "region_lt r other \<longleftrightarrow> rg_offset r < rg_offset other
     \<or> (rg_offset r = rg_offset other \<and> rg_length r < rg_length other)"

definition region_le :: "region \<Rightarrow> region \<Rightarrow> bool" where
  "region_le r other \<longleftrightarrow> rg_offset r \<le> rg_offset other
     \<or> (rg_offset r = rg_offset other \<and> rg_length r \<le> rg_length other)"

definition region_from_range :: "size_t \<Rightarrow> ptr \<Rightarrow> ptr \<Rightarrow> region" where
  "region_from_range magnitude start e =
     \<lparr>rg_offset = start div magnitude, rg_length = (e - start) div magnitude\<rparr>"

definition region_convert_to :: "size_t \<Rightarrow> size_t \<Rightarrow> region \<Rightarrow> region" where
  "region_convert_to magnitude new_magnitude r =
     (let factor = magnitude div new_magnitude
      in \<lparr>rg_offset = rg_offset r * factor, rg_length = rg_length r * factor\<rparr>)"

definition as_page_region :: "region \<Rightarrow> region" where
  "as_page_region section_region = region_convert_to SectionSize PageSize section_region"

section \<open>The pages of a region\<close>

definition pages :: "region \<Rightarrow> nat set" where
  "pages r = {unat (rg_offset r) ..< unat (rg_offset r) + unat (rg_length r)}"

definition region_fits_space :: "region \<Rightarrow> bool" where
  "region_fits_space r \<longleftrightarrow> unat (rg_offset r) + unat (rg_length r) < 2 ^ 32"

lemma pages_card [simp]: "card (pages r) = unat (rg_length r)"
  by (simp add: pages_def)

lemma pages_empty_iff: "pages r = {} \<longleftrightarrow> rg_length r = 0"
  by (auto simp: pages_def simp flip: unat_eq_0)

lemma unat_end_offset:
  "region_fits_space r \<Longrightarrow> unat (region_end_offset r) = unat (rg_offset r) + unat (rg_length r)"
  by (simp add: region_fits_space_def region_end_offset_def unat_add_lt)

lemma unat_halves:
  "unat (rg_length r div 2) = unat (rg_length r) div 2"
  "unat (rg_length r div 2 + rg_length r mod 2) = unat (rg_length r) - unat (rg_length r) div 2"
proof -
  show 1: "unat (rg_length r div 2) = unat (rg_length r) div 2" by (simp add: unat_div)
  have "unat (rg_length r mod 2) = unat (rg_length r) mod 2" by (simp add: unat_mod)
  moreover have "unat (rg_length r) div 2 + unat (rg_length r) mod 2 < 2 ^ LENGTH(32)"
    using unat_lt_exp [of "rg_length r"] by presburger
  ultimately show "unat (rg_length r div 2 + rg_length r mod 2) = unat (rg_length r) - unat (rg_length r) div 2"
    using 1 by (subst unat_add_lt) presburger+
qed

lemma region_halve_pages:
  assumes "region_fits_space r" and "region_halve r = (a, b)"
  shows "pages a \<union> pages b = pages r \<and> pages a \<inter> pages b = {}
    \<and> unat (rg_length a) = unat (rg_length r) div 2
    \<and> unat (rg_length b) = unat (rg_length r) - unat (rg_length r) div 2
    \<and> region_fits_space a \<and> region_fits_space b"
proof -
  have ab: "a = \<lparr>rg_offset = rg_offset r, rg_length = rg_length r div 2\<rparr>"
      "b = \<lparr>rg_offset = rg_offset r + rg_length r div 2, rg_length = rg_length r div 2 + rg_length r mod 2\<rparr>"
    using assms(2) by (simp_all add: region_halve_def Let_def)
  have o: "unat (rg_offset r + rg_length r div 2) = unat (rg_offset r) + unat (rg_length r) div 2"
    using assms(1) by (subst unat_add_lt) (auto simp: region_fits_space_def unat_halves)
  show ?thesis
    using assms(1) unfolding ab pages_def region_fits_space_def
    by (auto simp: o unat_halves)
qed

text \<open>
  \<open>halve\<close> partitions a region: the two halves are disjoint, together they are all its pages, and
  the right one takes the odd page. It is the step with which the page allocator trims a block.
\<close>

lemma region_halve_partition:
  assumes "region_fits_space r" and "region_halve r = (a, b)"
  shows "pages a \<union> pages b = pages r \<and> pages a \<inter> pages b = {}
    \<and> unat (rg_length a) = unat (rg_length r) div 2
    \<and> unat (rg_length b) = unat (rg_length r) - unat (rg_length r) div 2"
  using region_halve_pages [OF assms] by blast

lemma region_split_left_pages:
  assumes "region_fits_space r" and "n \<le> rg_length r" and "region_split_left r n = (a, b)"
  shows "pages a \<union> pages b = pages r \<and> pages a \<inter> pages b = {} \<and> rg_length a = n"
proof -
  have n: "unat n \<le> unat (rg_length r)" using assms(2) by (simp add: unat_word_le)
  have "unat (rg_offset r + n) = unat (rg_offset r) + unat n"
    using assms(1) n by (subst unat_add_lt) (auto simp: region_fits_space_def)
  then show ?thesis
    using assms n by (auto simp: region_split_left_def pages_def unat_sub_le)
qed

lemma region_contains_iff:
  assumes "region_fits_space r" and "region_fits_space q" and "region_bool q"
  shows "region_contains r q \<longleftrightarrow> pages q \<subseteq> pages r"
proof -
  have "0 < unat (rg_length q)" using assms(3) by (simp add: region_bool_def unat_gt_0)
  then show ?thesis
    unfolding region_contains_def unat_word_le unat_end_offset [OF assms(1)] unat_end_offset [OF assms(2)]
      pages_def ivl_subset by linarith
qed

text \<open>
  Going from page indexes to addresses and back loses nothing: \<open>from_ptr\<close> of the address and size
  of a page region is the region, as long as it starts and its size is below 4 GiB.
\<close>

lemma region_ptr_roundtrip:
  assumes "unat (rg_offset r) < 2 ^ 20" and "unat (rg_length r) < 2 ^ 20"
  shows "region_from_ptr PageSize (region_ptr PageSize r 0) (region_size PageSize r) = r"
proof -
  have o: "unat (rg_offset r * 4096) = unat (rg_offset r) * 4096"
    using assms by (simp add: unat_word_ariths)
  have l: "unat (rg_length r * 4096) = unat (rg_length r) * 4096"
    using assms by (simp add: unat_word_ariths)
  have "unat (rg_length r * 4096 + 4095) = unat (rg_length r) * 4096 + 4095"
    using assms l by (subst unat_add_lt) simp_all
  then have "divide_up (rg_length r * 4096) 4096 = rg_length r"
    by (simp add: divide_up_def word_unat_eq_iff unat_div)
  moreover have "rg_offset r * 4096 div 4096 = rg_offset r"
    using o by (simp add: word_unat_eq_iff unat_div)
  ultimately show ?thesis
    by (simp add: region_from_ptr_def region_ptr_def region_size_def PageSize_def)
qed

text \<open>A section is 256 pages.\<close>

lemma as_page_region_pages:
  assumes "unat (rg_offset r) + unat (rg_length r) < 2 ^ 24"
  shows "pages (as_page_region r) = {unat (rg_offset r) * 256 ..< unat (rg_offset r) * 256 + unat (rg_length r) * 256}"
proof -
  have "unat (rg_offset r * 256) = unat (rg_offset r) * 256" "unat (rg_length r * 256) = unat (rg_length r) * 256"
    using assms by (simp_all add: unat_word_ariths)
  then show ?thesis
    by (simp add: as_page_region_def region_convert_to_def SectionSize_def PageSize_def pages_def)
qed

text \<open>
  \<open>>=\<close> and \<open><=\<close> ignore the lengths of regions that start together, unlike \<open>>\<close> and \<open><\<close>.
\<close>

lemma region_ge_ignores_length:
  "rg_offset r = rg_offset q \<Longrightarrow> region_ge r q \<and> region_le r q"
  by (simp_all add: region_ge_def region_le_def)

lemma region_ge_not_gt_not_eq:
  "region_ge \<lparr>rg_offset = 0, rg_length = 1\<rparr> \<lparr>rg_offset = 0, rg_length = 2\<rparr>"
  "\<not> region_gt \<lparr>rg_offset = 0, rg_length = 1\<rparr> \<lparr>rg_offset = 0, rg_length = 2\<rparr>"
  "\<not> region_eq \<lparr>rg_offset = 0, rg_length = 1\<rparr> \<lparr>rg_offset = 0, rg_length = 2\<rparr>"
  by (simp_all add: region_ge_def region_gt_def region_eq_def)

end
