(* ===== verification/Iterators.thy ===== *)
theory Iterators
  imports Prelude
begin

text \<open>
  The iterator templates of pine/iter.hpp and the algorithms of pine/algorithm.hpp. An algorithm
  takes what it calls of its iterator type as arguments: \<open>incr\<close> for \<open>++it\<close> and \<open>deref\<close> for \<open>*it\<close>,
  both of which may fault. A loop is a \<open>partial_function\<close>: \<open>None\<close> is a fault in the body or a loop
  that never ends.

  The locale \<open>forward_range\<close> is the contract between an iterator and the algorithms: \<open>seq it xs\<close>
  says that the elements from \<open>it\<close> to the end iterator \<open>e\<close> are \<open>xs\<close>.
\<close>

section \<open>Moving iterators (iter.hpp)\<close>

fun advance :: "('i \<Rightarrow> 'i option) \<Rightarrow> 'i \<Rightarrow> nat \<Rightarrow> 'i option" where
  "advance incr it 0 = Some it"
| "advance incr it (Suc steps) = do { it' \<leftarrow> incr it; advance incr it' steps }"

definition next_iter :: "('i \<Rightarrow> 'i option) \<Rightarrow> 'i \<Rightarrow> nat \<Rightarrow> 'i option" where
  "next_iter incr it steps = advance incr it steps"

text \<open>
  \<open>distance\<close> for iterators without random access: the loop moves \<open>begin\<close> up to \<open>end\<close>, and the code
  never increments \<open>dist\<close>.
\<close>

partial_function (option) distance_loop :: "('i \<Rightarrow> 'i option) \<Rightarrow> 'i \<Rightarrow> 'i \<Rightarrow> nat \<Rightarrow> nat option" where
  "distance_loop incr it e dist =
     (if it \<noteq> e then Option.bind (incr it) (\<lambda>it'. distance_loop incr it' e dist) else Some dist)"

declare distance_loop.simps [code]

definition distance :: "('i \<Rightarrow> 'i option) \<Rightarrow> 'i \<Rightarrow> 'i \<Rightarrow> nat option" where
  "distance incr it e = distance_loop incr it e 0"

section \<open>Random access (iter.hpp)\<close>

text \<open>
  A \<open>RandomAccessIter\<close> over a fixed container is a position; a negative \<open>ptrdiff_t\<close> offset is added
  modulo the word size, as the casts of the code do.
\<close>

type_synonym ra_iter = size_t

definition ra_incr :: "ra_iter \<Rightarrow> ra_iter" where "ra_incr pos = pos + 1"

definition ra_decr :: "ra_iter \<Rightarrow> ra_iter" where "ra_decr pos = pos - 1"

definition ra_add :: "ra_iter \<Rightarrow> size_t \<Rightarrow> ra_iter" where "ra_add pos offset = pos + offset"

definition ra_add_diff :: "ra_iter \<Rightarrow> int \<Rightarrow> ra_iter" where
  "ra_add_diff pos offset = of_int (sint pos + offset)"

definition ra_sub_diff :: "ra_iter \<Rightarrow> int \<Rightarrow> ra_iter" where
  "ra_sub_diff pos offset = of_int (sint pos - offset)"

definition ra_distance :: "ra_iter \<Rightarrow> ra_iter \<Rightarrow> size_t" where
  "ra_distance b e = e - b"

definition ra_at_end :: "size_t \<Rightarrow> ra_iter \<Rightarrow> bool" where
  "ra_at_end len pos \<longleftrightarrow> len \<le> pos"

section \<open>Algorithms (algorithm.hpp)\<close>

partial_function (option) find_if ::
    "('i \<Rightarrow> 'i option) \<Rightarrow> ('i \<Rightarrow> 'e option) \<Rightarrow> ('e \<Rightarrow> bool option) \<Rightarrow> 'i \<Rightarrow> 'i \<Rightarrow> 'i option" where
  "find_if incr deref pred it e =
     (if it \<noteq> e then
        Option.bind (deref it) (\<lambda>x. Option.bind (pred x) (\<lambda>found.
          if found then Some it
          else Option.bind (next_iter incr it 1) (\<lambda>it'. find_if incr deref pred it' e)))
      else Some e)"

declare find_if.simps [code]

definition find_eq ::
    "('i \<Rightarrow> 'i option) \<Rightarrow> ('i \<Rightarrow> 'e option) \<Rightarrow> 'i \<Rightarrow> 'i \<Rightarrow> 'e \<Rightarrow> 'i option" where
  "find_eq incr deref it e v = find_if incr deref (\<lambda>other. Some (other = v)) it e"

partial_function (option) lower_bound_loop ::
    "('i \<Rightarrow> 'i option) \<Rightarrow> ('i \<Rightarrow> 'e option) \<Rightarrow> ('e \<Rightarrow> bool option) \<Rightarrow> 'i \<Rightarrow> nat \<Rightarrow> 'i option" where
  "lower_bound_loop incr deref compare it n =
     (if 0 < n then
        (let offset = n div 2 in
         Option.bind (advance incr it offset) (\<lambda>mid. Option.bind (deref mid) (\<lambda>x.
           Option.bind (compare x) (\<lambda>less.
             if less then
               Option.bind (next_iter incr mid 1) (\<lambda>it'.
                 lower_bound_loop incr deref compare it' (n - (offset + 1)))
             else lower_bound_loop incr deref compare it offset))))
      else Some it)"

declare lower_bound_loop.simps [code]

definition lower_bound ::
    "('i \<Rightarrow> 'i option) \<Rightarrow> ('i \<Rightarrow> 'e option) \<Rightarrow> ('i \<Rightarrow> 'i \<Rightarrow> nat option) \<Rightarrow> 'i \<Rightarrow> 'i
       \<Rightarrow> ('e \<Rightarrow> bool option) \<Rightarrow> 'i option" where
  "lower_bound incr deref dist it e compare =
     do { n \<leftarrow> dist it e; lower_bound_loop incr deref compare it n }"

text \<open>
  \<open>for (auto x : container)\<close>: the body works on a state \<open>s\<close> and says whether it breaks out.
\<close>

partial_function (option) range_for ::
    "('i \<Rightarrow> 'i option) \<Rightarrow> ('i \<Rightarrow> 'e option) \<Rightarrow> ('e \<Rightarrow> 's \<Rightarrow> ('s \<times> bool) option)
       \<Rightarrow> 'i \<Rightarrow> 'i \<Rightarrow> 's \<Rightarrow> 's option" where
  "range_for incr deref body it e s =
     (if it \<noteq> e then
        Option.bind (deref it) (\<lambda>x. Option.bind (body x s) (\<lambda>r.
          if snd r then Some (fst r)
          else Option.bind (incr it) (\<lambda>it'. range_for incr deref body it' e (fst r))))
      else Some s)"

declare range_for.simps [code]

section \<open>The contract of a forward range\<close>

fun fold_break :: "('e \<Rightarrow> 's \<Rightarrow> ('s \<times> bool) option) \<Rightarrow> 'e list \<Rightarrow> 's \<Rightarrow> 's option" where
  "fold_break body [] s = Some s"
| "fold_break body (x # xs) s =
     (case body x s of None \<Rightarrow> None | Some (s', b) \<Rightarrow> if b then Some s' else fold_break body xs s')"

locale forward_range =
  fixes incr :: "'i \<Rightarrow> 'i option"
    and deref :: "'i \<Rightarrow> 'e option"
    and e :: 'i
    and seq :: "'i \<Rightarrow> 'e list \<Rightarrow> bool"
  assumes seq_Nil: "seq it [] \<Longrightarrow> it = e"
    and seq_Cons: "seq it (x # xs) \<Longrightarrow>
      it \<noteq> e \<and> deref it = Some x \<and> (\<exists>it'. incr it = Some it' \<and> seq it' xs)"
begin

lemma find_if_dropWhile:
  "seq it xs \<Longrightarrow> (\<And>x. x \<in> set xs \<Longrightarrow> pred x = Some (P x)) \<Longrightarrow>
     \<exists>it'. find_if incr deref pred it e = Some it' \<and> seq it' (dropWhile (\<lambda>x. \<not> P x) xs)"
proof (induction xs arbitrary: it)
  case Nil
  then show ?case by (auto dest: seq_Nil simp: find_if.simps)
next
  case (Cons x xs)
  from seq_Cons [OF Cons.prems(1)] obtain it' where
    it: "it \<noteq> e" "deref it = Some x" "incr it = Some it'" "seq it' xs" by blast
  show ?case
  proof (cases "P x")
    case True
    with it Cons.prems show ?thesis by (auto simp: find_if.simps)
  next
    case False
    with it Cons show ?thesis by (simp add: find_if.simps [of _ _ _ it] next_iter_def)
  qed
qed

lemma distance_is_zero: "seq it xs \<Longrightarrow> distance_loop incr it e n = Some n"
proof (induction xs arbitrary: it)
  case Nil
  then show ?case by (auto dest: seq_Nil simp: distance_loop.simps)
next
  case (Cons x xs)
  from seq_Cons [OF Cons.prems] Cons.IH show ?case
    by (auto simp: distance_loop.simps [of _ it])
qed

lemma range_for_fold:
  "seq it xs \<Longrightarrow> range_for incr deref body it e s = fold_break body xs s"
proof (induction xs arbitrary: it s)
  case Nil
  then show ?case by (auto dest: seq_Nil simp: range_for.simps)
next
  case (Cons x xs)
  from seq_Cons [OF Cons.prems] obtain it' where
    it: "it \<noteq> e" "deref it = Some x" "incr it = Some it'" "seq it' xs" by blast
  show ?case
    using it Cons.IH [OF it(4)]
    by (cases "body x s") (auto simp: range_for.simps [of _ _ _ it] split: prod.splits)
qed

lemma advance_drop:
  "seq it xs \<Longrightarrow> n \<le> length xs \<Longrightarrow> \<exists>it'. advance incr it n = Some it' \<and> seq it' (drop n xs)"
proof (induction n arbitrary: it xs)
  case (Suc n)
  then obtain x ys where xs: "xs = x # ys" by (cases xs) auto
  from seq_Cons [OF Suc.prems(1) [unfolded xs]] obtain it' where
    "incr it = Some it'" "seq it' ys" by blast
  with Suc xs show ?case by auto
qed auto

text \<open>
  With the \<open>distance\<close> of the code the search of \<open>lower_bound\<close> has an empty range, so it returns
  its first iterator.
\<close>

lemma lower_bound_is_begin:
  "seq it xs \<Longrightarrow> lower_bound incr deref (distance incr) it e compare = Some it"
  by (simp add: lower_bound_def distance_def distance_is_zero lower_bound_loop.simps)

end

text \<open>Positions of a container of \<open>n\<close> elements form such a range.\<close>

definition ra_seq :: "'e list \<Rightarrow> ra_iter \<Rightarrow> 'e list \<Rightarrow> bool" where
  "ra_seq xs pos ys \<longleftrightarrow> length xs < 2 ^ 32 \<and> unat pos \<le> length xs \<and> ys = drop (unat pos) xs"

definition ra_deref :: "'e list \<Rightarrow> ra_iter \<Rightarrow> 'e option" where
  "ra_deref xs pos = (if unat pos < length xs then Some (xs ! unat pos) else None)"

interpretation ra: forward_range "\<lambda>pos. Some (ra_incr pos)" "ra_deref xs" "of_nat (length xs)" "ra_seq xs"
  for xs
proof
  fix it assume "ra_seq xs it []"
  then show "it = of_nat (length xs)"
    by (auto simp: ra_seq_def word_unat_eq_iff unat_of_nat_lt)
next
  fix it x ys assume a: "ra_seq xs it (x # ys)"
  then have lt: "unat it < length xs" "length xs < 2 ^ 32"
    by (auto simp: ra_seq_def) (metis drop_all linorder_not_le list.distinct(1))
  then have "unat (it + 1) = unat it + 1" by (simp add: unat_add_lt)
  moreover from a lt have "x = xs ! unat it" "ys = drop (Suc (unat it)) xs"
    by (auto simp: ra_seq_def Cons_nth_drop_Suc [symmetric])
  ultimately show "it \<noteq> of_nat (length xs) \<and> ra_deref xs it = Some x \<and>
      (\<exists>it'. Some (ra_incr it) = Some it' \<and> ra_seq xs it' ys)"
    using lt by (auto simp: ra_deref_def ra_incr_def ra_seq_def unat_of_nat_lt)
qed

end
