(* ===== verification/Linked_List.thy ===== *)
theory Linked_List
  imports Iterators
begin

text \<open>
  \<open>ManualLinkedList\<close> of pine/linked\_list.hpp: an intrusive doubly linked list whose nodes the client
  places in memory. The nodes live in a heap, a partial map from addresses to constructed nodes;
  a node stays readable after its destructor, which only unlinks it (contents are trivially
  destructible in every use of the sources). Following a null or dangling pointer is \<open>None\<close>.

  \<open>list_rep h l xs\<close> relates a list object and its heap to the abstract list \<open>xs\<close> of node addresses;
  every operation is shown to implement the corresponding operation on \<open>xs\<close> and to leave contents
  and all other nodes alone.
\<close>

record 'c node =
  nd_next :: ptr
  nd_prev :: ptr
  nd_content :: 'c

type_synonym 'c heap = "ptr \<Rightarrow> 'c node option"

record mll =
  m_head :: ptr
  m_tail :: ptr
  m_length :: size_t

definition empty_mll :: mll where
  "empty_mll = \<lparr>m_head = nullptr, m_tail = nullptr, m_length = 0\<rparr>"

section \<open>Nodes\<close>

definition get_node :: "'c heap \<Rightarrow> ptr \<Rightarrow> 'c node option" where
  "get_node h p = (if p = nullptr then None else h p)"

definition set_next :: "ptr \<Rightarrow> ptr \<Rightarrow> 'c heap \<Rightarrow> 'c heap option" where
  "set_next p q h = do { n \<leftarrow> get_node h p; Some (h(p \<mapsto> n\<lparr>nd_next := q\<rparr>)) }"

definition set_prev :: "ptr \<Rightarrow> ptr \<Rightarrow> 'c heap \<Rightarrow> 'c heap option" where
  "set_prev p q h = do { n \<leftarrow> get_node h p; Some (h(p \<mapsto> n\<lparr>nd_prev := q\<rparr>)) }"

definition set_content :: "ptr \<Rightarrow> 'c \<Rightarrow> 'c heap \<Rightarrow> 'c heap option" where
  "set_content p c h = do { n \<leftarrow> get_node h p; Some (h(p \<mapsto> n\<lparr>nd_content := c\<rparr>)) }"

text \<open>\<open>new (p) Node(content)\<close>\<close>

definition construct_at :: "ptr \<Rightarrow> 'c \<Rightarrow> 'c heap \<Rightarrow> 'c heap option" where
  "construct_at p c h =
     (if p = nullptr then None
      else Some (h(p \<mapsto> \<lparr>nd_next = nullptr, nd_prev = nullptr, nd_content = c\<rparr>)))"

text \<open>\<open>~Node()\<close>\<close>

definition node_dtor :: "ptr \<Rightarrow> 'c heap \<Rightarrow> 'c heap option" where
  "node_dtor p h = do {
     n \<leftarrow> get_node h p;
     let prev = nd_prev n;
     let next = nd_next n;
     let h = h(p \<mapsto> n\<lparr>nd_next := nullptr, nd_prev := nullptr\<rparr>);
     h \<leftarrow> (if prev \<noteq> nullptr then set_next prev next h else Some h);
     (if next \<noteq> nullptr then set_prev next prev h else Some h)
   }"

section \<open>List operations\<close>

definition mll_insert_after :: "ptr \<Rightarrow> ptr \<Rightarrow> 'c heap \<times> mll \<Rightarrow> ('c heap \<times> mll) option" where
  "mll_insert_after after_node_ptr new_node_ptr = (\<lambda>(h, l).
     let l = l\<lparr>m_length := m_length l + 1\<rparr>;
         after = (if after_node_ptr = nullptr then m_tail l else after_node_ptr)
     in if m_head l = nullptr then Some (h, l\<lparr>m_head := new_node_ptr, m_tail := new_node_ptr\<rparr>)
        else do {
          h \<leftarrow> set_prev new_node_ptr after h;
          after_node \<leftarrow> get_node h after;
          let next = nd_next after_node;
          h \<leftarrow> set_next after new_node_ptr h;
          (if next \<noteq> nullptr then do {
             h \<leftarrow> set_next new_node_ptr next h;
             h \<leftarrow> set_prev next new_node_ptr h;
             Some (h, l)
           }
           else Some (h, l\<lparr>m_tail := new_node_ptr\<rparr>))
        })"

definition mll_append :: "ptr \<Rightarrow> 'c heap \<times> mll \<Rightarrow> ('c heap \<times> mll) option" where
  "mll_append new_node_ptr s = mll_insert_after (m_tail (snd s)) new_node_ptr s"

definition mll_remove :: "ptr \<Rightarrow> 'c heap \<times> mll \<Rightarrow> ('c heap \<times> mll) option" where
  "mll_remove node_ptr = (\<lambda>(h, l). do {
     let l = l\<lparr>m_length := m_length l - 1\<rparr>;
     n \<leftarrow> get_node h node_ptr;
     let prev = nd_prev n;
     let next = nd_next n;
     h \<leftarrow> node_dtor node_ptr h;
     let l = (if node_ptr = m_head l then l\<lparr>m_head := next\<rparr> else l);
     let l = (if node_ptr = m_tail l then l\<lparr>m_tail := (if prev \<noteq> nullptr then prev else next)\<rparr> else l);
     Some (h, l)
   })"

text \<open>\<open>~ManualLinkedList()\<close>: destroys the nodes from the head on.\<close>

partial_function (option) mll_dtor_loop :: "ptr \<Rightarrow> 'c heap \<Rightarrow> 'c heap option" where
  "mll_dtor_loop next h =
     (if next \<noteq> nullptr then
        Option.bind (get_node h next) (\<lambda>curr. Option.bind (node_dtor next h)
          (\<lambda>h'. mll_dtor_loop (nd_next curr) h'))
      else Some h)"

declare mll_dtor_loop.simps [code]

definition mll_dtor :: "'c heap \<times> mll \<Rightarrow> 'c heap option" where
  "mll_dtor = (\<lambda>(h, l). mll_dtor_loop (m_head l) h)"

section \<open>Iterators (PtrIter of iter.hpp)\<close>

record ptr_iter =
  it_ptr :: ptr
  it_at_end :: bool

definition pi_incr :: "'c heap \<Rightarrow> ptr_iter \<Rightarrow> ptr_iter option" where
  "pi_incr h it = do {
     n \<leftarrow> get_node h (it_ptr it);
     Some (if nd_next n \<noteq> nullptr then it\<lparr>it_ptr := nd_next n\<rparr> else it\<lparr>it_at_end := True\<rparr>)
   }"

definition pi_decr :: "'c heap \<Rightarrow> ptr_iter \<Rightarrow> ptr_iter option" where
  "pi_decr h it =
     (if it_at_end it then Some (it\<lparr>it_at_end := False\<rparr>)
      else do { n \<leftarrow> get_node h (it_ptr it); Some (it\<lparr>it_ptr := nd_prev n\<rparr>) })"

definition pi_deref :: "ptr_iter \<Rightarrow> ptr option" where
  "pi_deref it = Some (it_ptr it)"

definition mll_begin :: "mll \<Rightarrow> ptr_iter" where
  "mll_begin l = \<lparr>it_ptr = m_head l, it_at_end = (m_tail l = nullptr)\<rparr>"

definition mll_end :: "mll \<Rightarrow> ptr_iter" where
  "mll_end l = \<lparr>it_ptr = m_tail l, it_at_end = True\<rparr>"

section \<open>The abstract list\<close>

definition first_or :: "'a list \<Rightarrow> 'a \<Rightarrow> 'a" where
  "first_or xs q = (case xs of [] \<Rightarrow> q | y # _ \<Rightarrow> y)"

definition last_or :: "'a list \<Rightarrow> 'a \<Rightarrow> 'a" where
  "last_or xs p = (if xs = [] then p else last xs)"

lemma first_or_simps [simp]:
  "first_or [] q = q" "first_or (x # xs) q = x"
  "first_or (xs @ ys) q = first_or xs (first_or ys q)"
  by (auto simp: first_or_def split: list.split)

lemma last_or_simps [simp]:
  "last_or [] p = p" "last_or (xs @ [x]) p = x" "last_or (x # xs) p = last_or xs x"
  "last_or (xs @ ys) p = last_or ys (last_or xs p)"
  by (auto simp: last_or_def)

lemma first_or_in: "xs \<noteq> [] \<Longrightarrow> first_or xs q \<in> set xs"
  by (cases xs) auto

lemma last_or_in: "xs \<noteq> [] \<Longrightarrow> last_or xs q \<in> set xs"
  by (simp add: last_or_def)

text \<open>A segment of linked nodes between a previous pointer \<open>p\<close> and a next pointer \<open>q\<close>.\<close>

fun dseg :: "'c heap \<Rightarrow> ptr \<Rightarrow> ptr list \<Rightarrow> ptr \<Rightarrow> bool" where
  "dseg h p [] q = True"
| "dseg h p (x # xs) q =
     (x \<noteq> nullptr \<and> (\<exists>n. h x = Some n \<and> nd_prev n = p \<and> nd_next n = first_or xs q) \<and> dseg h x xs q)"

lemma dseg_append [simp]:
  "dseg h p (xs @ ys) q \<longleftrightarrow> dseg h p xs (first_or ys q) \<and> dseg h (last_or xs p) ys q"
  by (induction xs arbitrary: p) auto

lemma dseg_upd [simp]: "x \<notin> set xs \<Longrightarrow> dseg (h(x := v)) p xs q = dseg h p xs q"
  by (induction xs arbitrary: p) auto

lemma dseg_nonnull: "dseg h p xs q \<Longrightarrow> x \<in> set xs \<Longrightarrow> x \<noteq> nullptr \<and> (\<exists>n. h x = Some n)"
  by (induction xs arbitrary: p) auto

definition list_rep :: "'c heap \<Rightarrow> mll \<Rightarrow> ptr list \<Rightarrow> bool" where
  "list_rep h l xs \<longleftrightarrow> distinct xs \<and> dseg h nullptr xs nullptr \<and> m_head l = first_or xs nullptr
     \<and> m_tail l = last_or xs nullptr \<and> m_length l = of_nat (length xs)"

text \<open>What every operation leaves alone: the contents of all nodes and all nodes outside \<open>S\<close>.\<close>

definition links_only :: "ptr set \<Rightarrow> 'c heap \<Rightarrow> 'c heap \<Rightarrow> bool" where
  "links_only S h h' \<longleftrightarrow> (\<forall>p. map_option nd_content (h' p) = map_option nd_content (h p))
     \<and> (\<forall>p. p \<notin> S \<longrightarrow> h' p = h p)"

definition unlinked :: "'c heap \<Rightarrow> ptr \<Rightarrow> bool" where
  "unlinked h p \<longleftrightarrow> p \<noteq> nullptr \<and> (\<exists>n. h p = Some n \<and> nd_next n = nullptr \<and> nd_prev n = nullptr)"

lemma list_rep_distinct: "list_rep h l xs \<Longrightarrow> distinct xs"
  by (simp add: list_rep_def)

lemma list_rep_node: "list_rep h l xs \<Longrightarrow> x \<in> set xs \<Longrightarrow> x \<noteq> nullptr \<and> (\<exists>n. h x = Some n)"
  by (auto simp: list_rep_def dest: dseg_nonnull)

lemma list_rep_empty [simp]: "list_rep h empty_mll []"
  by (simp add: list_rep_def empty_mll_def)

lemma list_rep_frame: "list_rep h l xs \<Longrightarrow> x \<notin> set xs \<Longrightarrow> list_rep (h(x := v)) l xs"
  by (simp add: list_rep_def)

lemma dseg_cong: "(\<And>x. x \<in> set xs \<Longrightarrow> h' x = h x) \<Longrightarrow> dseg h' p xs q = dseg h p xs q"
  by (induction xs arbitrary: p) auto

lemma dseg_last_next:
  "dseg h p (xs @ [a]) q \<Longrightarrow> a \<notin> set xs \<Longrightarrow> h a = Some n \<Longrightarrow>
     dseg (h(a \<mapsto> n\<lparr>nd_next := q'\<rparr>)) p (xs @ [a]) q'"
  by simp

lemma dseg_first_prev:
  "dseg h p (a # xs) q \<Longrightarrow> a \<notin> set xs \<Longrightarrow> h a = Some n \<Longrightarrow>
     dseg (h(a \<mapsto> n\<lparr>nd_prev := p'\<rparr>)) p' (a # xs) q"
  by simp

lemma dseg_unique:
  "dseg h p xs nullptr \<Longrightarrow> dseg h q ys nullptr \<Longrightarrow> first_or xs nullptr = first_or ys nullptr \<Longrightarrow> xs = ys"
proof (induction xs arbitrary: p q ys)
  case Nil
  then show ?case by (cases ys) auto
next
  case (Cons x xs)
  then obtain zs where "ys = x # zs" by (cases ys) auto
  with Cons show ?case by auto
qed

lemma list_rep_unique: "list_rep h l xs \<Longrightarrow> list_rep h l ys \<Longrightarrow> xs = ys"
  unfolding list_rep_def using dseg_unique by metis

text \<open>Changing contents keeps the links, and with them every list.\<close>

definition same_links :: "'c heap \<Rightarrow> 'c heap \<Rightarrow> bool" where
  "same_links h h' \<longleftrightarrow>
     (\<forall>p. map_option (\<lambda>n. (nd_next n, nd_prev n)) (h' p) = map_option (\<lambda>n. (nd_next n, nd_prev n)) (h p))"

lemma same_linksD:
  "same_links h h' \<Longrightarrow> h p = Some n \<Longrightarrow> \<exists>n'. h' p = Some n' \<and> nd_next n' = nd_next n \<and> nd_prev n' = nd_prev n"
  unfolding same_links_def by (drule spec [of _ p]) auto

lemma dseg_same_links: "same_links h h' \<Longrightarrow> dseg h p xs q \<Longrightarrow> dseg h' p xs q"
  by (induction xs arbitrary: p) (auto dest!: same_linksD)

lemma list_rep_same_links: "same_links h h' \<Longrightarrow> list_rep h l xs \<Longrightarrow> list_rep h' l xs"
  by (simp add: list_rep_def dseg_same_links)

lemma unlinked_same_links: "same_links h h' \<Longrightarrow> unlinked h p \<Longrightarrow> unlinked h' p"
  by (auto simp: unlinked_def dest: same_linksD)

lemma node_dtor_unlinked: "unlinked h p \<Longrightarrow> node_dtor p h = Some h"
  by (auto simp: unlinked_def node_dtor_def get_node_def fun_upd_idem_iff)

lemma mll_insert_after_empty:
  assumes "list_rep h l []" and "unlinked h x"
  shows "\<exists>l'. mll_insert_after a x (h, l) = Some (h, l') \<and> list_rep h l' [x]"
  using assms by (auto simp: mll_insert_after_def list_rep_def unlinked_def Let_def)

lemma mll_insert_after_last:
  assumes rep: "list_rep h l (xs @ [a])" and x: "unlinked h x" "x \<notin> set (xs @ [a])"
  shows "\<exists>h' l'. mll_insert_after a x (h, l) = Some (h', l') \<and> list_rep h' l' (xs @ [a, x])
    \<and> links_only {a, x} h h'"
proof -
  obtain na nx where na: "h a = Some na" "nd_next na = nullptr" and nx: "h x = Some nx"
      "nd_next nx = nullptr" "x \<noteq> nullptr" "a \<noteq> nullptr" "x \<noteq> a"
    using rep x by (auto simp: list_rep_def unlinked_def)
  let ?h = "h(x \<mapsto> nx\<lparr>nd_prev := a\<rparr>, a \<mapsto> na\<lparr>nd_next := x\<rparr>)"
  let ?l = "l\<lparr>m_length := m_length l + 1, m_tail := x\<rparr>"
  have head: "m_head l \<noteq> nullptr"
    using rep by (cases xs) (auto simp: list_rep_def)
  have "mll_insert_after a x (h, l) = Some (?h, ?l)"
    using na nx head by (simp add: mll_insert_after_def Let_def set_prev_def set_next_def get_node_def)
  moreover have "list_rep ?h ?l (xs @ [a, x])"
    using rep x na nx by (auto simp: list_rep_def)
  moreover have "links_only {a, x} h ?h"
    using na nx by (auto simp: links_only_def)
  ultimately show ?thesis by blast
qed

lemma mll_insert_after_mid:
  assumes rep: "list_rep h l (xs @ a # b # ys)" and x: "unlinked h x" "x \<notin> set (xs @ a # b # ys)"
  shows "\<exists>h' l'. mll_insert_after a x (h, l) = Some (h', l')
    \<and> list_rep h' l' (xs @ a # x # b # ys) \<and> links_only {a, b, x} h h'"
proof -
  obtain na nb nx where na: "h a = Some na" "nd_next na = b" "nd_prev na = last_or xs nullptr"
      and nb: "h b = Some nb" "nd_prev nb = a" "nd_next nb = first_or ys nullptr"
      and nx: "h x = Some nx" and nn: "x \<noteq> nullptr" "a \<noteq> nullptr" "b \<noteq> nullptr"
      "x \<noteq> a" "x \<noteq> b" "a \<noteq> b"
    using rep x by (auto simp: list_rep_def unlinked_def)
  let ?h = "h(x \<mapsto> nx\<lparr>nd_prev := a, nd_next := b\<rparr>, a \<mapsto> na\<lparr>nd_next := x\<rparr>, b \<mapsto> nb\<lparr>nd_prev := x\<rparr>)"
  let ?l = "l\<lparr>m_length := m_length l + 1\<rparr>"
  have head: "m_head l \<noteq> nullptr"
    using rep by (cases xs) (auto simp: list_rep_def)
  have "mll_insert_after a x (h, l) = Some (?h, ?l)"
    using na nb nx nn head
    by (simp add: mll_insert_after_def Let_def set_prev_def set_next_def get_node_def fun_upd_twist)
  moreover have "list_rep ?h ?l (xs @ a # x # b # ys)"
    using rep x na nb nx nn by (auto simp: list_rep_def)
  moreover have "links_only {a, b, x} h ?h"
    using na nb nx nn by (auto simp: links_only_def)
  ultimately show ?thesis by blast
qed

lemma links_only_mono: "links_only S h h' \<Longrightarrow> S \<subseteq> T \<Longrightarrow> links_only T h h'"
  by (auto simp: links_only_def)

lemma links_only_refl [simp]: "links_only S h h"
  by (simp add: links_only_def)

lemma insert_after_ok:
  assumes "list_rep h l (xs @ a # ys)" and "unlinked h x" and "x \<notin> set (xs @ a # ys)"
  shows "\<exists>h' l'. mll_insert_after a x (h, l) = Some (h', l')
    \<and> list_rep h' l' (xs @ a # x # ys) \<and> links_only (insert x (set (xs @ a # ys))) h h'"
proof (cases ys)
  case Nil
  obtain h' l' where "mll_insert_after a x (h, l) = Some (h', l')" "list_rep h' l' (xs @ [a, x])"
      "links_only {a, x} h h'"
    using mll_insert_after_last assms Nil by blast
  moreover have "{a, x} \<subseteq> insert x (set (xs @ a # ys))" by auto
  ultimately show ?thesis using links_only_mono Nil by blast
next
  case (Cons b zs)
  obtain h' l' where "mll_insert_after a x (h, l) = Some (h', l')"
      "list_rep h' l' (xs @ a # x # b # zs)" "links_only {a, b, x} h h'"
    using mll_insert_after_mid assms Cons by blast
  moreover have "{a, b, x} \<subseteq> insert x (set (xs @ a # ys))" using Cons by auto
  ultimately show ?thesis using links_only_mono Cons by blast
qed

text \<open>
  \<open>insert_after\<close> implements insertion into the abstract list: a fresh unlinked node goes right
  after the given one, links and length stay consistent, and no contents and no foreign node
  change.
\<close>

lemma mll_insert_after_refines:
  assumes "list_rep h l (xs @ a # ys)" and "unlinked h x" and "x \<notin> set (xs @ a # ys)"
  shows "\<exists>h' l'. mll_insert_after a x (h, l) = Some (h', l')
    \<and> list_rep h' l' (xs @ a # x # ys) \<and> links_only (insert x (set (xs @ a # ys))) h h'"
  using assms by (rule insert_after_ok)

lemma mll_append_refines:
  assumes "list_rep h l xs" and "unlinked h x" and "x \<notin> set xs"
  shows "\<exists>h' l'. mll_append x (h, l) = Some (h', l') \<and> list_rep h' l' (xs @ [x])
    \<and> links_only (insert x (set xs)) h h'"
proof (cases xs rule: rev_cases)
  case Nil
  with assms mll_insert_after_empty [of h l x] show ?thesis
    by (fastforce simp: mll_append_def)
next
  case (snoc ys a)
  then have "m_tail l = a" using assms(1) by (simp add: list_rep_def)
  with insert_after_ok [of h l ys a "[]" x] assms snoc show ?thesis
    by (fastforce simp: mll_append_def)
qed

text \<open>Removal: the destructor unlinks the node from its neighbours.\<close>

definition relink :: "'c heap \<Rightarrow> ptr \<Rightarrow> 'c node \<Rightarrow> 'c heap" where
  "relink h x n = (\<lambda>p.
     if p = x then Some (n\<lparr>nd_next := nullptr, nd_prev := nullptr\<rparr>)
     else if p \<noteq> nullptr \<and> p = nd_prev n then map_option (\<lambda>m. m\<lparr>nd_next := nd_next n\<rparr>) (h p)
     else if p \<noteq> nullptr \<and> p = nd_next n then map_option (\<lambda>m. m\<lparr>nd_prev := nd_prev n\<rparr>) (h p)
     else h p)"

lemma node_dtor_relink:
  assumes "list_rep h l (xs @ x # ys)" and "h x = Some n"
  shows "node_dtor x h = Some (relink h x n)"
proof -
  have p: "nd_prev n = last_or xs nullptr" "nd_next n = first_or ys nullptr" and x: "x \<noteq> nullptr"
    using assms by (auto simp: list_rep_def)
  have prev: "nd_prev n \<noteq> nullptr \<Longrightarrow> nd_prev n \<noteq> x \<and> (\<exists>m. h (nd_prev n) = Some m)"
    using list_rep_node [OF assms(1), of "nd_prev n"] list_rep_distinct [OF assms(1)]
      last_or_in [of xs nullptr] p by (cases "xs = []") auto
  have nxt: "nd_next n \<noteq> nullptr \<Longrightarrow> nd_next n \<noteq> x \<and> (\<exists>m. h (nd_next n) = Some m)"
    using list_rep_node [OF assms(1), of "nd_next n"] list_rep_distinct [OF assms(1)]
      first_or_in [of ys nullptr] p by (cases "ys = []") auto
  have ne: "nd_prev n \<noteq> nullptr \<Longrightarrow> nd_next n \<noteq> nullptr \<Longrightarrow> nd_prev n \<noteq> nd_next n"
    using list_rep_distinct [OF assms(1)] last_or_in [of xs nullptr] first_or_in [of ys nullptr] p
    by (cases "xs = []"; cases "ys = []") auto
  show ?thesis
    using prev nxt ne x assms(2)
    by (auto simp: node_dtor_def get_node_def set_next_def set_prev_def relink_def Let_def fun_eq_iff)
qed

lemma relink_links_only:
  "h x = Some n \<Longrightarrow> links_only {x, nd_prev n, nd_next n} h (relink h x n)"
  by (auto simp: links_only_def relink_def option.map_comp comp_def)

lemma dseg_relink_left:
  assumes "dseg h p xs x" and "x \<notin> set xs" and "nd_prev n = last_or xs nullptr"
    and "nd_next n \<notin> set xs" and "distinct xs"
  shows "dseg (relink h x n) p xs (nd_next n)"
proof (cases xs rule: rev_cases)
  case (snoc zs a)
  then have a: "nd_prev n = a" "a \<noteq> x" "a \<noteq> nullptr" "a \<notin> set zs" using assms by auto
  have "dseg (relink h x n) p zs a = dseg h p zs a"
    using assms snoc a by (intro dseg_cong) (auto simp: relink_def)
  then show ?thesis
    using assms snoc a by (auto simp: relink_def)
qed simp

lemma dseg_relink_right:
  assumes "dseg h x ys q" and "x \<notin> set ys" and "nd_next n = first_or ys nullptr"
    and "nd_prev n \<notin> set ys" and "distinct ys"
  shows "dseg (relink h x n) (nd_prev n) ys q"
proof (cases ys)
  case (Cons b zs)
  then have b: "nd_next n = b" "b \<noteq> x" "b \<noteq> nullptr" "b \<notin> set zs" using assms by auto
  have "dseg (relink h x n) b zs q = dseg h b zs q"
    using assms Cons b by (intro dseg_cong) (auto simp: relink_def)
  then show ?thesis
    using assms Cons b by (auto simp: relink_def)
qed simp

lemma remove_ok:
  assumes rep: "list_rep h l (xs @ x # ys)"
  shows "\<exists>h' l'. mll_remove x (h, l) = Some (h', l') \<and> list_rep h' l' (xs @ ys)
    \<and> unlinked h' x \<and> links_only (set (xs @ x # ys)) h h'"
proof -
  obtain n where n: "h x = Some n" "x \<noteq> nullptr" using list_rep_node [OF rep] by force
  have p: "nd_prev n = last_or xs nullptr" "nd_next n = first_or ys nullptr"
    and seg: "dseg h nullptr xs x" "dseg h x ys nullptr" and dist: "distinct (xs @ x # ys)"
    and ht: "m_head l = first_or (xs @ x # ys) nullptr" "m_tail l = last_or (xs @ x # ys) nullptr"
    and len: "m_length l = of_nat (length (xs @ x # ys))"
    using rep n by (auto simp: list_rep_def)
  have nonnull: "nullptr \<notin> set (xs @ x # ys)" using list_rep_node [OF rep] by blast
  let ?h = "relink h x n"
  let ?l = "\<lparr>m_head = first_or (xs @ ys) nullptr, m_tail = last_or (xs @ ys) nullptr,
      m_length = m_length l - 1\<rparr>"
  have nprev: "nd_prev n \<notin> set ys"
    using p(1) dist nonnull last_or_in [of xs nullptr] by (cases "xs = []") auto
  have nnext: "nd_next n \<notin> set xs"
    using p(2) dist nonnull first_or_in [of ys nullptr] by (cases "ys = []") auto
  have head: "x = m_head l \<longleftrightarrow> xs = []" using ht(1) dist by (cases xs) auto
  have tail: "x = m_tail l \<longleftrightarrow> ys = []"
    using ht(2) dist last_or_in [of ys x] by (cases "ys = []") auto
  have prev: "nd_prev n = nullptr \<longleftrightarrow> xs = []"
    using p(1) nonnull last_or_in [of xs nullptr] by (cases "xs = []") auto
  let ?l' = "l\<lparr>m_length := m_length l - 1, m_head := (if xs = [] then nd_next n else m_head l),
      m_tail := (if ys = [] then (if xs = [] then nd_next n else nd_prev n) else m_tail l)\<rparr>"
  have "?l' = ?l"
  proof (rule mll.equality)
    show "m_head ?l' = m_head ?l" using ht(1) p(2) by (cases xs) simp_all
    show "m_tail ?l' = m_tail ?l"
      using ht(2) p by (cases "xs = []"; cases "ys = []") (simp_all add: last_or_def)
  qed simp_all
  moreover have "mll_remove x (h, l) = Some (?h, ?l')"
    using n(2) by (simp add: mll_remove_def get_node_def Let_def n(1) node_dtor_relink [OF rep n(1)]
        head tail prev)
  ultimately have "mll_remove x (h, l) = Some (?h, ?l)" by simp
  moreover have "list_rep ?h ?l (xs @ ys)"
    using dist len p dseg_relink_left [OF seg(1) _ p(1) nnext] dseg_relink_right [OF seg(2) _ p(2) nprev]
    by (auto simp: list_rep_def)
  moreover have "unlinked ?h x" using n by (simp add: unlinked_def relink_def)
  moreover have "links_only (set (xs @ x # ys)) h ?h"
  proof -
    have "?h q = h q" if "q \<notin> set (xs @ x # ys)" for q
      using that p first_or_in [of ys nullptr] last_or_in [of xs nullptr]
      by (cases "xs = []"; cases "ys = []") (auto simp: relink_def)
    with relink_links_only [of h x n] n show ?thesis by (simp add: links_only_def)
  qed
  ultimately show ?thesis by blast
qed

text \<open>
  C15. \<open>remove\<close> implements removal from the abstract list: the neighbours are linked to each other,
  head, tail and length are updated, the node itself ends up unlinked with its contents intact, and
  no contents and no foreign node change.
\<close>

theorem mll_remove_refines:
  assumes rep: "list_rep h l (xs @ x # ys)"
  shows "\<exists>h' l'. mll_remove x (h, l) = Some (h', l') \<and> list_rep h' l' (xs @ ys)
    \<and> unlinked h' x \<and> links_only (set (xs @ x # ys)) h h'"
  using assms by (rule remove_ok)

section \<open>Iteration\<close>

definition iter_on :: "'c heap \<Rightarrow> mll \<Rightarrow> ptr_iter \<Rightarrow> ptr list \<Rightarrow> bool" where
  "iter_on h l it zs \<longleftrightarrow> (\<exists>ys. list_rep h l (ys @ zs))
     \<and> it = (if zs = [] then mll_end l else \<lparr>it_ptr = hd zs, it_at_end = False\<rparr>)"

lemma iter_on_begin: "list_rep h l xs \<Longrightarrow> iter_on h l (mll_begin l) xs"
proof -
  assume rep: "list_rep h l xs"
  then have "m_tail l = nullptr \<longleftrightarrow> xs = []"
    using list_rep_node [OF rep, of "m_tail l"] last_or_in [of xs nullptr]
    by (cases "xs = []") (auto simp: list_rep_def)
  with rep show ?thesis
    by (cases xs) (auto simp: iter_on_def mll_begin_def mll_end_def list_rep_def intro: exI [of _ "[]"])
qed

interpretation pi: forward_range "pi_incr h" pi_deref "mll_end l" "iter_on h l" for h l
proof
  fix it assume "iter_on h l it []"
  then show "it = mll_end l" by (simp add: iter_on_def)
next
  fix it x xs assume on: "iter_on h l it (x # xs)"
  then obtain ys where rep: "list_rep h l (ys @ x # xs)"
    and it: "it = \<lparr>it_ptr = x, it_at_end = False\<rparr>" by (auto simp: iter_on_def)
  obtain n where n: "h x = Some n" "nd_next n = first_or xs nullptr" "x \<noteq> nullptr"
    using rep by (auto simp: list_rep_def)
  have "pi_incr h it = Some (if xs = [] then mll_end l else \<lparr>it_ptr = hd xs, it_at_end = False\<rparr>)"
  proof (cases xs)
    case Nil
    with rep n it show ?thesis
      by (simp add: pi_incr_def get_node_def mll_end_def list_rep_def)
  next
    case (Cons z zs)
    then have "z \<noteq> nullptr" using list_rep_node [OF rep, of z] by simp
    with n it Cons show ?thesis by (simp add: pi_incr_def get_node_def)
  qed
  moreover have "iter_on h l (if xs = [] then mll_end l else \<lparr>it_ptr = hd xs, it_at_end = False\<rparr>) xs"
    using rep by (auto simp: iter_on_def intro: exI [of _ "ys @ [x]"])
  ultimately show "it \<noteq> mll_end l \<and> pi_deref it = Some x \<and>
      (\<exists>it'. pi_incr h it = Some it' \<and> iter_on h l it' xs)"
    using it by (auto simp: pi_deref_def mll_end_def)
qed

lemma iter_on_functional: "iter_on h l it zs \<Longrightarrow> zs \<noteq> [] \<Longrightarrow> it_ptr it = hd zs \<and> \<not> it_at_end it"
  by (simp add: iter_on_def)

lemma find_if_list:
  assumes "list_rep h l xs" and "\<And>x. x \<in> set xs \<Longrightarrow> pred x = Some (P x)"
  shows "find_if (pi_incr h) pi_deref pred (mll_begin l) (mll_end l) =
    Some (case find P xs of None \<Rightarrow> mll_end l | Some x \<Rightarrow> \<lparr>it_ptr = x, it_at_end = False\<rparr>)"
proof -
  obtain it where it: "find_if (pi_incr h) pi_deref pred (mll_begin l) (mll_end l) = Some it"
      "iter_on h l it (dropWhile (\<lambda>x. \<not> P x) xs)"
    using pi.find_if_dropWhile [OF iter_on_begin [OF assms(1)], of pred P] assms(2) by blast
  have "find P xs = (case dropWhile (\<lambda>x. \<not> P x) xs of [] \<Rightarrow> None | x # _ \<Rightarrow> Some x)"
    by (simp add: find_dropWhile comp_def)
  with it show ?thesis
    by (cases "dropWhile (\<lambda>x. \<not> P x) xs") (auto simp: iter_on_def)
qed

text \<open>
  Searching a list with \<open>find_if\<close> ends and returns the first node that satisfies the predicate,
  or the end iterator when no node does.
\<close>

lemma mll_find_if:
  assumes "list_rep h l xs" and "\<And>x. x \<in> set xs \<Longrightarrow> pred x = Some (P x)"
  shows "find_if (pi_incr h) pi_deref pred (mll_begin l) (mll_end l) =
    Some (case find P xs of None \<Rightarrow> mll_end l | Some x \<Rightarrow> \<lparr>it_ptr = x, it_at_end = False\<rparr>)"
  using assms by (rule find_if_list)

text \<open>
  \<open>distance\<close> counts nothing: for the range of a list of any length it returns 0. (The loop
  advances \<open>begin\<close> but never \<open>dist\<close>, so \<open>lower_bound\<close> on a list returns \<open>begin\<close>.)
\<close>

lemma mll_distance_zero:
  assumes "list_rep h l xs"
  shows "distance (pi_incr h) (mll_begin l) (mll_end l) = Some 0
    \<and> lower_bound (pi_incr h) pi_deref (distance (pi_incr h)) (mll_begin l) (mll_end l) compare
        = Some (mll_begin l)"
  using pi.distance_is_zero [OF iter_on_begin [OF assms]]
    pi.lower_bound_is_begin [OF iter_on_begin [OF assms]]
  by (simp add: distance_def)

lemma mll_range_for:
  assumes "list_rep h l xs"
  shows "range_for (pi_incr h) pi_deref body (mll_begin l) (mll_end l) s = fold_break body xs s"
  by (rule pi.range_for_fold [OF iter_on_begin [OF assms]])

section \<open>Concrete lists\<close>

definition two_nodes :: "u32 heap" where
  "two_nodes = Map.empty(
     16 \<mapsto> \<lparr>nd_next = 48, nd_prev = nullptr, nd_content = 7\<rparr>,
     48 \<mapsto> \<lparr>nd_next = nullptr, nd_prev = 16, nd_content = 9\<rparr>,
     80 \<mapsto> \<lparr>nd_next = nullptr, nd_prev = nullptr, nd_content = 11\<rparr>)"

definition two_list :: mll where
  "two_list = \<lparr>m_head = 16, m_tail = 48, m_length = 2\<rparr>"

lemma two_list_rep: "list_rep two_nodes two_list [16, 48]"
  by (simp add: list_rep_def two_nodes_def two_list_def)

theorem mll_remove_refines_witness:
  "\<exists>h' l'. mll_remove 16 (two_nodes, two_list) = Some (h', l') \<and> list_rep h' l' [48]"
  using mll_remove_refines [of two_nodes two_list "[]" 16 "[48]"] two_list_rep by auto

end
