(* ===== verification/Free_List.thy ===== *)
theory Free_List
  imports Linked_List Allocator_Interface
begin

text \<open>
  \<open>IntrusiveFreeList\<close> of pine/malloc.hpp and pine/malloc.cpp: the first-fit allocator of the kernel
  heap, of user tasks and of the slab allocator's spare pages. Every block starts with a list node
  (16 bytes in this build) whose content is the size of the memory after it; free blocks are the
  nodes of a \<open>ManualLinkedList\<close>, and allocated blocks keep their header in memory, where \<open>free\<close>
  reads it back.

  The heap maps the addresses of all headers to their nodes. That headers and the memory handed
  out do not overlap is not built into this representation; it is the invariant \<open>fl_inv\<close>.
\<close>

section \<open>Layout (units.hpp, page.hpp, malloc.hpp)\<close>

record header =
  hdr_size :: size_t
  hdr_padding :: size_t

definition header_node_size :: size_t where "header_node_size = 16"

type_synonym fl_state = "header heap \<times> mll"

definition max_overhead_per_allocation :: size_t where
  "max_overhead_per_allocation = header_node_size"

definition min_allocation_size :: "size_t \<Rightarrow> size_t" where
  "min_allocation_size requested_size =
     align_up_two requested_size Alignment + max_overhead_per_allocation"

definition fl_preferred_size :: "size_t \<Rightarrow> size_t" where
  "fl_preferred_size requested_size = align_up_two (min_allocation_size requested_size) PageSize"

definition to_user_ptr :: "ptr \<Rightarrow> size_t \<Rightarrow> ptr" where
  "to_user_ptr node_ptr offset = node_ptr + header_node_size + offset"

definition to_node_ptr :: "ptr \<Rightarrow> ptr" where
  "to_node_ptr addr = addr - header_node_size"

section \<open>Operations (malloc.cpp)\<close>

definition construct_node :: "size_t \<Rightarrow> ptr \<Rightarrow> header heap \<Rightarrow> header heap option" where
  "construct_node region_size node_location h =
     construct_at node_location \<lparr>hdr_size = region_size - header_node_size, hdr_padding = 0\<rparr> h"

definition hdr_size_of :: "header heap \<Rightarrow> ptr \<Rightarrow> size_t option" where
  "hdr_size_of h p = do { n \<leftarrow> get_node h p; Some (hdr_size (nd_content n)) }"

definition set_hdr_size :: "ptr \<Rightarrow> size_t \<Rightarrow> header heap \<Rightarrow> header heap option" where
  "set_hdr_size p s h = do { n \<leftarrow> get_node h p; set_content p ((nd_content n)\<lparr>hdr_size := s\<rparr>) h }"

text \<open>
  The splitting branch of \<open>allocate\<close>: the header shrinks to \<open>alloc_size\<close>, and the memory to its
  right becomes a new free node.
\<close>

definition fl_split_at :: "ptr \<Rightarrow> size_t \<Rightarrow> size_t \<Rightarrow> fl_state \<Rightarrow> fl_state option" where
  "fl_split_at node_ptr alloc_size remaining_size = (\<lambda>(h, l). do {
     h \<leftarrow> set_hdr_size node_ptr alloc_size h;
     let new_node_location = to_user_ptr node_ptr alloc_size;
     h \<leftarrow> construct_node remaining_size new_node_location h;
     mll_append new_node_location (h, l)
   })"

definition fl_allocate :: "size_t \<Rightarrow> fl_state \<Rightarrow> (allocation \<times> fl_state) option" where
  "fl_allocate requested_size = (\<lambda>(h, l). do {
     it \<leftarrow> find_if (pi_incr h) pi_deref
       (\<lambda>node. do { s \<leftarrow> hdr_size_of h node; Some (requested_size \<le> s) }) (mll_begin l) (mll_end l);
     (if it = mll_end l then Some (no_allocation, (h, l))
      else do {
        let node_ptr = it_ptr it;
        alloc_size \<leftarrow> hdr_size_of h node_ptr;
        let remaining_size = align_down_two (alloc_size - requested_size) Alignment;
        (alloc_size, h, l) \<leftarrow>
          (if min_allocation_size Alignment < remaining_size then do {
             let alloc_size = alloc_size - remaining_size;
             (h, l) \<leftarrow> fl_split_at node_ptr alloc_size remaining_size (h, l);
             Some (alloc_size, h, l)
           }
           else Some (alloc_size, h, l));
        (h, l) \<leftarrow> mll_remove node_ptr (h, l);
        Some (\<lparr>al_ptr = to_user_ptr node_ptr 0, al_size = alloc_size\<rparr>, (h, l))
      })
   })"

definition fl_add :: "ptr \<Rightarrow> size_t \<Rightarrow> fl_state \<Rightarrow> fl_state option" where
  "fl_add new_location new_size = (\<lambda>(h, l). do {
     h \<leftarrow> construct_node new_size new_location h;
     mll_append new_location (h, l)
   })"

definition are_nodes_contiguous :: "header heap \<Rightarrow> ptr \<Rightarrow> ptr \<Rightarrow> bool option" where
  "are_nodes_contiguous h left right = do {
     s \<leftarrow> hdr_size_of h left;
     Some (to_user_ptr left s = right)
   }"

definition neighbor_step ::
    "header heap \<Rightarrow> ptr \<Rightarrow> ptr \<Rightarrow> ptr \<times> ptr \<Rightarrow> ((ptr \<times> ptr) \<times> bool) option" where
  "neighbor_step h node_ptr free_node_ptr = (\<lambda>(left, right). do {
     is_left \<leftarrow> (if left = nullptr \<and> free_node_ptr < node_ptr
                 then are_nodes_contiguous h free_node_ptr node_ptr else Some False);
     is_right \<leftarrow> (if \<not> is_left \<and> right = nullptr \<and> node_ptr < free_node_ptr
                  then are_nodes_contiguous h node_ptr free_node_ptr else Some False);
     let left = (if is_left then free_node_ptr else left);
     let right = (if is_right then free_node_ptr else right);
     Some ((left, right), left \<noteq> nullptr \<and> right \<noteq> nullptr)
   })"

definition try_find_neighboring_memory_nodes :: "ptr \<Rightarrow> fl_state \<Rightarrow> (ptr \<times> ptr) option" where
  "try_find_neighboring_memory_nodes node_ptr = (\<lambda>(h, l).
     range_for (pi_incr h) pi_deref (neighbor_step h node_ptr) (mll_begin l) (mll_end l)
       (nullptr, nullptr))"

definition adopt_right_node_size :: "ptr \<Rightarrow> ptr \<Rightarrow> header heap \<Rightarrow> header heap option" where
  "adopt_right_node_size left right h = do {
     ls \<leftarrow> hdr_size_of h left;
     rs \<leftarrow> hdr_size_of h right;
     set_hdr_size left (ls + rs) h
   }"

definition fl_free :: "allocation \<Rightarrow> fl_state \<Rightarrow> (size_t \<times> fl_state) option" where
  "fl_free alloc = (\<lambda>(h, l). do {
     let node_ptr = to_node_ptr (al_ptr alloc);
     size_freed \<leftarrow> hdr_size_of h node_ptr;
     (left, right) \<leftarrow> try_find_neighboring_memory_nodes node_ptr (h, l);
     (h, node_ptr, was_adopted) \<leftarrow>
       (if left \<noteq> nullptr then do {
          h \<leftarrow> adopt_right_node_size left node_ptr h;
          h \<leftarrow> node_dtor node_ptr h;
          Some (h, left, True)
        }
        else Some (h, node_ptr, False));
     (h, l) \<leftarrow>
       (if right \<noteq> nullptr then do {
          h \<leftarrow> adopt_right_node_size node_ptr right h;
          (h, l) \<leftarrow> mll_remove right (h, l);
          h \<leftarrow> node_dtor right h;
          Some (h, l)
        }
        else Some (h, l));
     (h, l) \<leftarrow> (if was_adopted then Some (h, l) else mll_append node_ptr (h, l));
     Some (size_freed, (h, l))
   })"

section \<open>Blocks of memory\<close>

text \<open>The bytes of a block: its header and the memory after it.\<close>

definition span :: "ptr \<Rightarrow> size_t \<Rightarrow> nat set" where
  "span p s = {unat p ..< unat p + 16 + unat s}"

definition block_ok :: "ptr \<Rightarrow> size_t \<Rightarrow> bool" where
  "block_ok p s \<longleftrightarrow> p \<noteq> nullptr \<and> 8 dvd unat p \<and> 8 dvd unat s \<and> unat p + 16 + unat s < 2 ^ 32"

definition blocks_ok :: "ptr set \<Rightarrow> (ptr \<Rightarrow> size_t) \<Rightarrow> bool" where
  "blocks_ok S f \<longleftrightarrow> (\<forall>p\<in>S. block_ok p (f p))
     \<and> (\<forall>p\<in>S. \<forall>q\<in>S. p \<noteq> q \<longrightarrow> span p (f p) \<inter> span q (f q) = {})"

definition cover :: "ptr set \<Rightarrow> (ptr \<Rightarrow> size_t) \<Rightarrow> nat set" where
  "cover S f = (\<Union>p\<in>S. span p (f p))"

lemma blocks_ok_cong: "blocks_ok S f \<Longrightarrow> (\<And>p. p \<in> S \<Longrightarrow> g p = f p) \<Longrightarrow> blocks_ok S g"
  by (auto simp: blocks_ok_def)

lemma cover_cong: "(\<And>p. p \<in> S \<Longrightarrow> g p = f p) \<Longrightarrow> cover S g = cover S f"
  by (auto simp: cover_def)

lemma blocks_ok_subset: "blocks_ok S f \<Longrightarrow> T \<subseteq> S \<Longrightarrow> blocks_ok T f"
  unfolding blocks_ok_def by blast

lemma block_ok_end:
  assumes "block_ok p s"
  shows "unat (p + 16) = unat p + 16" and "unat (p + 16 + s) = unat p + 16 + unat s"
proof -
  show 16: "unat (p + 16) = unat p + 16"
    using assms by (simp add: block_ok_def unat_add_lt)
  show "unat (p + 16 + s) = unat p + 16 + unat s"
    using assms 16 by (subst unat_add_lt) (auto simp: block_ok_def)
qed

lemma span_disjoint_ne: "span p s \<inter> span q t = {} \<Longrightarrow> p \<noteq> q"
  by (auto simp: span_def)

lemma blocks_ok_insert:
  "blocks_ok (insert p S) f \<longleftrightarrow> block_ok p (f p) \<and> blocks_ok S f
     \<and> (\<forall>q\<in>S. q \<noteq> p \<longrightarrow> span p (f p) \<inter> span q (f q) = {})"
proof -
  have "(\<forall>q\<in>S. q \<noteq> p \<longrightarrow> span q (f q) \<inter> span p (f p) = {})
      = (\<forall>q\<in>S. q \<noteq> p \<longrightarrow> span p (f p) \<inter> span q (f q) = {})"
    by (metis Int_commute)
  moreover have "(\<forall>q\<in>S. p \<noteq> q \<longrightarrow> span p (f p) \<inter> span q (f q) = {})
      = (\<forall>q\<in>S. q \<noteq> p \<longrightarrow> span p (f p) \<inter> span q (f q) = {})"
    by metis
  ultimately show ?thesis unfolding blocks_ok_def ball_simps(7) ball_conj_distrib by argo
qed

text \<open>
  Several blocks \<open>M\<close> are replaced by one block within their bytes; a block is cut in two.
\<close>

lemma blocks_ok_replace:
  assumes ok: "blocks_ok S f" and p: "p \<in> M" "M \<subseteq> S" and new: "block_ok p s"
    and sub: "span p s \<subseteq> cover M f"
  shows "blocks_ok (insert p (S - M)) (f(p := s))
    \<and> cover (insert p (S - M)) (f(p := s)) \<subseteq> cover S f"
proof -
  have "span p s \<inter> span q (f q) = {}" if "q \<in> S - M" for q
  proof -
    have "span r (f r) \<inter> span q (f q) = {}" if "r \<in> M" for r
      using ok that \<open>q \<in> S - M\<close> p(2) unfolding blocks_ok_def by (metis Diff_iff subsetD)
    then show ?thesis using sub unfolding cover_def by blast
  qed
  then have "blocks_ok (insert p (S - M)) (f(p := s))"
    unfolding blocks_ok_insert using new ok p by (auto simp: blocks_ok_def)
  moreover have "cover (insert p (S - M)) (f(p := s)) \<subseteq> cover S f"
    using sub p unfolding cover_def by (auto split: if_splits)
  ultimately show ?thesis ..
qed

lemma unat_in_span: "unat p \<in> span p s"
  by (simp add: span_def)

lemma blocks_ok_split:
  assumes ok: "blocks_ok S f" and p: "p \<in> S" and q: "q = p + 16 + a"
    and a: "8 dvd unat a" and b: "8 dvd unat b" and sum: "unat a + 16 + unat b = unat (f p)"
  shows "blocks_ok (insert q S) (f(p := a, q := b)) \<and> q \<notin> S
    \<and> cover (insert q S) (f(p := a, q := b)) = cover S f"
proof -
  have bp: "block_ok p (f p)" using ok p by (simp add: blocks_ok_def)
  then have bpa: "block_ok p a" using a sum by (auto simp: block_ok_def)
  have uq: "unat q = unat p + 16 + unat a" using block_ok_end [OF bpa] q by simp
  have bq: "block_ok q b"
    using bp uq a b sum by (auto simp: block_ok_def simp flip: unat_eq_0)
  have un: "span p (f p) = span p a \<union> span q b"
    using uq sum by (auto simp: span_def)
  have disj: "span p a \<inter> span q b = {}" using uq by (auto simp: span_def)
  have inp: "unat q \<in> span p (f p)" using uq sum by (simp add: span_def)
  have pq: "p \<noteq> q" using uq by auto
  have nq: "q \<notin> S"
  proof
    assume "q \<in> S"
    then have "span p (f p) \<inter> span q (f q) = {}" using ok p pq by (simp add: blocks_ok_def)
    with inp unat_in_span [of q "f q"] show False by blast
  qed
  have others: "span p (f p) \<inter> span r (f r) = {}" if "r \<in> S" "r \<noteq> p" for r
    using ok p that by (simp add: blocks_ok_def)
  have "blocks_ok (insert q S) (f(p := a, q := b))"
    unfolding blocks_ok_def
  proof (intro conjI ballI impI)
    fix r assume "r \<in> insert q S"
    then show "block_ok r ((f(p := a, q := b)) r)"
      using ok bpa bq pq by (auto simp: blocks_ok_def)
  next
    fix r t assume rt: "r \<in> insert q S" "t \<in> insert q S" "r \<noteq> t"
    have old: "span r (f r) \<inter> span t (f t) = {}" if "r \<in> S" "t \<in> S"
      using ok that rt(3) by (simp add: blocks_ok_def)
    have fp: "(f(p := a, q := b)) p = a" and fq: "(f(p := a, q := b)) q = b" using pq by simp_all
    have fr: "(f(p := a, q := b)) x = f x" if "x \<noteq> p" "x \<noteq> q" for x using that by simp
    consider "r = p \<or> r = q" "t = p \<or> t = q" | "r = p \<or> r = q" "t \<in> S" "t \<noteq> p" "t \<noteq> q"
      | "t = p \<or> t = q" "r \<in> S" "r \<noteq> p" "r \<noteq> q" | "r \<in> S" "r \<noteq> p" "r \<noteq> q" "t \<in> S" "t \<noteq> p" "t \<noteq> q"
      using rt by blast
    then show "span r ((f(p := a, q := b)) r) \<inter> span t ((f(p := a, q := b)) t) = {}"
    proof cases
      case 1
      then show ?thesis using disj rt(3) fp fq by (metis Int_commute)
    next
      case 2
      then show ?thesis using others [of t] un fp fq fr [of t] by auto
    next
      case 3
      then show ?thesis using others [of r] un fp fq fr [of r] by auto
    next
      case 4
      then show ?thesis using old fr [of r] fr [of t] by simp
    qed
  qed
  moreover have "cover (insert q S) (f(p := a, q := b)) = cover S f"
  proof -
    have "cover (S - {p}) (f(p := a, q := b)) = cover (S - {p}) f"
      using nq by (intro cover_cong) auto
    moreover have "cover (insert q S) g = span q (g q) \<union> span p (g p) \<union> cover (S - {p}) g" for g
      using p by (auto simp: cover_def)
    moreover have "cover S f = span p (f p) \<union> cover (S - {p}) f"
      using p by (auto simp: cover_def)
    ultimately show ?thesis using un pq by (simp add: Un_ac)
  qed
  ultimately show ?thesis using nq by blast
qed

lemma finite_span [simp]: "finite (span p s)" and card_span [simp]: "card (span p s) = 16 + unat s"
  by (simp_all add: span_def)

lemma card_cover:
  assumes "finite S" and "blocks_ok S f"
  shows "card (cover S f) = (\<Sum>p\<in>S. 16 + unat (f p))"
proof -
  have "card (cover S f) = (\<Sum>p\<in>S. card (span p (f p)))"
    unfolding cover_def using assms by (intro card_UN_disjoint) (simp_all add: blocks_ok_def finite_span)
  then show ?thesis by simp
qed

section \<open>Headers in the heap\<close>

definition hsz :: "header heap \<Rightarrow> ptr \<Rightarrow> size_t" where
  "hsz h p = (case h p of None \<Rightarrow> 0 | Some n \<Rightarrow> hdr_size (nd_content n))"

lemma hsz_links_only: "links_only S h h' \<Longrightarrow> hsz h' = hsz h"
proof
  fix p assume "links_only S h h'"
  then have "map_option nd_content (h' p) = map_option nd_content (h p)" by (simp add: links_only_def)
  then show "hsz h' p = hsz h p" by (cases "h p"; cases "h' p") (auto simp: hsz_def)
qed

lemma hdr_size_of_hsz: "p \<noteq> nullptr \<Longrightarrow> h p = Some n \<Longrightarrow> hdr_size_of h p = Some (hsz h p)"
  by (simp add: hdr_size_of_def get_node_def hsz_def)

lemma set_hdr_size_ok:
  assumes "p \<noteq> nullptr" and "h p = Some n"
  shows "\<exists>h'. set_hdr_size p s h = Some h' \<and> same_links h h' \<and> hsz h' = (hsz h)(p := s)"
  using assms by (auto simp: set_hdr_size_def set_content_def get_node_def same_links_def hsz_def)

lemma construct_node_ok:
  assumes "p \<noteq> nullptr"
  shows "\<exists>h'. construct_node n p h = Some h' \<and> unlinked h' p \<and> hsz h' = (hsz h)(p := n - 16)
    \<and> (\<forall>q. q \<noteq> p \<longrightarrow> h' q = h q)"
  using assms by (auto simp: construct_node_def construct_at_def unlinked_def hsz_def header_node_size_def)

lemma adopt_ok:
  assumes "p \<noteq> nullptr" and "h p = Some n" and "q \<noteq> nullptr" and "h q = Some m"
  shows "\<exists>h'. adopt_right_node_size p q h = Some h' \<and> same_links h h'
    \<and> hsz h' = (hsz h)(p := hsz h p + hsz h q)"
  using set_hdr_size_ok [of p h n "hsz h p + hsz h q"] assms
  by (simp add: adopt_right_node_size_def hdr_size_of_hsz)

text \<open>
  The invariant: \<open>xs\<close> are the free blocks in list order and \<open>A\<close> the headers of the live
  allocations; all blocks together are well formed and disjoint.
\<close>

definition fl_inv :: "fl_state \<Rightarrow> ptr list \<Rightarrow> ptr set \<Rightarrow> bool" where
  "fl_inv s xs A \<longleftrightarrow> list_rep (fst s) (snd s) xs \<and> (\<forall>p\<in>A. unlinked (fst s) p) \<and> finite A
     \<and> A \<inter> set xs = {} \<and> blocks_ok (set xs \<union> A) (hsz (fst s))"

definition fl_bytes :: "fl_state \<Rightarrow> ptr list \<Rightarrow> ptr set \<Rightarrow> nat set" where
  "fl_bytes s xs A = cover (set xs \<union> A) (hsz (fst s))"

lemma fl_inv_block: "fl_inv s xs A \<Longrightarrow> p \<in> set xs \<or> p \<in> A \<Longrightarrow> block_ok p (hsz (fst s) p)"
  by (auto simp: fl_inv_def blocks_ok_def)

lemma fl_inv_size_of:
  "fl_inv (h, l) xs A \<Longrightarrow> p \<in> set xs \<or> p \<in> A \<Longrightarrow> p \<noteq> nullptr \<and> (\<exists>n. h p = Some n)
     \<and> hdr_size_of h p = Some (hsz h p)"
  using list_rep_node [of h l xs p] hdr_size_of_hsz [of p h]
  by (fastforce simp: fl_inv_def unlinked_def)

lemma fl_inv_empty: "fl_inv (h, empty_mll) [] {}"
  by (simp add: fl_inv_def blocks_ok_def)

lemma fl_bytes_header: "p \<in> set xs \<union> A \<Longrightarrow> unat p \<in> fl_bytes s xs A"
  unfolding fl_bytes_def cover_def using unat_in_span by blast

section \<open>add\<close>

lemma fl_add_appends:
  assumes inv: "fl_inv (h, l) xs A" and p: "block_ok p (n - 16)" "16 \<le> n"
    and fresh: "{unat p ..< unat p + unat n} \<inter> fl_bytes (h, l) xs A = {}"
  shows "\<exists>h' l'. fl_add p n (h, l) = Some (h', l') \<and> fl_inv (h', l') (xs @ [p]) A
    \<and> hsz h' = (hsz h)(p := n - 16)
    \<and> fl_bytes (h', l') (xs @ [p]) A = fl_bytes (h, l) xs A \<union> {unat p ..< unat p + unat n}"
proof -
  have n: "16 + unat (n - 16) = unat n"
    using p(2) by (simp add: unat_sub_le unat_word_le)
  then have sp: "span p (n - 16) = {unat p ..< unat p + unat n}" unfolding span_def by (simp add: add.assoc)
  have pnn: "p \<noteq> nullptr" using p(1) by (simp add: block_ok_def)
  have notin: "p \<notin> set xs \<union> A"
    using fresh fl_bytes_header [of p xs A] unat_in_span [of p "n - 16"] sp by blast
  obtain h1 where h1: "construct_node n p h = Some h1" "unlinked h1 p" "hsz h1 = (hsz h)(p := n - 16)"
      "\<forall>q. q \<noteq> p \<longrightarrow> h1 q = h q" using construct_node_ok [OF pnn] by blast
  have "list_rep h1 l xs"
    using inv notin h1(4) dseg_cong [of xs h1 h] by (simp add: fl_inv_def list_rep_def) metis
  then obtain h2 l2 where h2: "mll_append p (h1, l) = Some (h2, l2)" "list_rep h2 l2 (xs @ [p])"
      "links_only (insert p (set xs)) h1 h2"
    using mll_append_refines [of h1 l xs p] h1(2) notin by auto
  have hs: "hsz h2 = (hsz h)(p := n - 16)" using hsz_links_only [OF h2(3)] h1(3) by simp
  have live: "unlinked h2 q" if "q \<in> A" for q
  proof -
    have "q \<noteq> p" "q \<notin> set xs" using that notin inv by (auto simp: fl_inv_def)
    then have "h2 q = h q" using h1(4) h2(3) by (simp add: links_only_def)
    then show ?thesis using inv that by (simp add: fl_inv_def unlinked_def)
  qed
  have same: "hsz h2 q = hsz h q" if "q \<in> set xs \<union> A" for q using that notin hs by auto
  have bytes: "cover (set (xs @ [p]) \<union> A) (hsz h2) = fl_bytes (h, l) xs A \<union> span p (n - 16)"
  proof -
    have "cover (set (xs @ [p]) \<union> A) (hsz h2) = span p (hsz h2 p) \<union> cover (set xs \<union> A) (hsz h2)"
      by (auto simp: cover_def)
    then show ?thesis using hs cover_cong [of "set xs \<union> A" "hsz h2" "hsz h"] same
      by (simp add: fl_bytes_def Un_commute)
  qed
  have "blocks_ok (insert p (set xs \<union> A)) (hsz h2)"
    unfolding blocks_ok_insert
  proof (intro conjI ballI impI)
    show "block_ok p (hsz h2 p)" using p hs by simp
    show "blocks_ok (set xs \<union> A) (hsz h2)"
      using inv same by (auto simp: fl_inv_def intro: blocks_ok_cong)
    fix q assume q: "q \<in> set xs \<union> A"
    then show "span p (hsz h2 p) \<inter> span q (hsz h2 q) = {}"
      using fresh hs same [OF q] sp unfolding fl_bytes_def cover_def by auto
  qed
  then have "fl_inv (h2, l2) (xs @ [p]) A"
    using h2(2) live inv notin by (auto simp: fl_inv_def)
  moreover have "fl_add p n (h, l) = Some (h2, l2)" using h1(1) h2(1) by (simp add: fl_add_def)
  ultimately show ?thesis using hs bytes sp by (auto simp: fl_bytes_def)
qed

text \<open>
  \<open>add\<close> turns a fresh, aligned region of memory into one more free block: it is appended to the
  free list with its 16 header bytes subtracted from its size, every other block is untouched,
  and the bytes managed by the list are exactly the old ones and the region.
\<close>

lemma fl_add_ok:
  assumes inv: "fl_inv (h, l) xs A" and p: "block_ok p (n - 16)" "16 \<le> n"
    and fresh: "{unat p ..< unat p + unat n} \<inter> fl_bytes (h, l) xs A = {}"
  shows "\<exists>h' l'. fl_add p n (h, l) = Some (h', l') \<and> fl_inv (h', l') (xs @ [p]) A
    \<and> hsz h' = (hsz h)(p := n - 16)
    \<and> fl_bytes (h', l') (xs @ [p]) A = fl_bytes (h, l) xs A \<union> {unat p ..< unat p + unat n}"
  using assms by (rule fl_add_appends)

section \<open>allocate\<close>

lemma min_allocation_size_Alignment: "min_allocation_size Alignment = 24"
  by (simp add: min_allocation_size_def Alignment_def align_up_two_def max_overhead_per_allocation_def
      header_node_size_def)

lemma unat_align_down_8: "unat (align_down_two (v :: size_t) Alignment) = unat v div 8 * 8"
  using unat_align_down_two [of "Alignment" 3 v] by (simp add: Alignment_def)

lemma fl_find:
  assumes "fl_inv (h, l) xs A"
  shows "find_if (pi_incr h) pi_deref
      (\<lambda>node. do { s \<leftarrow> hdr_size_of h node; Some (r \<le> s) }) (mll_begin l) (mll_end l) =
    Some (case find (\<lambda>p. r \<le> hsz h p) xs of None \<Rightarrow> mll_end l | Some p \<Rightarrow> \<lparr>it_ptr = p, it_at_end = False\<rparr>)"
proof (rule find_if_list)
  show "list_rep h l xs" using assms by (simp add: fl_inv_def)
  fix p assume "p \<in> set xs"
  then show "do { s \<leftarrow> hdr_size_of h p; Some (r \<le> s) } = Some (r \<le> hsz h p)"
    using fl_inv_size_of [OF assms, of p] by simp
qed

text \<open>Taking a block off the free list, as it is.\<close>

lemma fl_take:
  assumes inv: "fl_inv (h, l) (us @ p # vs) A"
  shows "\<exists>h' l'. mll_remove p (h, l) = Some (h', l') \<and> fl_inv (h', l') (us @ vs) (insert p A)
    \<and> hsz h' = hsz h \<and> fl_bytes (h', l') (us @ vs) (insert p A) = fl_bytes (h, l) (us @ p # vs) A"
proof -
  obtain h' l' where r: "mll_remove p (h, l) = Some (h', l')" "list_rep h' l' (us @ vs)" "unlinked h' p"
      "links_only (set (us @ p # vs)) h h'"
    using remove_ok [of h l us p vs] inv by (auto simp: fl_inv_def)
  have hs: "hsz h' = hsz h" by (rule hsz_links_only [OF r(4)])
  have live: "unlinked h' q" if "q \<in> insert p A" for q
  proof (cases "q = p")
    case False
    then have "q \<notin> set (us @ p # vs)" "unlinked h q" using that inv by (auto simp: fl_inv_def)
    then show ?thesis using r(4) by (simp add: links_only_def unlinked_def)
  qed (simp add: r(3))
  have sets: "set (us @ vs) \<union> insert p A = set (us @ p # vs) \<union> A" by auto
  have "distinct (us @ p # vs)" using inv by (auto simp: fl_inv_def list_rep_def)
  then have "fl_inv (h', l') (us @ vs) (insert p A)"
    using inv r(2) live hs sets by (auto simp: fl_inv_def)
  then show ?thesis using r(1) hs sets by (simp add: fl_bytes_def)
qed

text \<open>Cutting a free block: its tail becomes a new free block at the end of the list.\<close>

lemma fl_split_ok:
  assumes inv: "fl_inv (h, l) xs A" and p: "p \<in> set xs"
    and a: "8 dvd unat a" and n: "8 dvd unat n" "16 \<le> n" and sum: "unat a + unat n = unat (hsz h p)"
  shows "\<exists>h' l'. fl_split_at p a n (h, l) = Some (h', l') \<and> fl_inv (h', l') (xs @ [p + 16 + a]) A
    \<and> hsz h' = (hsz h)(p := a, p + 16 + a := n - 16)
    \<and> fl_bytes (h', l') (xs @ [p + 16 + a]) A = fl_bytes (h, l) xs A \<and> p + 16 + a \<notin> set xs \<union> A"
proof -
  let ?q = "p + 16 + a" and ?f = "(hsz h)(p := a, p + 16 + a := n - 16)"
  have nb: "unat (n - 16) + 16 = unat n" using n(2) by (simp add: unat_sub_le unat_word_le)
  have "8 dvd unat (n - 16)" using n(1) nb by presburger
  then have sp: "blocks_ok (insert ?q (set xs \<union> A)) ?f" "?q \<notin> set xs \<union> A"
      "cover (insert ?q (set xs \<union> A)) ?f = cover (set xs \<union> A) (hsz h)"
    using blocks_ok_split [of "set xs \<union> A" "hsz h" p ?q a "n - 16"] inv p a sum nb
    by (auto simp: fl_inv_def)
  have qnn: "?q \<noteq> nullptr" using sp(1) by (simp add: blocks_ok_def block_ok_def)
  have tup: "to_user_ptr p a = ?q" by (simp add: to_user_ptr_def header_node_size_def)
  obtain m where m: "p \<noteq> nullptr" "h p = Some m" using fl_inv_size_of [OF inv, of p] p by blast
  obtain h1 where h1: "set_hdr_size p a h = Some h1" "same_links h h1" "hsz h1 = (hsz h)(p := a)"
    using set_hdr_size_ok [of p h m a] m by blast
  obtain h2 where h2: "construct_node n ?q h1 = Some h2" "unlinked h2 ?q"
      "hsz h2 = (hsz h1)(?q := n - 16)" "\<forall>q. q \<noteq> ?q \<longrightarrow> h2 q = h1 q"
    using construct_node_ok [OF qnn] by blast
  have rep1: "list_rep h1 l xs" using inv h1(2) by (simp add: fl_inv_def list_rep_same_links)
  have "dseg h2 nullptr xs nullptr = dseg h1 nullptr xs nullptr"
    using sp(2) h2(4) by (intro dseg_cong) (metis UnI1)
  then have "list_rep h2 l xs" using rep1 by (simp add: list_rep_def)
  then obtain h3 l3 where h3: "mll_append ?q (h2, l) = Some (h3, l3)" "list_rep h3 l3 (xs @ [?q])"
      "links_only (insert ?q (set xs)) h2 h3"
    using mll_append_refines [of h2 l xs ?q] h2(2) sp(2) by auto
  have hs: "hsz h3 = ?f" using hsz_links_only [OF h3(3)] h2(3) h1(3) by simp
  have live: "unlinked h3 q" if q: "q \<in> A" for q
  proof -
    have "unlinked h1 q" using inv q h1(2) by (simp add: fl_inv_def unlinked_same_links)
    moreover have "q \<noteq> ?q" "q \<notin> set xs" using q sp(2) inv by (auto simp: fl_inv_def)
    then have "h3 q = h1 q" using h2(4) h3(3) by (simp add: links_only_def)
    ultimately show ?thesis by (simp add: unlinked_def)
  qed
  have sets: "set (xs @ [?q]) \<union> A = insert ?q (set xs \<union> A)" by auto
  have "A \<inter> set (xs @ [?q]) = {}" using inv sp(2) by (auto simp: fl_inv_def)
  then have "fl_inv (h3, l3) (xs @ [?q]) A"
    using h3(2) live inv sp(1) by (simp add: fl_inv_def sets hs)
  moreover have "fl_split_at p a n (h, l) = Some (h3, l3)"
    using h1(1) h2(1) h3(1) by (simp add: fl_split_at_def tup)
  ultimately show ?thesis using hs sp by (simp add: fl_bytes_def sets)
qed

lemma fl_allocate_none:
  assumes "fl_inv (h, l) xs A" and "find (\<lambda>p. r \<le> hsz h p) xs = None"
  shows "fl_allocate r (h, l) = Some (no_allocation, (h, l))"
  unfolding fl_allocate_def prod.case fl_find [OF assms(1)] assms(2) by simp

text \<open>The two ways to serve a request from the first block that is large enough: cut or whole.\<close>

lemma fl_allocate_cut:
  assumes inv: "fl_inv (h, l) (us @ p # vs) A" and fnd: "find (\<lambda>p. r \<le> hsz h p) (us @ p # vs) = Some p"
    and fits: "r \<le> hsz h p" and big: "24 < align_down_two (hsz h p - r) Alignment"
    and a: "a = hsz h p - align_down_two (hsz h p - r) Alignment"
  shows "\<exists>h' l'. fl_allocate r (h, l) = Some (\<lparr>al_ptr = p + 16, al_size = a\<rparr>, (h', l'))
    \<and> r \<le> a \<and> unat a < unat r + 32 \<and> p + 16 + a \<notin> set (us @ p # vs) \<union> A
    \<and> fl_inv (h', l') (us @ vs @ [p + 16 + a]) (insert p A)
    \<and> hsz h' = (hsz h)(p := a, p + 16 + a := hsz h p - a - 16)
    \<and> fl_bytes (h', l') (us @ vs @ [p + 16 + a]) (insert p A) = fl_bytes (h, l) (us @ p # vs) A"
proof -
  let ?s = "hsz h p" and ?xs = "us @ p # vs"
  let ?rem = "align_down_two (?s - r) Alignment"
  have diff: "unat (?s - r) = unat ?s - unat r" and le: "unat r \<le> unat ?s"
    using fits by (simp_all add: unat_sub_le unat_word_le)
  have rem: "unat ?rem = (unat ?s - unat r) div 8 * 8" by (simp add: unat_align_down_8 diff)
  have rem_le: "unat ?rem \<le> unat ?s - unat r" using rem by linarith
  have ua: "unat a = unat ?s - unat ?rem"
    unfolding a using rem_le by (intro unat_sub_le) (simp add: unat_word_le)
  have "8 dvd unat ?s" using fl_inv_block [OF inv, of p] by (simp add: block_ok_def)
  then have a8: "8 dvd unat a" using ua rem by (simp add: dvd_diff_nat)
  have sum: "unat a + unat ?rem = unat ?s" using ua rem_le by linarith
  have r16: "16 \<le> ?rem" using big by (simp add: unat_word_le unat_word_lt)
  have left: "?s - a = ?rem" by (simp add: a)
  obtain h1 l1 where s1: "fl_split_at p a ?rem (h, l) = Some (h1, l1)"
      "fl_inv (h1, l1) (us @ p # vs @ [p + 16 + a]) A"
      "hsz h1 = (hsz h)(p := a, p + 16 + a := ?rem - 16)"
      "fl_bytes (h1, l1) (us @ p # vs @ [p + 16 + a]) A = fl_bytes (h, l) ?xs A"
      "p + 16 + a \<notin> set ?xs \<union> A"
    using fl_split_ok [OF inv _ a8 _ r16 sum] rem by auto
  obtain h2 l2 where s2: "mll_remove p (h1, l1) = Some (h2, l2)"
      "fl_inv (h2, l2) (us @ vs @ [p + 16 + a]) (insert p A)" "hsz h2 = hsz h1"
      "fl_bytes (h2, l2) (us @ vs @ [p + 16 + a]) (insert p A) = fl_bytes (h, l) ?xs A"
    using fl_take [OF s1(2)] s1(4) by auto
  have size: "hdr_size_of h p = Some ?s" using fl_inv_size_of [OF inv, of p] by simp
  have "fl_allocate r (h, l) = Some (\<lparr>al_ptr = p + 16, al_size = a\<rparr>, (h2, l2))"
    unfolding fl_allocate_def prod.case fl_find [OF inv] fnd
    using size big s1(1) s2(1)
    by (simp add: min_allocation_size_Alignment to_user_ptr_def header_node_size_def mll_end_def Let_def a)
  moreover have "r \<le> a" unfolding unat_word_le [of r] ua using rem_le le by linarith
  moreover have "unat a < unat r + 32" unfolding ua rem using le by linarith
  ultimately show ?thesis
    using s1(3,5) s2(2,3,4) left by (intro exI [of _ h2] exI [of _ l2]) simp
qed

lemma fl_allocate_whole:
  assumes inv: "fl_inv (h, l) (us @ p # vs) A" and fnd: "find (\<lambda>p. r \<le> hsz h p) (us @ p # vs) = Some p"
    and fits: "r \<le> hsz h p" and small: "\<not> 24 < align_down_two (hsz h p - r) Alignment"
  shows "\<exists>h' l'. fl_allocate r (h, l) = Some (\<lparr>al_ptr = p + 16, al_size = hsz h p\<rparr>, (h', l'))
    \<and> unat (hsz h p) < unat r + 32 \<and> fl_inv (h', l') (us @ vs) (insert p A) \<and> hsz h' = hsz h
    \<and> fl_bytes (h', l') (us @ vs) (insert p A) = fl_bytes (h, l) (us @ p # vs) A"
proof -
  have diff: "unat (hsz h p - r) = unat (hsz h p) - unat r"
    using fits by (simp add: unat_sub_le unat_word_le)
  have "unat (hsz h p) < unat r + 32"
    using small fits by (simp add: unat_word_lt unat_word_le unat_align_down_8 diff)
  moreover have size: "hdr_size_of h p = Some (hsz h p)" using fl_inv_size_of [OF inv, of p] by simp
  moreover obtain h2 l2 where s2: "mll_remove p (h, l) = Some (h2, l2)"
      "fl_inv (h2, l2) (us @ vs) (insert p A)" "hsz h2 = hsz h"
      "fl_bytes (h2, l2) (us @ vs) (insert p A) = fl_bytes (h, l) (us @ p # vs) A"
    using fl_take [OF inv] by blast
  moreover have "fl_allocate r (h, l) = Some (\<lparr>al_ptr = p + 16, al_size = hsz h p\<rparr>, (h2, l2))"
    unfolding fl_allocate_def prod.case fl_find [OF inv] fnd
    using size small s2(1)
    by (simp add: min_allocation_size_Alignment to_user_ptr_def header_node_size_def mll_end_def Let_def)
  ultimately show ?thesis by blast
qed

lemma fl_allocate_some:
  assumes inv: "fl_inv (h, l) xs A" and fnd: "find (\<lambda>p. r \<le> hsz h p) xs = Some p"
  shows "\<exists>h' l' xs' s. fl_allocate r (h, l) = Some (\<lparr>al_ptr = p + 16, al_size = s\<rparr>, (h', l'))
    \<and> r \<le> s \<and> unat s < unat r + 32 \<and> s = hsz h' p
    \<and> fl_inv (h', l') xs' (insert p A) \<and> fl_bytes (h', l') xs' (insert p A) = fl_bytes (h, l) xs A
    \<and> (\<forall>q\<in>A. hsz h' q = hsz h q) \<and> p \<notin> A"
proof -
  have pin: "p \<in> set xs" and fits: "r \<le> hsz h p" using fnd by (auto simp: find_Some_iff)
  then obtain us vs where xs: "xs = us @ p # vs" by (auto dest: split_list)
  have pA: "p \<notin> A" using inv pin by (auto simp: fl_inv_def)
  show ?thesis
  proof (cases "24 < align_down_two (hsz h p - r) Alignment")
    case True
    define a where "a = hsz h p - align_down_two (hsz h p - r) Alignment"
    from fl_allocate_cut [OF inv [unfolded xs] fnd [unfolded xs] fits True a_def]
    obtain h' l' where c: "fl_allocate r (h, l) = Some (\<lparr>al_ptr = p + 16, al_size = a\<rparr>, (h', l'))"
      "r \<le> a" "unat a < unat r + 32" "p + 16 + a \<notin> set (us @ p # vs) \<union> A"
      "fl_inv (h', l') (us @ vs @ [p + 16 + a]) (insert p A)"
      "hsz h' = (hsz h)(p := a, p + 16 + a := hsz h p - a - 16)"
      "fl_bytes (h', l') (us @ vs @ [p + 16 + a]) (insert p A) = fl_bytes (h, l) xs A"
      by (auto simp: xs)
    have "p \<noteq> p + 16 + a" using c(4) by (metis UnI1 in_set_conv_decomp)
    then have "a = hsz h' p" "\<forall>q\<in>A. hsz h' q = hsz h q" using c(4,6) pA by auto
    then show ?thesis using c pA by blast
  next
    case False
    then show ?thesis
      using fl_allocate_whole [OF inv [unfolded xs] fnd [unfolded xs] fits False] pA fits
      by (auto simp: xs)
  qed
qed

text \<open>
  C1. \<open>allocate\<close> always returns, and is a first-fit allocator: with no free block of the requested
  size the result is the null allocation and nothing changes; otherwise it hands out the memory
  of the first free block that is large enough, cut down to less than 32 bytes more than
  requested. Every block stays well formed and disjoint from all others, the live allocations
  keep their sizes, and no byte of the heap is lost.
\<close>

theorem fl_allocate_first_fit:
  assumes "fl_inv (h, l) xs A"
  shows "case find (\<lambda>p. r \<le> hsz h p) xs of
      None \<Rightarrow> fl_allocate r (h, l) = Some (no_allocation, (h, l))
    | Some p \<Rightarrow> (\<exists>h' l' xs' s. fl_allocate r (h, l) = Some (\<lparr>al_ptr = p + 16, al_size = s\<rparr>, (h', l'))
        \<and> r \<le> s \<and> unat s < unat r + 32 \<and> s = hsz h' p
        \<and> fl_inv (h', l') xs' (insert p A) \<and> fl_bytes (h', l') xs' (insert p A) = fl_bytes (h, l) xs A
        \<and> (\<forall>q\<in>A. hsz h' q = hsz h q) \<and> p \<notin> A)"
  using fl_allocate_none [OF assms] fl_allocate_some [OF assms]
  by (cases "find (\<lambda>p. r \<le> hsz h p) xs") simp_all

section \<open>free\<close>

text \<open>The free blocks that end where a block starts, and start where it ends.\<close>

definition left_of :: "(ptr \<Rightarrow> size_t) \<Rightarrow> ptr \<Rightarrow> ptr \<Rightarrow> bool" where
  "left_of f p q \<longleftrightarrow> q < p \<and> q + 16 + f q = p"

definition right_of :: "(ptr \<Rightarrow> size_t) \<Rightarrow> ptr \<Rightarrow> ptr \<Rightarrow> bool" where
  "right_of f p q \<longleftrightarrow> p < q \<and> p + 16 + f p = q"

definition found :: "(ptr \<Rightarrow> bool) \<Rightarrow> ptr list \<Rightarrow> ptr" where
  "found P xs = (case find P xs of None \<Rightarrow> nullptr | Some q \<Rightarrow> q)"

lemma found_simps [simp]: "found P [] = nullptr" "found P (x # xs) = (if P x then x else found P xs)"
  by (simp_all add: found_def)

lemma foundD: "found P xs \<noteq> nullptr \<Longrightarrow> found P xs \<in> set xs \<and> P (found P xs)"
  by (induction xs) (auto split: if_splits)

lemma left_right_exclusive: "left_of f p q \<Longrightarrow> \<not> right_of f p q"
  by (auto simp: left_of_def right_of_def)

lemma neighbor_step_eq:
  assumes "hdr_size_of h q = Some (f q)" and "hdr_size_of h p = Some (f p)"
  shows "neighbor_step h p q (l, r) =
    (let l' = (if l = nullptr \<and> left_of f p q then q else l);
         r' = (if \<not> (l = nullptr \<and> left_of f p q) \<and> r = nullptr \<and> right_of f p q then q else r)
     in Some ((l', r'), l' \<noteq> nullptr \<and> r' \<noteq> nullptr))"
  using assms
  by (auto simp: neighbor_step_def are_nodes_contiguous_def left_of_def right_of_def to_user_ptr_def
      header_node_size_def Let_def)

lemma neighbor_fold:
  assumes "\<And>q. q \<in> set xs \<Longrightarrow> hdr_size_of h q = Some (f q) \<and> q \<noteq> nullptr"
    and p: "hdr_size_of h p = Some (f p)" and "l = nullptr \<or> r = nullptr"
  shows "fold_break (neighbor_step h p) xs (l, r) =
    Some (if l = nullptr then found (left_of f p) xs else l,
          if r = nullptr then found (right_of f p) xs else r)"
  using assms(1,3)
proof (induction xs arbitrary: l r)
  case (Cons q qs)
  then have q: "hdr_size_of h q = Some (f q)" "q \<noteq> nullptr" by simp_all
  have IH: "l = nullptr \<or> r = nullptr \<Longrightarrow> fold_break (neighbor_step h p) qs (l, r) =
      Some (if l = nullptr then found (left_of f p) qs else l,
            if r = nullptr then found (right_of f p) qs else r)" for l r
    using Cons by simp
  consider "left_of f p q" "\<not> right_of f p q" | "\<not> left_of f p q" "right_of f p q"
    | "\<not> left_of f p q" "\<not> right_of f p q" using left_right_exclusive by blast
  then show ?case
    using Cons.prems(2) q(2)
    by cases (auto simp: neighbor_step_eq [OF q(1) p] IH Let_def)
qed auto

lemma try_find_ok:
  assumes inv: "fl_inv (h, l) xs A" and p: "p \<in> A"
  shows "try_find_neighboring_memory_nodes p (h, l) =
    Some (found (left_of (hsz h) p) xs, found (right_of (hsz h) p) xs)"
proof -
  have rep: "list_rep h l xs" using inv by (simp add: fl_inv_def)
  have "fold_break (neighbor_step h p) xs (nullptr, nullptr) =
      Some (found (left_of (hsz h) p) xs, found (right_of (hsz h) p) xs)"
    using neighbor_fold [of xs h "hsz h" p nullptr nullptr] fl_inv_size_of [OF inv] p by simp
  then show ?thesis
    by (simp add: try_find_neighboring_memory_nodes_def mll_range_for [OF rep])
qed

text \<open>The block that \<open>free\<close> makes of a block \<open>p\<close> and its free neighbours.\<close>

definition merge_set :: "ptr \<Rightarrow> ptr \<Rightarrow> ptr \<Rightarrow> ptr set" where
  "merge_set L p R = {q. (q = L \<and> L \<noteq> nullptr) \<or> q = p \<or> (q = R \<and> R \<noteq> nullptr)}"

definition merge_head :: "ptr \<Rightarrow> ptr \<Rightarrow> ptr" where
  "merge_head L p = (if L \<noteq> nullptr then L else p)"

definition merge_size :: "(ptr \<Rightarrow> size_t) \<Rightarrow> ptr \<Rightarrow> ptr \<Rightarrow> ptr \<Rightarrow> size_t" where
  "merge_size f L p R =
     (if L \<noteq> nullptr then f L + f p else f p) + (if R \<noteq> nullptr then f R else 0)"

definition merges :: "ptr \<Rightarrow> ptr \<Rightarrow> nat" where
  "merges L R = of_bool (L \<noteq> nullptr) + of_bool (R \<noteq> nullptr)"

lemma merge_ok:
  assumes ok: "blocks_ok S f" and p: "p \<in> S" and fin: "finite S"
    and L: "L \<noteq> nullptr \<Longrightarrow> L \<in> S \<and> L + 16 + f L = p"
    and R: "R \<noteq> nullptr \<Longrightarrow> R \<in> S \<and> p + 16 + f p = R"
  defines "S' \<equiv> insert (merge_head L p) (S - merge_set L p R)"
    and "f' \<equiv> f(merge_head L p := merge_size f L p R)"
  shows "blocks_ok S' f'" "cover S' f' \<subseteq> cover S f"
    "card (cover S' f') + 16 * merges L R = card (cover S f)"
    "L \<noteq> p" "R \<noteq> p" "L \<noteq> nullptr \<Longrightarrow> L \<noteq> R"
proof -
  let ?M = "merge_set L p R" and ?c = "merge_head L p" and ?s = "merge_size f L p R"
  have bp: "block_ok p (f p)" using ok p by (simp add: blocks_ok_def)
  have bL: "block_ok L (f L)" if "L \<noteq> nullptr" using ok L that by (simp add: blocks_ok_def)
  have bR: "block_ok R (f R)" if "R \<noteq> nullptr" using ok R that by (simp add: blocks_ok_def)
  have uL: "unat p = unat L + 16 + unat (f L)" if "L \<noteq> nullptr"
    using block_ok_end [OF bL [OF that]] L [OF that] by simp
  have uR: "unat R = unat p + 16 + unat (f p)" if "R \<noteq> nullptr"
    using block_ok_end [OF bp] R [OF that] by simp
  have ends: "unat p + 16 + unat (f p) < 2 ^ 32" "R \<noteq> nullptr \<Longrightarrow> unat R + 16 + unat (f R) < 2 ^ 32"
    using bp bR by (auto simp: block_ok_def)
  show Lp: "L \<noteq> p" using uL bp by (auto simp: block_ok_def)
  show Rp: "R \<noteq> p" using uR bp by (auto simp: block_ok_def)
  show LR: "L \<noteq> R" if "L \<noteq> nullptr" using uL uR that by (cases "R = nullptr") auto
  let ?l = "if L \<noteq> nullptr then unat (f L) else 0" and ?r = "if R \<noteq> nullptr then unat (f R) else 0"
  have Lsum: "unat (if L \<noteq> nullptr then f L + f p else f p) = ?l + unat (f p)"
  proof (cases "L = nullptr")
    case False
    then have "unat (f L + f p) = unat (f L) + unat (f p)"
      using uL ends(1) by (intro unat_add_lt) simp
    with False show ?thesis by simp
  qed simp
  have s: "unat ?s = ?l + unat (f p) + ?r"
  proof -
    have "?l + unat (f p) + ?r < 2 ^ LENGTH(32)"
      using uL uR ends by (cases "L = nullptr"; cases "R = nullptr") simp_all
    then show ?thesis
      unfolding merge_size_def using Lsum
      by (subst unat_add_lt) (cases "R = nullptr"; simp)+
  qed
  have M: "?M \<subseteq> S" "?c \<in> ?M" using L R p by (auto simp: merge_set_def merge_head_def)
  have c: "unat ?c + (if L \<noteq> nullptr then 16 + unat (f L) else 0) = unat p"
    using uL by (simp add: merge_head_def)
  have bc: "block_ok ?c ?s"
    unfolding block_ok_def s
  proof (intro conjI)
    show "?c \<noteq> nullptr" "8 dvd unat ?c" using bp bL by (auto simp: merge_head_def block_ok_def)
    show "8 dvd ?l + unat (f p) + ?r" using bp bL bR by (auto simp: block_ok_def)
    show "unat ?c + 16 + (?l + unat (f p) + ?r) < 2 ^ 32"
      using c uR ends by (cases "L = nullptr"; cases "R = nullptr") (simp_all)
  qed
  have sub: "span ?c ?s \<subseteq> cover ?M f"
  proof
    fix x assume "x \<in> span ?c ?s"
    then have x: "unat ?c \<le> x" "x < unat ?c + 16 + (?l + unat (f p) + ?r)" by (simp_all add: span_def s)
    consider "x < unat p" | "unat p \<le> x" "x < unat p + 16 + unat (f p)" | "unat p + 16 + unat (f p) \<le> x"
      by linarith
    then show "x \<in> cover ?M f"
    proof cases
      case 1
      then have "L \<noteq> nullptr" using x c by (auto split: if_splits)
      then have "x \<in> span L (f L)" "L \<in> ?M" using 1 x uL by (auto simp: span_def merge_head_def merge_set_def)
      then show ?thesis by (auto simp: cover_def)
    next
      case 2
      then have "x \<in> span p (f p)" "p \<in> ?M" by (auto simp: span_def merge_set_def)
      then show ?thesis by (auto simp: cover_def)
    next
      case 3
      then have R0: "R \<noteq> nullptr" using x c by (auto split: if_splits)
      then have "x \<in> span R (f R)" "R \<in> ?M"
        using 3 x uR c by (auto simp: span_def merge_set_def split: if_splits)
      then show ?thesis by (auto simp: cover_def)
    qed
  qed
  show new: "blocks_ok S' f'" "cover S' f' \<subseteq> cover S f"
    using blocks_ok_replace [OF ok M(2,1) bc sub] by (simp_all add: S'_def f'_def)
  let ?w = "\<lambda>g q. 16 + unat (g q :: size_t)"
  have "sum (?w f) ?M = 16 * merges L R + (16 + unat ?s)"
  proof -
    have "?M = {p} \<union> (if L \<noteq> nullptr then {L} else {}) \<union> (if R \<noteq> nullptr then {R} else {})"
      by (auto simp: merge_set_def)
    then show ?thesis using Lp Rp LR s
      by (cases "L = nullptr"; cases "R = nullptr") (simp_all add: merges_def)
  qed
  moreover have "sum (?w f) S = sum (?w f) (S - ?M) + sum (?w f) ?M"
    using M(1) fin by (rule sum.subset_diff)
  moreover have "sum (?w f') S' = 16 + unat ?s + sum (?w f) (S - ?M)"
  proof -
    have "?c \<notin> S - ?M" using M(2) by blast
    moreover have "sum (?w f') (S - ?M) = sum (?w f) (S - ?M)"
      using M(2) by (intro sum.cong) (auto simp: f'_def)
    ultimately show ?thesis using fin by (simp add: S'_def) (simp add: f'_def)
  qed
  ultimately show "card (cover S' f') + 16 * merges L R = card (cover S f)"
    using card_cover [OF fin ok] card_cover [OF _ new(1)] fin by (simp add: S'_def)
qed

definition free_left :: "ptr \<Rightarrow> ptr \<Rightarrow> header heap \<Rightarrow> (header heap \<times> ptr \<times> bool) option" where
  "free_left left node_ptr h =
     (if left \<noteq> nullptr then do {
        h \<leftarrow> adopt_right_node_size left node_ptr h;
        h \<leftarrow> node_dtor node_ptr h;
        Some (h, left, True)
      }
      else Some (h, node_ptr, False))"

definition free_right :: "ptr \<Rightarrow> ptr \<Rightarrow> fl_state \<Rightarrow> fl_state option" where
  "free_right right node_ptr = (\<lambda>(h, l).
     (if right \<noteq> nullptr then do {
        h \<leftarrow> adopt_right_node_size node_ptr right h;
        (h, l) \<leftarrow> mll_remove right (h, l);
        h \<leftarrow> node_dtor right h;
        Some (h, l)
      }
      else Some (h, l)))"

lemma fl_free_unfold:
  "fl_free alloc (h, l) = do {
     let node_ptr = to_node_ptr (al_ptr alloc);
     size_freed \<leftarrow> hdr_size_of h node_ptr;
     (left, right) \<leftarrow> try_find_neighboring_memory_nodes node_ptr (h, l);
     (h, node_ptr, was_adopted) \<leftarrow> free_left left node_ptr h;
     (h, l) \<leftarrow> free_right right node_ptr (h, l);
     (h, l) \<leftarrow> (if was_adopted then Some (h, l) else mll_append node_ptr (h, l));
     Some (size_freed, (h, l))
   }"
  by (simp add: fl_free_def free_left_def free_right_def cong: if_cong)

lemma free_left_ok:
  assumes "unlinked h p" and "L \<noteq> nullptr \<Longrightarrow> h L = Some m" and "L \<noteq> p"
  shows "\<exists>h'. free_left L p h = Some (h', merge_head L p, L \<noteq> nullptr) \<and> same_links h h'
    \<and> hsz h' = (hsz h)(merge_head L p := merge_size (hsz h) L p nullptr)"
proof (cases "L = nullptr")
  case True
  then show ?thesis by (simp add: free_left_def merge_head_def merge_size_def same_links_def)
next
  case False
  obtain n where n: "p \<noteq> nullptr" "h p = Some n" using assms(1) by (auto simp: unlinked_def)
  obtain h1 where h1: "adopt_right_node_size L p h = Some h1" "same_links h h1"
      "hsz h1 = (hsz h)(L := hsz h L + hsz h p)"
    using adopt_ok [of L h m p n] False assms(2) n by blast
  have "node_dtor p h1 = Some h1"
    using unlinked_same_links [OF h1(2) assms(1)] by (rule node_dtor_unlinked)
  with h1 False show ?thesis by (simp add: free_left_def merge_head_def merge_size_def)
qed

lemma free_right_ok:
  assumes rep: "list_rep h l xs" and R: "R \<noteq> nullptr \<Longrightarrow> R \<in> set xs" and c: "c \<noteq> nullptr" "h c = Some n"
  shows "\<exists>h' l'. free_right R c (h, l) = Some (h', l')
    \<and> list_rep h' l' (if R \<noteq> nullptr then remove1 R xs else xs)
    \<and> (\<forall>q. q \<notin> set xs \<longrightarrow> unlinked h q \<longrightarrow> unlinked h' q)
    \<and> hsz h' = (if R \<noteq> nullptr then (hsz h)(c := hsz h c + hsz h R) else hsz h)"
proof (cases "R = nullptr")
  case True
  then show ?thesis using rep by (simp add: free_right_def)
next
  case False
  then obtain us vs where xs: "xs = us @ R # vs" using R by (auto dest: split_list)
  obtain m where m: "h R = Some m" using list_rep_node [OF rep, of R] xs by auto
  obtain h1 where h1: "adopt_right_node_size c R h = Some h1" "same_links h h1"
      "hsz h1 = (hsz h)(c := hsz h c + hsz h R)"
    using adopt_ok [of c h n R m] False c m by blast
  obtain h2 l2 where h2: "mll_remove R (h1, l) = Some (h2, l2)" "list_rep h2 l2 (us @ vs)"
      "unlinked h2 R" "links_only (set xs) h1 h2"
    using remove_ok [of h1 l us R vs] list_rep_same_links [OF h1(2) rep] by (auto simp: xs)
  have "R \<notin> set us" using list_rep_distinct [OF rep] by (simp add: xs)
  then have rem: "remove1 R xs = us @ vs" by (simp add: xs remove1_append)
  have "unlinked h2 q" if "q \<notin> set xs" "unlinked h q" for q
    using unlinked_same_links [OF h1(2) that(2)] h2(4) that(1) by (simp add: links_only_def unlinked_def)
  moreover have "free_right R c (h, l) = Some (h2, l2)"
    using h1(1) h2(1) node_dtor_unlinked [OF h2(3)] False by (simp add: free_right_def)
  ultimately show ?thesis
    using h2(2) False rem hsz_links_only [OF h2(4)] h1(3) by auto
qed

text \<open>
  What \<open>free\<close> returns and leaves: the freed block is merged with its free neighbours, and a merge
  keeps the position of the left neighbour in the list.
\<close>

lemma fl_free_merges:
  assumes inv: "fl_inv (h, l) xs A" and p: "p \<in> A" and a: "al_ptr a = p + 16"
  defines "L \<equiv> found (left_of (hsz h) p) xs" and "R \<equiv> found (right_of (hsz h) p) xs"
  shows "\<exists>h' l'. fl_free a (h, l) = Some (hsz h p, (h', l'))
    \<and> fl_inv (h', l') ((if R \<noteq> nullptr then remove1 R xs else xs) @ (if L \<noteq> nullptr then [] else [p])) (A - {p})
    \<and> hsz h' = (hsz h)(merge_head L p := merge_size (hsz h) L p R)
    \<and> set ((if R \<noteq> nullptr then remove1 R xs else xs) @ (if L \<noteq> nullptr then [] else [p])) \<union> (A - {p})
        = insert (merge_head L p) (set xs \<union> A - merge_set L p R)"
proof -
  have rep: "list_rep h l xs" and up: "unlinked h p" and pxs: "p \<notin> set xs"
    and live: "\<forall>q\<in>A. unlinked h q" and AX: "A \<inter> set xs = {}" and ok: "blocks_ok (set xs \<union> A) (hsz h)"
    and fin: "finite A"
    using inv p by (auto simp: fl_inv_def)
  have pp: "p \<in> set xs \<union> A" using p by blast
  have L: "L \<in> set xs \<and> L + 16 + hsz h L = p" if "L \<noteq> nullptr"
    using foundD [of "left_of (hsz h) p" xs] that by (simp add: L_def left_of_def)
  have R: "R \<in> set xs \<and> p + 16 + hsz h p = R" if "R \<noteq> nullptr"
    using foundD [of "right_of (hsz h) p" xs] that by (simp add: R_def right_of_def)
  have fin': "finite (set xs \<union> A)" using fin by simp
  have L': "L \<in> set xs \<union> A \<and> L + 16 + hsz h L = p" if "L \<noteq> nullptr" using L [OF that] by simp
  have R': "R \<in> set xs \<union> A \<and> p + 16 + hsz h p = R" if "R \<noteq> nullptr" using R [OF that] by simp
  note m = merge_ok [OF ok pp fin' L' R', simplified]
  note bok = m(1) and ne = m(4-6)
  let ?c = "merge_head L p"
  let ?ys = "if R \<noteq> nullptr then remove1 R xs else xs"
  have ys: "set ?ys = set xs - {q. q = R \<and> R \<noteq> nullptr}"
    using list_rep_distinct [OF rep] by auto
  obtain mL where mL: "L \<noteq> nullptr \<Longrightarrow> h L = Some mL"
    using L list_rep_node [OF rep, of L] by (cases "L = nullptr") auto
  obtain h1 where h1: "free_left L p h = Some (h1, ?c, L \<noteq> nullptr)" "same_links h h1"
      "hsz h1 = (hsz h)(?c := merge_size (hsz h) L p nullptr)"
    using free_left_ok [OF up mL ne(1)] by blast
  have uc: "?c \<noteq> nullptr" "\<exists>n. h1 ?c = Some n"
    using up L list_rep_node [OF rep, of L] same_linksD [OF h1(2), of ?c]
    by (auto simp: merge_head_def unlinked_def)
  then obtain nc where nc: "h1 ?c = Some nc" by blast
  have rep1: "list_rep h1 l xs" by (rule list_rep_same_links [OF h1(2) rep])
  have Rin: "R \<noteq> nullptr \<Longrightarrow> R \<in> set xs" using R by blast
  obtain h2 l2 where h2: "free_right R ?c (h1, l) = Some (h2, l2)" "list_rep h2 l2 ?ys"
      "\<And>q. q \<notin> set xs \<Longrightarrow> unlinked h1 q \<Longrightarrow> unlinked h2 q"
      "hsz h2 = (if R \<noteq> nullptr then (hsz h1)(?c := hsz h1 ?c + hsz h1 R) else hsz h1)"
    using free_right_ok [OF rep1 Rin uc(1) nc] by auto
  have R1: "hsz h1 R = hsz h R" using h1(3) ne by (auto simp: merge_head_def)
  have sz: "hsz h2 = (hsz h)(?c := merge_size (hsz h) L p R)"
    using h2(4) R1 by (simp add: h1(3) merge_size_def)
  have live2: "unlinked h2 q" if "q \<in> A" for q
    using that live AX h2(3) unlinked_same_links [OF h1(2)] by blast
  have "\<exists>h3 l3. (if L \<noteq> nullptr then Some (h2, l2) else mll_append ?c (h2, l2)) = Some (h3, l3)
      \<and> list_rep h3 l3 (?ys @ (if L \<noteq> nullptr then [] else [p])) \<and> hsz h3 = hsz h2
      \<and> (\<forall>q\<in>A - {p}. unlinked h3 q)"
  proof (cases "L = nullptr")
    case True
    then have c: "?c = p" by (simp add: merge_head_def)
    have "p \<notin> set ?ys" using pxs ys by auto
    then obtain h3 l3 where h3: "mll_append p (h2, l2) = Some (h3, l3)" "list_rep h3 l3 (?ys @ [p])"
        "links_only (insert p (set ?ys)) h2 h3"
      using mll_append_refines [OF h2(2) live2 [OF p]] by blast
    have "unlinked h3 q" if "q \<in> A - {p}" for q
    proof -
      have "q \<notin> insert p (set ?ys)" using that AX ys by auto
      then show ?thesis using live2 [of q] that h3(3) by (simp add: links_only_def unlinked_def)
    qed
    then show ?thesis using h3 True c hsz_links_only [OF h3(3)] by auto
  qed (use h2(2) live2 in auto)
  then obtain h3 l3 where h3: "(if L \<noteq> nullptr then Some (h2, l2) else mll_append ?c (h2, l2)) = Some (h3, l3)"
      "list_rep h3 l3 (?ys @ (if L \<noteq> nullptr then [] else [p]))" "hsz h3 = hsz h2"
      "\<forall>q\<in>A - {p}. unlinked h3 q" by blast
  have node: "to_node_ptr (al_ptr a) = p" by (simp add: to_node_ptr_def header_node_size_def a)
  have size: "hdr_size_of h p = Some (hsz h p)" using fl_inv_size_of [OF inv, of p] p by blast
  have "fl_free a (h, l) = Some (hsz h p, (h3, l3))"
    using h1(1) h2(1) h3(1) size try_find_ok [OF inv p]
    by (simp add: fl_free_unfold node flip: L_def R_def)
  moreover have sets: "set (?ys @ (if L \<noteq> nullptr then [] else [p])) \<union> (A - {p})
      = insert ?c (set xs \<union> A - merge_set L p R)"
  proof -
    have "insert ?c (set xs \<union> A - merge_set L p R) = insert ?c (set xs - {q. q = R \<and> R \<noteq> nullptr}) \<union> (A - {p})"
    proof (rule set_eqI)
      fix q
      have "q = R \<and> R \<noteq> nullptr \<Longrightarrow> q \<in> set xs" "q \<in> A \<Longrightarrow> q \<notin> set xs" "L \<noteq> nullptr \<Longrightarrow> L \<in> set xs"
        using Rin L AX by blast+
      then show "q \<in> insert ?c (set xs \<union> A - merge_set L p R)
          \<longleftrightarrow> q \<in> insert ?c (set xs - {q. q = R \<and> R \<noteq> nullptr}) \<union> (A - {p})"
        using pxs p by (cases "L = nullptr") (simp_all add: merge_head_def merge_set_def, blast+)
    qed
    moreover have "insert ?c (set xs - {q. q = R \<and> R \<noteq> nullptr}) =
        (set xs - {q. q = R \<and> R \<noteq> nullptr}) \<union> (if L \<noteq> nullptr then {} else {p})"
      using L ne by (cases "L = nullptr") (simp_all add: merge_head_def insert_absorb)
    ultimately show ?thesis using ys by (simp add: Un_ac)
  qed
  moreover have "(A - {p}) \<inter> set (?ys @ (if L \<noteq> nullptr then [] else [p])) = {}"
    using ys AX by auto
  ultimately show ?thesis
    using h3(2,3,4) fin bok sz unfolding fl_inv_def sets by auto
qed

lemma fl_free_keeps:
  assumes "fl_inv (h, l) xs A" and "p \<in> A" and "al_ptr a = p + 16"
  shows "\<exists>h' l' xs'. fl_free a (h, l) = Some (hsz h p, (h', l')) \<and> fl_inv (h', l') xs' (A - {p})
    \<and> (\<forall>q\<in>A - {p}. hsz h' q = hsz h q)
    \<and> fl_bytes (h', l') xs' (A - {p}) \<subseteq> fl_bytes (h, l) xs A
    \<and> card (fl_bytes (h', l') xs' (A - {p}))
        + 16 * merges (found (left_of (hsz h) p) xs) (found (right_of (hsz h) p) xs)
      = card (fl_bytes (h, l) xs A)"
proof -
  let ?L = "found (left_of (hsz h) p) xs" and ?R = "found (right_of (hsz h) p) xs"
  let ?c = "merge_head ?L p" and ?f = "(hsz h)(merge_head ?L p := merge_size (hsz h) ?L p ?R)"
  obtain h' l' xs' where f: "fl_free a (h, l) = Some (hsz h p, (h', l'))" "fl_inv (h', l') xs' (A - {p})"
      "hsz h' = ?f" "set xs' \<union> (A - {p}) = insert ?c (set xs \<union> A - merge_set ?L p ?R)"
    using fl_free_merges [OF assms] by blast
  have ok: "blocks_ok (set xs \<union> A) (hsz h)" "finite (set xs \<union> A)" "p \<in> set xs \<union> A"
    and AX: "A \<inter> set xs = {}" using assms(1,2) by (auto simp: fl_inv_def)
  have L: "?L \<in> set xs \<union> A \<and> ?L + 16 + hsz h ?L = p" if "?L \<noteq> nullptr"
    using foundD [OF that] by (simp add: left_of_def)
  have R: "?R \<in> set xs \<union> A \<and> p + 16 + hsz h p = ?R" if "?R \<noteq> nullptr"
    using foundD [OF that] by (simp add: right_of_def)
  note m = merge_ok [OF ok(1,3,2) L R, simplified]
  have "?c \<notin> A - {p}" using foundD [of "left_of (hsz h) p" xs] AX by (auto simp: merge_head_def)
  then have "\<forall>q\<in>A - {p}. hsz h' q = hsz h q" unfolding f(3) by auto
  moreover have b: "fl_bytes (h', l') xs' (A - {p}) = cover (insert ?c (set xs \<union> A - merge_set ?L p ?R)) ?f"
    by (simp add: fl_bytes_def f(3,4))
  moreover have "fl_bytes (h', l') xs' (A - {p}) \<subseteq> fl_bytes (h, l) xs A"
    unfolding b using m(2) by (simp add: fl_bytes_def)
  moreover have "card (fl_bytes (h', l') xs' (A - {p})) + 16 * merges ?L ?R = card (fl_bytes (h, l) xs A)"
    unfolding b using m(3) by (simp add: fl_bytes_def)
  ultimately show ?thesis using f(1,2) by blast
qed

text \<open>
  C4. \<open>free\<close> always returns for a live allocation and hands its memory back: the well-formedness of
  the heap is kept, the other live allocations keep their sizes, and no new bytes are claimed. A
  merge with a neighbour loses the 16 bytes of one header each time, since
  \<open>adopt_right_node_size\<close> adds the sizes of the nodes but not the header of the right one.
\<close>

theorem fl_free_releases:
  assumes "fl_inv (h, l) xs A" and "p \<in> A" and "al_ptr a = p + 16"
  shows "\<exists>h' l' xs'. fl_free a (h, l) = Some (hsz h p, (h', l')) \<and> fl_inv (h', l') xs' (A - {p})
    \<and> (\<forall>q\<in>A - {p}. hsz h' q = hsz h q)
    \<and> fl_bytes (h', l') xs' (A - {p}) \<subseteq> fl_bytes (h, l) xs A
    \<and> card (fl_bytes (h', l') xs' (A - {p}))
        + 16 * merges (found (left_of (hsz h) p) xs) (found (right_of (hsz h) p) xs)
      = card (fl_bytes (h, l) xs A)"
  using assms by (rule fl_free_keeps)

section \<open>The allocator contract\<close>

definition fl_live :: "fl_state \<Rightarrow> allocation set \<Rightarrow> bool" where
  "fl_live s A \<longleftrightarrow> (\<exists>xs. fl_inv s xs ((\<lambda>a. al_ptr a - 16) ` A))
     \<and> (\<forall>a\<in>A. al_size a = hsz (fst s) (al_ptr a - 16))"

lemma fl_live_inj: "fl_live s A \<Longrightarrow> inj_on (\<lambda>a. al_ptr a - 16) A"
  by (rule inj_onI) (auto simp: fl_live_def)

text \<open>The bytes of all blocks, free and live; the order of the free list is determined by the state.\<close>

definition fl_managed :: "fl_state \<Rightarrow> allocation set \<Rightarrow> nat set" where
  "fl_managed s A = (\<Union>xs\<in>{xs. fl_inv s xs ((\<lambda>a. al_ptr a - 16) ` A)}.
     fl_bytes s xs ((\<lambda>a. al_ptr a - 16) ` A))"

definition fl_region_ok :: "allocation \<Rightarrow> bool" where
  "fl_region_ok b \<longleftrightarrow> 16 \<le> al_size b \<and> block_ok (al_ptr b) (al_size b - 16)"

lemma fl_inv_unique: "fl_inv s xs A \<Longrightarrow> fl_inv s ys B \<Longrightarrow> xs = ys"
  using list_rep_unique by (auto simp: fl_inv_def)

lemma fl_managed_eq:
  assumes "fl_inv s xs ((\<lambda>a. al_ptr a - 16) ` A)"
  shows "fl_managed s A = fl_bytes s xs ((\<lambda>a. al_ptr a - 16) ` A)"
proof -
  have "{xs. fl_inv s xs ((\<lambda>a. al_ptr a - 16) ` A)} = {xs}" using assms fl_inv_unique by blast
  then show ?thesis by (simp add: fl_managed_def)
qed

lemma fl_liveE:
  assumes "fl_live s A"
  obtains h l xs where "s = (h, l)" "fl_inv (h, l) xs ((\<lambda>a. al_ptr a - 16) ` A)"
    "\<And>a. a \<in> A \<Longrightarrow> al_size a = hsz h (al_ptr a - 16)"
    "fl_managed s A = fl_bytes (h, l) xs ((\<lambda>a. al_ptr a - 16) ` A)"
  using assms fl_managed_eq unfolding fl_live_def by (metis prod.collapse)

text \<open>The three operations in terms of the live allocations.\<close>

lemma fl_live_allocate:
  assumes live: "fl_live s A"
  shows "fl_allocate n s = Some (no_allocation, s) \<or>
      (\<exists>a s'. fl_allocate n s = Some (a, s') \<and> al_ptr a \<noteq> nullptr \<and> n \<le> al_size a
         \<and> a \<notin> A \<and> fl_live s' (insert a A) \<and> fl_managed s' (insert a A) = fl_managed s A)"
proof -
  let ?A = "(\<lambda>a. al_ptr a - 16) ` A"
  obtain h l xs where s: "s = (h, l)" and inv: "fl_inv (h, l) xs ?A"
      and szs: "\<And>a. a \<in> A \<Longrightarrow> al_size a = hsz h (al_ptr a - 16)"
      and man: "fl_managed s A = fl_bytes (h, l) xs ?A"
    using fl_liveE [OF live] by metis
  show ?thesis
  proof (cases "find (\<lambda>p. n \<le> hsz h p) xs")
    case None
    then show ?thesis using fl_allocate_none [OF inv] s by simp
  next
    case (Some p)
    obtain h' l' xs' k where r: "fl_allocate n (h, l) = Some (\<lparr>al_ptr = p + 16, al_size = k\<rparr>, (h', l'))"
        "n \<le> k" "k = hsz h' p" "fl_inv (h', l') xs' (insert p ?A)" "\<forall>q\<in>?A. hsz h' q = hsz h q" "p \<notin> ?A"
        "fl_bytes (h', l') xs' (insert p ?A) = fl_bytes (h, l) xs ?A"
      using fl_allocate_some [OF inv Some] by (elim exE conjE) (rule that)
    let ?a = "\<lparr>al_ptr = p + 16, al_size = k\<rparr>"
    have "unat (p + 16) = unat p + 16"
      using fl_inv_block [OF r(4), of p] by (intro block_ok_end(1)) simp
    then have "p + 16 \<noteq> nullptr" by (metis add_is_0 unat_0 zero_neq_numeral)
    moreover have "?a \<notin> A" using r(6) by force
    moreover have im: "(\<lambda>a. al_ptr a - 16) ` insert ?a A = insert p ?A" by simp
    have inv': "fl_inv (h', l') xs' ((\<lambda>a. al_ptr a - 16) ` insert ?a A)" unfolding im by (rule r(4))
    then have "fl_live (h', l') (insert ?a A)"
      using r(3,5) szs by (auto simp: fl_live_def)
    moreover have "fl_managed (h', l') (insert ?a A) = fl_managed s A"
      unfolding fl_managed_eq [OF inv'] im man by (rule r(7))
    ultimately show ?thesis using r(1,2) s by auto
  qed
qed

lemma fl_live_free:
  assumes live: "fl_live s A" and a: "a \<in> A"
  shows "\<exists>k s'. fl_free a s = Some (k, s') \<and> fl_live s' (A - {a}) \<and> fl_managed s' (A - {a}) \<subseteq> fl_managed s A"
proof -
  let ?h = "\<lambda>a. al_ptr a - 16"
  obtain h l xs where s: "s = (h, l)" and inv: "fl_inv (h, l) xs (?h ` A)"
      and szs: "\<And>a. a \<in> A \<Longrightarrow> al_size a = hsz h (al_ptr a - 16)"
      and man: "fl_managed s A = fl_bytes (h, l) xs (?h ` A)"
    using fl_liveE [OF live] by metis
  have "?h a \<in> ?h ` A" "al_ptr a = ?h a + 16" using a by simp_all
  from fl_free_keeps [OF inv this] obtain h' l' xs' where
      f: "fl_free a (h, l) = Some (hsz h (?h a), (h', l'))"
      "fl_inv (h', l') xs' (?h ` A - {?h a})" "\<forall>q\<in>?h ` A - {?h a}. hsz h' q = hsz h q"
      "fl_bytes (h', l') xs' (?h ` A - {?h a}) \<subseteq> fl_bytes (h, l) xs (?h ` A)"
    by (elim exE conjE) (rule that)
  have im: "?h ` A - {?h a} = ?h ` (A - {a})"
    using inj_on_image_set_diff [OF fl_live_inj [OF live], of A "{a}"] a by simp
  have inv': "fl_inv (h', l') xs' (?h ` (A - {a}))" using f(2) unfolding im .
  have "\<forall>q\<in>?h ` (A - {a}). hsz h' q = hsz h q" using f(3) unfolding im .
  then have "fl_live (h', l') (A - {a})" using inv' szs by (auto simp: fl_live_def)
  moreover have "fl_managed (h', l') (A - {a}) \<subseteq> fl_managed s A"
    unfolding fl_managed_eq [OF inv'] man using f(4) unfolding im .
  ultimately show ?thesis using f(1) s by blast
qed

lemma fl_live_add:
  assumes live: "fl_live s A" and b: "fl_region_ok b" "memory_of b \<inter> fl_managed s A = {}"
  shows "\<exists>s'. fl_add (al_ptr b) (al_size b) s = Some s' \<and> fl_live s' A
    \<and> fl_managed s' A = fl_managed s A \<union> memory_of b"
proof -
  let ?A = "(\<lambda>a. al_ptr a - 16) ` A"
  obtain h l xs where s: "s = (h, l)" and inv: "fl_inv (h, l) xs ?A"
      and szs: "\<And>a. a \<in> A \<Longrightarrow> al_size a = hsz h (al_ptr a - 16)"
      and man: "fl_managed s A = fl_bytes (h, l) xs ?A"
    using fl_liveE [OF live] by metis
  have ok: "block_ok (al_ptr b) (al_size b - 16)" "16 \<le> al_size b" using b(1) by (simp_all add: fl_region_ok_def)
  have fresh: "{unat (al_ptr b)..<unat (al_ptr b) + unat (al_size b)} \<inter> fl_bytes (h, l) xs ?A = {}"
    using b(2) man by (simp add: memory_of_def)
  obtain h' l' where f: "fl_add (al_ptr b) (al_size b) (h, l) = Some (h', l')"
      "fl_inv (h', l') (xs @ [al_ptr b]) ?A" "hsz h' = (hsz h)(al_ptr b := al_size b - 16)"
      "fl_bytes (h', l') (xs @ [al_ptr b]) ?A = fl_bytes (h, l) xs ?A \<union> memory_of b"
    using fl_add_appends [OF inv ok fresh] by (auto simp: memory_of_def)
  have "al_ptr b \<notin> ?A" using f(2) by (auto simp: fl_inv_def)
  then have "\<forall>q\<in>?A. q \<noteq> al_ptr b" by blast
  then have "\<forall>q\<in>?A. hsz h' q = hsz h q" unfolding f(3) by simp
  moreover have "\<exists>xs. fl_inv (h', l') xs ?A" using f(2) by blast
  ultimately have "fl_live (h', l') A" using szs by (simp add: fl_live_def)
  moreover have "fl_managed (h', l') A = fl_managed s A \<union> memory_of b"
    unfolding fl_managed_eq [OF f(2)] man by (rule f(4))
  ultimately show ?thesis using f(1) s by blast
qed

lemma fl_live_memory:
  assumes live: "fl_live s A" and c: "c \<in> A"
  shows "memory_of c \<subseteq> span (al_ptr c - 16) (hsz (fst s) (al_ptr c - 16))"
proof -
  obtain xs where inv: "fl_inv s xs ((\<lambda>a. al_ptr a - 16) ` A)" using live by (auto simp: fl_live_def)
  have "block_ok (al_ptr c - 16) (hsz (fst s) (al_ptr c - 16))" using fl_inv_block [OF inv] c by blast
  then have "unat (al_ptr c - 16 + 16) = unat (al_ptr c - 16) + 16" by (rule block_ok_end(1))
  then have "unat (al_ptr c) = unat (al_ptr c - 16) + 16" by simp
  moreover have "al_size c = hsz (fst s) (al_ptr c - 16)" using live c by (simp add: fl_live_def)
  ultimately show ?thesis by (auto simp: memory_of_def span_def)
qed

interpretation fl: growing_allocator fl_allocate fl_free fl_live "\<lambda>_. True" fl_add fl_managed fl_region_ok
proof
  fix s A n assume live: "fl_live s A"
  then show "(\<exists>s'. fl_allocate n s = Some (no_allocation, s') \<and> fl_live s' A) \<or>
      (\<exists>a s'. fl_allocate n s = Some (a, s') \<and> al_ptr a \<noteq> nullptr \<and> n \<le> al_size a
         \<and> a \<notin> A \<and> fl_live s' (insert a A))"
    using fl_live_allocate [OF live] by blast
next
  fix s A a assume "fl_live s A" "a \<in> A"
  then show "\<exists>k s'. fl_free a s = Some (k, s') \<and> fl_live s' (A - {a})" using fl_live_free by blast
next
  fix s A a b assume live: "fl_live s A" and ab: "a \<in> A" "b \<in> A" "a \<noteq> b"
  obtain xs where inv: "fl_inv s xs ((\<lambda>a. al_ptr a - 16) ` A)" using live by (auto simp: fl_live_def)
  have ne: "al_ptr a - 16 \<noteq> al_ptr b - 16" using fl_live_inj [OF live] ab by (meson inj_onD)
  have "span (al_ptr a - 16) (hsz (fst s) (al_ptr a - 16)) \<inter> span (al_ptr b - 16) (hsz (fst s) (al_ptr b - 16)) = {}"
    using inv ne ab by (auto simp: fl_inv_def blocks_ok_def)
  then show "memory_of a \<inter> memory_of b = {}"
    using fl_live_memory [OF live ab(1)] fl_live_memory [OF live ab(2)] by blast
next
  fix s and a b :: allocation assume "al_ptr a = al_ptr b"
  then show "fl_free a s = fl_free b s" by (simp add: fl_free_def)
next
  fix s A b assume "fl_live s A" "fl_region_ok b" "memory_of b \<inter> fl_managed s A = {}"
  then show "\<exists>s'. fl_add (al_ptr b) (al_size b) s = Some s' \<and> fl_live s' A
      \<and> fl_managed s' A \<subseteq> fl_managed s A \<union> memory_of b"
    using fl_live_add by blast
next
  fix s A n a s' assume live: "fl_live s A" and r: "fl_allocate n s = Some (a, s')"
  from fl_live_allocate [OF live, of n]
  show "fl_managed s' (if al_ptr a = nullptr then A else insert a A) \<subseteq> fl_managed s A"
  proof (elim disjE exE conjE)
    assume "fl_allocate n s = Some (no_allocation, s)"
    then show ?thesis using r by (simp add: no_allocation_def)
  next
    fix a' s'' assume "fl_allocate n s = Some (a', s'')" "al_ptr a' \<noteq> nullptr"
      "fl_managed s'' (insert a' A) = fl_managed s A"
    then show ?thesis using r by simp
  qed
next
  fix s A a k s' assume "fl_live s A" "a \<in> A" "fl_free a s = Some (k, s')"
  then show "fl_managed s' (A - {a}) \<subseteq> fl_managed s A" using fl_live_free [of s A a] by auto
next
  fix s A a assume live: "fl_live s A" and a: "a \<in> A"
  obtain xs where "fl_managed s A = fl_bytes s xs ((\<lambda>a. al_ptr a - 16) ` A)"
    using fl_liveE [OF live] by metis
  then have "span (al_ptr a - 16) (hsz (fst s) (al_ptr a - 16)) \<subseteq> fl_managed s A"
    using a by (auto simp: fl_bytes_def cover_def)
  then show "memory_of a \<subseteq> fl_managed s A" using fl_live_memory [OF live a] by blast
qed

section \<open>Concrete heaps\<close>

text \<open>A live allocation of 104 bytes at 4096 and a free block of 200 bytes to its right.\<close>

definition example_heap :: "header heap" where
  "example_heap = Map.empty(
     4096 \<mapsto> \<lparr>nd_next = nullptr, nd_prev = nullptr, nd_content = \<lparr>hdr_size = 104, hdr_padding = 0\<rparr>\<rparr>,
     4216 \<mapsto> \<lparr>nd_next = nullptr, nd_prev = nullptr, nd_content = \<lparr>hdr_size = 200, hdr_padding = 0\<rparr>\<rparr>)"

definition example_list :: mll where
  "example_list = \<lparr>m_head = 4216, m_tail = 4216, m_length = 1\<rparr>"

lemma example_hsz [simp]: "hsz example_heap 4096 = 104" "hsz example_heap 4216 = 200"
  by (simp_all add: hsz_def example_heap_def)

lemma example_inv: "fl_inv (example_heap, example_list) [4216] {4096}"
  by (auto simp: fl_inv_def list_rep_def example_list_def unlinked_def blocks_ok_def block_ok_def span_def)
     (simp_all add: example_heap_def)

theorem fl_allocate_first_fit_witness:
  "\<exists>h' l' xs' s. fl_allocate 100 (example_heap, example_list) =
      Some (\<lparr>al_ptr = 4232, al_size = s\<rparr>, (h', l')) \<and> fl_inv (h', l') xs' {4096, 4216} \<and> unat s < 132"
  using fl_allocate_first_fit [OF example_inv, of 100] by (auto simp: insert_commute)

theorem fl_free_releases_witness:
  "\<exists>h' l' xs'. fl_free \<lparr>al_ptr = 4112, al_size = 104\<rparr> (example_heap, example_list) = Some (104, (h', l'))
    \<and> fl_inv (h', l') xs' {}
    \<and> card (fl_bytes (h', l') xs' {}) + 16 = card (fl_bytes (example_heap, example_list) [4216] {4096})"
  using fl_free_releases [OF example_inv, of 4096 "\<lparr>al_ptr = 4112, al_size = 104\<rparr>"]
  by (auto simp: left_of_def right_of_def merges_def)

end
