(* ===== verification/Slab.thy ===== *)
theory Slab
  imports Free_List
begin

text \<open>
  \<open>Array\<close> and \<open>BitMap\<close> of pine/array.hpp and \<open>SlabAllocator\<close> of pine/malloc.hpp: an allocator of
  equally sized slots (the nodes of the page allocator), whose bitmaps and page descriptors are
  nodes of linked lists in memory taken from a private free list.

  The nodes of the bitmaps, of the slab pages and of the free list live in heaps of their own type.
  A shift by 32 or more is undefined in the code and is \<open>None\<close> here.
\<close>

section \<open>Array (array.hpp)\<close>

definition arr_at :: "'a list \<Rightarrow> nat \<Rightarrow> 'a option" where
  "arr_at xs index = (if index < length xs then Some (xs ! index) else None)"

definition arr_insert :: "'a list \<Rightarrow> nat \<Rightarrow> 'a \<Rightarrow> 'a list option" where
  "arr_insert xs index v = (if index < length xs then Some (xs[index := v]) else None)"

section \<open>BitMap (array.hpp)\<close>

type_synonym bitmap = "size_t list"

definition bitmap_new :: "size_t \<Rightarrow> bitmap" where
  "bitmap_new num_bits = replicate (unat (divide_up num_bits 32)) 0"

definition bm_word :: "size_t \<Rightarrow> bitmap \<Rightarrow> size_t \<Rightarrow> size_t option" where
  "bm_word num_bits bm index = arr_at bm (unat (index div num_bits))"

definition bm_set_word :: "size_t \<Rightarrow> bitmap \<Rightarrow> size_t \<Rightarrow> size_t \<Rightarrow> bitmap option" where
  "bm_set_word num_bits bm index w = arr_insert bm (unat (index div num_bits)) w"

definition shl :: "size_t \<Rightarrow> size_t \<Rightarrow> size_t option" where
  "shl v n = (if 32 \<le> n then None else Some (push_bit (unat n) v))"

definition bm_bit :: "size_t \<Rightarrow> bitmap \<Rightarrow> size_t \<Rightarrow> bool option" where
  "bm_bit num_bits bm index = do {
     w \<leftarrow> bm_word num_bits bm index;
     b \<leftarrow> shl 1 index;
     Some (w AND b \<noteq> 0)
   }"

definition bm_mark_bit :: "size_t \<Rightarrow> bitmap \<Rightarrow> size_t \<Rightarrow> bool \<Rightarrow> bitmap option" where
  "bm_mark_bit num_bits bm index v = do {
     w \<leftarrow> bm_word num_bits bm index;
     b \<leftarrow> shl (if v then 1 else 0) index;
     bm_set_word num_bits bm index ((w AND NOT b) OR b)
   }"

definition bm_set_bit :: "size_t \<Rightarrow> bitmap \<Rightarrow> size_t \<Rightarrow> bitmap option" where
  "bm_set_bit num_bits bm index = do {
     w \<leftarrow> bm_word num_bits bm index;
     b \<leftarrow> shl 1 index;
     bm_set_word num_bits bm index (w XOR b)
   }"

definition bm_clear_bit :: "size_t \<Rightarrow> bitmap \<Rightarrow> size_t \<Rightarrow> bitmap option" where
  "bm_clear_bit num_bits bm index = do {
     w \<leftarrow> bm_word num_bits bm index;
     b \<leftarrow> shl 1 index;
     bm_set_word num_bits bm index (w AND NOT b)
   }"

section \<open>SlabAllocator (malloc.hpp)\<close>

text \<open>
  \<open>vsize\<close> is \<open>sizeof(Value)\<close>, the size of a slot. The kernel has two instances: the page allocator's
  nodes (two pointers and a region, 16 bytes) and the second-level tables of the MMU (256 entries, 1024
  bytes). A bitmap node is two pointers and the words of the bitmap, a slab node two pointers and an
  address.
\<close>

definition c_bits_per_bitmap :: "size_t \<Rightarrow> size_t" where
  "c_bits_per_bitmap vsize = PageSize * 8 - PageSize mod vsize"

definition c_slabs_per_page :: "size_t \<Rightarrow> size_t" where "c_slabs_per_page vsize = PageSize div vsize"

definition bitmap_node_size :: "size_t \<Rightarrow> size_t" where "bitmap_node_size vsize = 8 + 4 * divide_up (c_bits_per_bitmap vsize) 32"

definition slab_node_size :: size_t where "slab_node_size = 12"

definition c_chunk_size :: "size_t \<Rightarrow> size_t" where
  "c_chunk_size vsize = max2 (align_up_two (bitmap_node_size vsize) PageSize) (align_up_two slab_node_size PageSize)"

definition slab_preferred_size :: "size_t \<Rightarrow> size_t" where
  "slab_preferred_size requested_size = align_up_two requested_size PageSize + PageSize"

record slab =
  sl_bitmap_heap :: "bitmap heap"
  sl_bitmaps :: mll
  sl_page_heap :: "ptr heap"
  sl_pages :: mll
  sl_free_pages :: fl_state

definition slab_empty :: slab where
  "slab_empty = \<lparr>sl_bitmap_heap = Map.empty, sl_bitmaps = empty_mll, sl_page_heap = Map.empty,
     sl_pages = empty_mll, sl_free_pages = (Map.empty, empty_mll)\<rparr>"

definition num_slabs :: "size_t \<Rightarrow> slab \<Rightarrow> size_t" where
  "num_slabs vsize s = m_length (sl_pages s) * c_slabs_per_page vsize"

definition index_from_bitmap_indexes :: "size_t \<Rightarrow> size_t \<Rightarrow> size_t \<Rightarrow> size_t" where
  "index_from_bitmap_indexes vsize bitmap_page_index index_in_bitmap_page =
     bitmap_page_index * c_bits_per_bitmap vsize + index_in_bitmap_page"

definition index_from_slab_indexes :: "size_t \<Rightarrow> size_t \<Rightarrow> size_t \<Rightarrow> size_t" where
  "index_from_slab_indexes vsize slab_page_index index_in_slab_page =
     slab_page_index * c_slabs_per_page vsize + index_in_slab_page"

definition slab_indexes :: "size_t \<Rightarrow> size_t \<Rightarrow> size_t \<Rightarrow> size_t \<times> size_t" where
  "slab_indexes vsize bitmap_page_index index_in_bitmap_page =
     (let index = index_from_bitmap_indexes vsize bitmap_page_index index_in_bitmap_page
      in (index div c_slabs_per_page vsize, index mod c_slabs_per_page vsize))"

definition bitmap_indexes :: "size_t \<Rightarrow> size_t \<Rightarrow> size_t \<Rightarrow> size_t \<times> size_t" where
  "bitmap_indexes vsize slab_page_index index_in_slab_page =
     (let index = index_from_slab_indexes vsize slab_page_index index_in_slab_page
      in (index div c_bits_per_bitmap vsize, index mod c_bits_per_bitmap vsize))"

text \<open>The search of one bitmap: \<open>None\<close> is undefined behaviour, \<open>Some None\<close> is not found.\<close>

function free_bit_loop :: "size_t \<Rightarrow> slab \<Rightarrow> bitmap \<Rightarrow> size_t \<Rightarrow> size_t \<Rightarrow> size_t option option" where
  "free_bit_loop vsize s bm page_index i =
     (if i < c_bits_per_bitmap vsize \<and> index_from_bitmap_indexes vsize page_index i < num_slabs vsize s then
        (case bm_bit (c_bits_per_bitmap vsize) bm i of
           None \<Rightarrow> None
         | Some b \<Rightarrow> if \<not> b then Some (Some i) else free_bit_loop vsize s bm page_index (i + 1))
      else Some None)"
  by pat_completeness auto
termination
proof (relation "measure (\<lambda>(vsize, s, bm, page_index, i). unat (c_bits_per_bitmap vsize - i))")
  fix vsize s bm page_index i b
  assume "i < c_bits_per_bitmap vsize \<and> index_from_bitmap_indexes vsize page_index i < num_slabs vsize s"
  then have lt: "i < c_bits_per_bitmap vsize" ..
  then have "i + 1 \<le> c_bits_per_bitmap vsize" by (rule inc_le)
  then have "unat (c_bits_per_bitmap vsize - (i + 1)) = unat (c_bits_per_bitmap vsize) - unat (i + 1)" by (rule unat_sub_le)
  moreover have "unat (c_bits_per_bitmap vsize - i) = unat (c_bits_per_bitmap vsize) - unat i"
    using lt by (intro unat_sub_le) simp
  moreover have "unat (i + 1) = unat i + 1" using lt by (rule unat_inc)
  moreover have "unat i < unat (c_bits_per_bitmap vsize)" using lt by (simp add: unat_word_lt)
  ultimately show "((vsize, s, bm, page_index, i + 1), (vsize, s, bm, page_index, i))
      \<in> measure (\<lambda>(vsize, s, bm, page_index, i). unat (c_bits_per_bitmap vsize - i))"
    by simp
qed simp

declare free_bit_loop.simps [simp del]

definition free_bit_step ::
    "size_t \<Rightarrow> slab \<Rightarrow> ptr \<Rightarrow> (bool \<times> size_t \<times> size_t) \<times> size_t \<Rightarrow> (((bool \<times> size_t \<times> size_t) \<times> size_t) \<times> bool) option" where
  "free_bit_step vsize s bitmap_node = (\<lambda>(result, page_index). do {
     n \<leftarrow> get_node (sl_bitmap_heap s) bitmap_node;
     r \<leftarrow> free_bit_loop vsize s (nd_content n) page_index 0;
     Some (case r of
         Some i \<Rightarrow> (((True, page_index, i), page_index), True)
       | None \<Rightarrow> ((result, page_index + 1), False))
   })"

definition try_find_free_bit :: "size_t \<Rightarrow> slab \<Rightarrow> (bool \<times> size_t \<times> size_t) option" where
  "try_find_free_bit vsize s = do {
     (result, page_index) \<leftarrow> range_for (pi_incr (sl_bitmap_heap s)) pi_deref (free_bit_step vsize s)
       (mll_begin (sl_bitmaps s)) (mll_end (sl_bitmaps s)) ((False, 0, 0), 0);
     Some result
   }"

definition slab_page_step ::
    "slab \<Rightarrow> ptr \<Rightarrow> ptr \<Rightarrow> size_t \<Rightarrow> (size_t \<times> bool) option" where
  "slab_page_step s slab_page slab_page_node slab_page_index = do {
     n \<leftarrow> get_node (sl_page_heap s) slab_page_node;
     Some (if nd_content n = slab_page then (slab_page_index, True) else (slab_page_index + 1, False))
   }"

definition find_associated_slab_page :: "size_t \<Rightarrow> slab \<Rightarrow> ptr \<Rightarrow> (size_t \<times> size_t) option" where
  "find_associated_slab_page vsize s slot = do {
     let slab_page = align_down_two slot PageSize;
     slab_page_index \<leftarrow> range_for (pi_incr (sl_page_heap s)) pi_deref (slab_page_step s slab_page)
       (mll_begin (sl_pages s)) (mll_end (sl_pages s)) 0;
     Some (slab_page_index, (slot - slab_page) div vsize)
   }"

text \<open>\<open>*next(list.begin(), n)\<close>: the iterator stays on the last node past the end.\<close>

definition nth_node :: "'c heap \<Rightarrow> mll \<Rightarrow> size_t \<Rightarrow> ptr option" where
  "nth_node h l n = do { it \<leftarrow> next_iter (pi_incr h) (mll_begin l) (unat n); pi_deref it }"

definition slab_allocate :: "size_t \<Rightarrow> slab \<Rightarrow> (allocation \<times> slab) option" where
  "slab_allocate vsize s = do {
     (found_bit, bitmap_page_index, index_in_bitmap_page) \<leftarrow> try_find_free_bit vsize s;
     (if \<not> found_bit then Some (no_allocation, s)
      else do {
        bitmap_node \<leftarrow> nth_node (sl_bitmap_heap s) (sl_bitmaps s) bitmap_page_index;
        n \<leftarrow> get_node (sl_bitmap_heap s) bitmap_node;
        bm \<leftarrow> bm_set_bit (c_bits_per_bitmap vsize) (nd_content n) index_in_bitmap_page;
        h \<leftarrow> set_content bitmap_node bm (sl_bitmap_heap s);
        let (slab_page_index, index_in_slab_page) = slab_indexes vsize bitmap_page_index index_in_bitmap_page;
        slab_node \<leftarrow> nth_node (sl_page_heap s) (sl_pages s) slab_page_index;
        m \<leftarrow> get_node (sl_page_heap s) slab_node;
        Some (\<lparr>al_ptr = nd_content m + index_in_slab_page * vsize, al_size = vsize\<rparr>,
              s\<lparr>sl_bitmap_heap := h\<rparr>)
      })
   }"

definition slab_free :: "size_t \<Rightarrow> allocation \<Rightarrow> slab \<Rightarrow> (size_t \<times> slab) option" where
  "slab_free vsize alloc s = do {
     (slab_page_index, index_in_slab_page) \<leftarrow> find_associated_slab_page vsize s (al_ptr alloc);
     let (bitmap_page_index, index_in_bitmap_page) = bitmap_indexes vsize slab_page_index index_in_slab_page;
     bitmap_node \<leftarrow> nth_node (sl_bitmap_heap s) (sl_bitmaps s) bitmap_page_index;
     n \<leftarrow> get_node (sl_bitmap_heap s) bitmap_node;
     bm \<leftarrow> bm_clear_bit (c_bits_per_bitmap vsize) (nd_content n) index_in_bitmap_page;
     h \<leftarrow> set_content bitmap_node bm (sl_bitmap_heap s);
     Some (vsize, s\<lparr>sl_bitmap_heap := h\<rparr>)
   }"

text \<open>
  One round of \<open>add\<close>: take memory for a new bitmap when the bitmaps are nearly used up, then for a
  slab node, and hand the page at \<open>ptr\<close> to the slots. Either step may first give the chunk at
  \<open>ptr\<close> to the free list; the flag is the \<open>break\<close>.
\<close>

definition allocate_or_feed ::
    "size_t \<Rightarrow> size_t \<Rightarrow> ptr \<Rightarrow> size_t \<Rightarrow> fl_state \<Rightarrow> (allocation \<times> ptr \<times> size_t \<times> fl_state) option" where
  "allocate_or_feed vsize n p sz fp = do {
     (a, fp) \<leftarrow> fl_allocate n fp;
     (if \<not> allocation_bool a then do {
        fp \<leftarrow> fl_add p (c_chunk_size vsize) fp;
        (a, fp) \<leftarrow> fl_allocate n fp;
        Some (a, p + c_chunk_size vsize, sz - c_chunk_size vsize, fp)
      }
      else Some (a, p, sz, fp))
   }"

definition slab_grow_bitmaps :: "size_t \<Rightarrow> ptr \<Rightarrow> size_t \<Rightarrow> slab \<Rightarrow> (bool \<times> ptr \<times> size_t \<times> slab) option" where
  "slab_grow_bitmaps vsize p sz s =
     (if m_length (sl_bitmaps s) * c_bits_per_bitmap vsize - num_slabs vsize s < c_slabs_per_page vsize then do {
        (a, p, sz, fp) \<leftarrow> allocate_or_feed vsize (bitmap_node_size vsize) p sz (sl_free_pages s);
        let s = s\<lparr>sl_free_pages := fp\<rparr>;
        (if \<not> allocation_bool a then Some (True, p, sz, s)
         else do {
           h \<leftarrow> construct_at (al_ptr a) (bitmap_new (c_bits_per_bitmap vsize)) (sl_bitmap_heap s);
           (h, l) \<leftarrow> mll_append (al_ptr a) (h, sl_bitmaps s);
           Some (False, p, sz, s\<lparr>sl_bitmap_heap := h, sl_bitmaps := l\<rparr>)
         })
      }
      else Some (False, p, sz, s))"

definition slab_grow_pages :: "size_t \<Rightarrow> ptr \<Rightarrow> size_t \<Rightarrow> slab \<Rightarrow> (bool \<times> ptr \<times> size_t \<times> slab) option" where
  "slab_grow_pages vsize p sz s = do {
     (a, p, sz, fp) \<leftarrow> allocate_or_feed vsize slab_node_size p sz (sl_free_pages s);
     let s = s\<lparr>sl_free_pages := fp\<rparr>;
     (if \<not> allocation_bool a then Some (True, p, sz, s)
      else do {
        h \<leftarrow> construct_at (al_ptr a) p (sl_page_heap s);
        (h, l) \<leftarrow> mll_append (al_ptr a) (h, sl_pages s);
        Some (False, p + c_chunk_size vsize, sz - c_chunk_size vsize, s\<lparr>sl_page_heap := h, sl_pages := l\<rparr>)
      })
   }"

partial_function (option) slab_add :: "size_t \<Rightarrow> ptr \<Rightarrow> size_t \<Rightarrow> slab \<Rightarrow> slab option" where
  "slab_add vsize p sz s =
     (if c_chunk_size vsize \<le> sz then
        Option.bind (slab_grow_bitmaps vsize p sz s) (\<lambda>(broke, p, sz, s).
          if broke \<or> sz < c_chunk_size vsize then Some s
          else Option.bind (slab_grow_pages vsize p sz s) (\<lambda>(broke, p, sz, s).
            if broke then Some s else slab_add vsize p sz s))
      else Some s)"

declare slab_add.simps [code]

section \<open>Index arithmetic\<close>

text \<open>Slots whose size divides a page; \<open>per_page\<close> of them are in a page.\<close>

definition slot_ok :: "size_t \<Rightarrow> bool" where
  "slot_ok vsize \<longleftrightarrow> 16 \<le> unat vsize \<and> 4096 mod unat vsize = 0"

definition per_page :: "size_t \<Rightarrow> nat" where "per_page vsize = 4096 div unat vsize"

lemma slot_ok_sizes [simp]: "slot_ok 16" "slot_ok 1024" "per_page 16 = 256" "per_page 1024 = 4"
  by (simp_all add: slot_ok_def per_page_def)

lemma per_page_bounds:
  assumes "slot_ok v"
  shows "per_page v * unat v = 4096" "0 < per_page v" "per_page v \<le> 256"
proof -
  show e: "per_page v * unat v = 4096"
    unfolding per_page_def using assms by (metis add.right_neutral div_mult_mod_eq slot_ok_def)
  then show "0 < per_page v" by (cases "per_page v") simp_all
  have "per_page v * 16 \<le> per_page v * unat v" using assms by (simp add: slot_ok_def)
  then show "per_page v \<le> 256" unfolding e by simp
qed

lemma slab_constants:
  assumes "slot_ok v"
  shows "c_bits_per_bitmap v = 32768" "unat (c_slabs_per_page v) = per_page v"
    "bitmap_node_size v = 4104" "c_chunk_size v = 8192"
proof -
  have "unat (PageSize mod v) = 0" using assms by (simp add: slot_ok_def unat_mod PageSize_def)
  then have "PageSize mod v = 0" by (simp only: unat_eq_0)
  then show "c_bits_per_bitmap v = 32768" by (simp add: c_bits_per_bitmap_def PageSize_def)
  then show "bitmap_node_size v = 4104" by (simp add: bitmap_node_size_def divide_up_def)
  then show "c_chunk_size v = 8192"
    by (simp add: c_chunk_size_def PageSize_def slab_node_size_def align_up_two_def)
  show "unat (c_slabs_per_page v) = per_page v"
    by (simp add: c_slabs_per_page_def per_page_def unat_div PageSize_def)
qed

text \<open>Memory of less than a chunk, which is two pages, is not added.\<close>

lemma slab_add_less_than_chunk:
  assumes "slot_ok v" and "unat sz < 8192"
  shows "slab_add v p sz s = Some s"
  using assms by (subst slab_add.simps) (simp add: slab_constants unat_word_le)

text \<open>
  The two views of a slot number agree: the bitmap position computed for the page position of a
  slot is the position that \<open>allocate\<close> started from, so \<open>free\<close> clears the bit \<open>allocate\<close> set.
\<close>

lemma slab_indexes_roundtrip:
  assumes "slot_ok v" and "unat b * 32768 + unat i < 2 ^ 32" and "i < c_bits_per_bitmap v"
  shows "(case slab_indexes v b i of (p, j) \<Rightarrow> bitmap_indexes v p j) = (b, i)"
proof -
  let ?n = "index_from_bitmap_indexes v b i"
  have i: "unat i < 32768" using assms(1,3) by (simp add: slab_constants unat_word_lt)
  have "unat (b * 32768) = unat b * 32768"
    using assms(2) by (simp add: unat_word_ariths)
  then have n: "unat ?n = unat b * 32768 + unat i"
    using assms(1,2) by (simp add: index_from_bitmap_indexes_def slab_constants unat_add_lt)
  have idx: "?n div c_slabs_per_page v * c_slabs_per_page v + ?n mod c_slabs_per_page v = ?n"
    by (simp add: word_mod_div_equality)
  have "?n div 32768 = b" "?n mod 32768 = i"
    using n i by (simp_all add: word_unat_eq_iff unat_div unat_mod)
  then show ?thesis
    using assms(1)
    by (simp add: slab_indexes_def bitmap_indexes_def Let_def index_from_slab_indexes_def slab_constants idx)
qed

lemma slab_indexes_first:
  assumes "slot_ok v" and "k < 32"
  shows "slab_indexes v 0 (of_nat k) = (of_nat (k div per_page v), of_nat (k mod per_page v))"
proof -
  have u: "unat (of_nat k :: size_t) = k" using assms(2) by (intro unat_of_nat_lt) simp
  have "k div per_page v \<le> k" "k mod per_page v \<le> k" by simp_all
  then have "k div per_page v < 32" "k mod per_page v < 32" using assms(2) by (blast intro: le_less_trans)+
  then have "unat (of_nat (k div per_page v) :: size_t) = k div per_page v"
    "unat (of_nat (k mod per_page v) :: size_t) = k mod per_page v"
    by (simp_all add: unat_of_nat_lt)
  then show ?thesis
    using u assms(1)
    by (simp add: slab_indexes_def index_from_bitmap_indexes_def slab_constants Let_def
        word_unat_eq_iff unat_div unat_mod)
qed

section \<open>Bitmaps\<close>

text \<open>
  \<open>word\<close> divides by the number of bits of the whole map, so every index below it selects word 0, and
  a bit index of 32 or more is an undefined shift.
\<close>

lemma bm_bit_undefined:
  assumes "32 \<le> i"
  shows "bm_bit n bm i = None" and "bm_set_bit n bm i = None" and "bm_clear_bit n bm i = None"
  using assms by (auto simp: bm_bit_def bm_set_bit_def bm_clear_bit_def shl_def split: bind_splits)

lemma bm_first_word:
  assumes "bm = w # ws" and "i < 32" and "32 \<le> n"
  shows "bm_bit n bm i = Some (bit w (unat i))"
    and "bm_set_bit n bm i = Some ((w XOR push_bit (unat i) 1) # ws)"
    and "bm_clear_bit n bm i = Some ((w AND NOT (push_bit (unat i) 1)) # ws)"
proof -
  have "unat i < unat n" using assms(2,3) by (simp add: unat_word_le unat_word_lt)
  then have z: "unat (i div n) = 0" by (simp add: unat_div)
  have "w AND push_bit (unat i) 1 \<noteq> 0 \<longleftrightarrow> bit w (unat i)"
    by (simp add: and_exp_eq_0_iff_not_bit push_bit_eq_mult)
  then show "bm_bit n bm i = Some (bit w (unat i))"
    "bm_set_bit n bm i = Some ((w XOR push_bit (unat i) 1) # ws)"
    "bm_clear_bit n bm i = Some ((w AND NOT (push_bit (unat i) 1)) # ws)"
    using assms z by (simp_all add: bm_bit_def bm_set_bit_def bm_clear_bit_def shl_def bm_word_def
        bm_set_word_def arr_at_def arr_insert_def linorder_not_le)
qed

section \<open>Allocating and freeing a slot\<close>

text \<open>
  A slab allocator with one bitmap node, whose first word is \<open>w\<close>, and a first page at \<open>page\<close>: what
  the page allocator's scratch memory becomes. \<open>slab_page_at\<close> is the address of a page.
\<close>

definition slab_inv :: "slab \<Rightarrow> ptr \<Rightarrow> size_t \<Rightarrow> size_t list \<Rightarrow> ptr list \<Rightarrow> ptr \<Rightarrow> bool" where
  "slab_inv s bn w ws ps page \<longleftrightarrow>
     list_rep (sl_bitmap_heap s) (sl_bitmaps s) [bn]
     \<and> map_option nd_content (sl_bitmap_heap s bn) = Some (w # ws)
     \<and> list_rep (sl_page_heap s) (sl_pages s) ps \<and> ps \<noteq> [] \<and> length ps < 2 ^ 23
     \<and> map_option nd_content (sl_page_heap s (hd ps)) = Some page
     \<and> page \<noteq> 0 \<and> unat page mod 4096 = 0"

definition slab_page_at :: "slab \<Rightarrow> ptr list \<Rightarrow> nat \<Rightarrow> ptr" where
  "slab_page_at s ps i = nd_content (the (sl_page_heap s (ps ! i)))"

definition first_free :: "size_t \<Rightarrow> nat \<Rightarrow> bool" where
  "first_free w k \<longleftrightarrow> k < 32 \<and> \<not> bit w k \<and> (\<forall>j<k. bit w j)"

lemma slab_page_at_0: "slab_inv s bn w ws ps page \<Longrightarrow> slab_page_at s ps 0 = page"
  by (auto simp: slab_inv_def slab_page_at_def hd_conv_nth)

lemma slab_inv_num_slabs:
  assumes "slab_inv s bn w ws ps page" and "slot_ok v"
  shows "unat (num_slabs v s) = length ps * per_page v" "per_page v \<le> length ps * per_page v"
proof -
  have l: "m_length (sl_pages s) = of_nat (length ps)" "length ps < 2 ^ 23" and "ps \<noteq> []"
    using assms(1) by (auto simp: slab_inv_def list_rep_def)
  then show "per_page v \<le> length ps * per_page v" by (cases ps) simp_all
  have "unat (of_nat (length ps) :: size_t) = length ps" using l(2) by (intro unat_of_nat_lt) simp
  moreover have "length ps * per_page v < 2 ^ 32"
  proof -
    have "length ps * per_page v \<le> 2 ^ 23 * 256"
      using l(2) per_page_bounds(3) [OF assms(2)] by (intro mult_le_mono) simp_all
    then show ?thesis by simp
  qed
  ultimately show "unat (num_slabs v s) = length ps * per_page v"
    using l(1) assms(2) by (simp add: num_slabs_def slab_constants unat_word_ariths)
qed

lemma free_bit_loop_step:
  assumes inv: "slab_inv s bn w ws ps page" and v: "slot_ok v" and j: "j < 32" "j < length ps * per_page v"
  shows "free_bit_loop v s (w # ws) 0 (of_nat j) =
    (if bit w j then free_bit_loop v s (w # ws) 0 (of_nat (Suc j)) else Some (Some (of_nat j)))"
proof -
  let ?j = "of_nat j :: size_t"
  have u: "unat ?j = j" using j by (intro unat_of_nat_lt) simp
  have "?j < c_bits_per_bitmap v" "?j < 32" using j u v by (simp_all add: slab_constants unat_word_lt)
  moreover have "index_from_bitmap_indexes v 0 ?j < num_slabs v s"
    using slab_inv_num_slabs(1) [OF inv v] u j(2) by (simp add: index_from_bitmap_indexes_def unat_word_lt)
  moreover have "bm_bit (c_bits_per_bitmap v) (w # ws) ?j = Some (bit w j)"
    using bm_first_word(1) [OF refl \<open>?j < 32\<close>, of "c_bits_per_bitmap v" w ws] u v by (simp add: slab_constants)
  ultimately show ?thesis
    by (subst free_bit_loop.simps) (simp add: add.commute)
qed

lemma free_bit_loop_first:
  assumes "slab_inv s bn w ws ps page" and "slot_ok v" and "first_free w k" and "k < length ps * per_page v"
    and "j \<le> k"
  shows "free_bit_loop v s (w # ws) 0 (of_nat j) = Some (Some (of_nat k))"
  using assms(5)
proof (induction rule: inc_induct)
  case base
  then show ?case using free_bit_loop_step [OF assms(1,2), of k] assms(3,4) by (simp add: first_free_def)
next
  case (step j)
  then show ?case using free_bit_loop_step [OF assms(1,2), of j] assms(3,4) by (simp add: first_free_def)
qed

lemma free_bit_loop_taken:
  assumes "slab_inv s bn w ws ps page" and "slot_ok v" and "\<forall>j<n. bit w j" and "n \<le> 32"
    and "n \<le> length ps * per_page v" and "j \<le> n"
  shows "free_bit_loop v s (w # ws) 0 (of_nat j) = free_bit_loop v s (w # ws) 0 (of_nat n)"
  using assms(6)
proof (induction rule: inc_induct)
  case (step j)
  then show ?case using free_bit_loop_step [OF assms(1,2), of j] assms(3-5) by simp
qed simp

lemma free_bit_loop_full:
  assumes inv: "slab_inv s bn w ws ps page" and v: "slot_ok v" and "\<forall>j<32. bit w j" and "32 < length ps * per_page v"
  shows "free_bit_loop v s (w # ws) 0 0 = None"
proof -
  have "index_from_bitmap_indexes v 0 32 < num_slabs v s"
    using slab_inv_num_slabs(1) [OF inv v] assms(4) by (simp add: index_from_bitmap_indexes_def unat_word_lt)
  then have "free_bit_loop v s (w # ws) 0 32 = None"
    using v by (subst free_bit_loop.simps) (simp add: slab_constants bm_bit_undefined)
  then show ?thesis using free_bit_loop_taken [OF inv v assms(3), of 0] assms(4) by simp
qed

lemma free_bit_loop_none:
  assumes inv: "slab_inv s bn w ws ps page" and v: "slot_ok v" and "length ps * per_page v \<le> 32"
    and "\<forall>j < length ps * per_page v. bit w j"
  shows "free_bit_loop v s (w # ws) 0 0 = Some None"
proof -
  let ?n = "length ps * per_page v"
  have "num_slabs v s = of_nat ?n" using slab_inv_num_slabs(1) [OF inv v] by (metis word_unat_eq_iff unat_of_nat_lt unat_lt_exp)
  then have "free_bit_loop v s (w # ws) 0 (of_nat ?n) = Some None"
    by (subst free_bit_loop.simps) (simp add: index_from_bitmap_indexes_def)
  then show ?thesis using free_bit_loop_taken [OF inv v assms(4,3), of 0] by simp
qed

lemma slab_inv_bitmap_node:
  assumes "slab_inv s bn w ws ps page"
  obtains n where "get_node (sl_bitmap_heap s) bn = Some n" "nd_content n = w # ws" "bn \<noteq> nullptr"
    "sl_bitmap_heap s bn = Some n"
  using assms by (auto simp: slab_inv_def get_node_def list_rep_def)

lemma nth_node_at:
  assumes "list_rep h l ps" and "i < length ps" and "i < 2 ^ 32"
  shows "nth_node h l (of_nat i) = Some (ps ! i)"
proof -
  have u: "unat (of_nat i :: size_t) = i" using assms(3) by (intro unat_of_nat_lt) simp
  obtain it where "advance (pi_incr h) (mll_begin l) i = Some it" "iter_on h l it (drop i ps)"
    using pi.advance_drop [OF iter_on_begin [OF assms(1)]] assms(2) less_imp_le by blast
  then show ?thesis
    using assms(2) by (auto simp: nth_node_def u next_iter_def pi_deref_def iter_on_def hd_drop_conv_nth)
qed

lemma slab_inv_page_node:
  assumes "slab_inv s bn w ws ps page" and "i < length ps"
  obtains m where "nth_node (sl_page_heap s) (sl_pages s) (of_nat i) = Some (ps ! i)"
    "get_node (sl_page_heap s) (ps ! i) = Some m" "nd_content m = slab_page_at s ps i"
proof -
  have rep: "list_rep (sl_page_heap s) (sl_pages s) ps" using assms(1) by (simp add: slab_inv_def)
  obtain m where "sl_page_heap s (ps ! i) = Some m" "ps ! i \<noteq> nullptr"
    using list_rep_node [OF rep nth_mem [OF assms(2)]] by auto
  moreover have "i < 2 ^ 32" using assms by (simp add: slab_inv_def)
  ultimately show thesis using that nth_node_at [OF rep assms(2)] by (simp add: get_node_def slab_page_at_def)
qed

lemma try_find_free_bit_eq:
  assumes inv: "slab_inv s bn w ws ps page"
  shows "try_find_free_bit v s = (case free_bit_loop v s (w # ws) 0 0 of None \<Rightarrow> None
    | Some None \<Rightarrow> Some (False, 0, 0) | Some (Some i) \<Rightarrow> Some (True, 0, i))"
proof -
  have rep: "list_rep (sl_bitmap_heap s) (sl_bitmaps s) [bn]" using inv by (simp add: slab_inv_def)
  obtain n where "get_node (sl_bitmap_heap s) bn = Some n" "nd_content n = w # ws"
    using slab_inv_bitmap_node [OF inv] by blast
  then show ?thesis
    by (simp add: try_find_free_bit_def mll_range_for [OF rep] free_bit_step_def split: option.split)
qed

lemma slab_inv_upd:
  assumes inv: "slab_inv s bn w ws ps page" and n: "sl_bitmap_heap s bn = Some n"
  shows "slab_inv (s\<lparr>sl_bitmap_heap := (sl_bitmap_heap s)(bn \<mapsto> n\<lparr>nd_content := u # ws\<rparr>)\<rparr>) bn u ws ps page"
  using inv n by (auto simp: slab_inv_def list_rep_def)

text \<open>
  A slot is the page with the index \<open>k div per_page\<close>, and the position in it: the slots of a page are
  next to each other.
\<close>

lemma slab_allocate_at:
  assumes inv: "slab_inv s bn w ws ps page" and v: "slot_ok v"
    and k: "first_free w k" "k < length ps * per_page v"
  shows "\<exists>s'. slab_allocate v s = Some (\<lparr>al_ptr = slab_page_at s ps (k div per_page v) + of_nat (k mod per_page v) * v,
      al_size = v\<rparr>, s') \<and> slab_inv s' bn (w XOR push_bit k 1) ws ps page \<and> sl_page_heap s' = sl_page_heap s"
proof -
  obtain n where n: "get_node (sl_bitmap_heap s) bn = Some n" "nd_content n = w # ws" "bn \<noteq> nullptr"
      "sl_bitmap_heap s bn = Some n" using slab_inv_bitmap_node [OF inv] .
  have "k div per_page v < length ps" using k(2) by (simp add: less_mult_imp_div_less)
  then obtain m where m: "nth_node (sl_page_heap s) (sl_pages s) (of_nat (k div per_page v)) = Some (ps ! (k div per_page v))"
      "get_node (sl_page_heap s) (ps ! (k div per_page v)) = Some m" "nd_content m = slab_page_at s ps (k div per_page v)"
    by (rule slab_inv_page_node [OF inv])
  have k32: "k < 32" using k(1) by (simp add: first_free_def)
  have u: "unat (of_nat k :: size_t) = k" using k32 by (intro unat_of_nat_lt) simp
  have lt: "(of_nat k :: size_t) < 32" using u k32 by (simp add: unat_word_lt)
  have found: "try_find_free_bit v s = Some (True, 0, of_nat k)"
    using free_bit_loop_first [OF inv v k, of 0] by (simp add: try_find_free_bit_eq [OF inv])
  have set: "bm_set_bit (c_bits_per_bitmap v) (w # ws) (of_nat k) = Some ((w XOR push_bit k 1) # ws)"
    using bm_first_word(2) [OF refl lt, of "c_bits_per_bitmap v" w ws] u v by (simp add: slab_constants)
  have node: "nth_node (sl_bitmap_heap s) (sl_bitmaps s) 0 = Some bn"
    using nth_node_at [of "sl_bitmap_heap s" "sl_bitmaps s" "[bn]" 0] inv by (simp add: slab_inv_def)
  show ?thesis
    using slab_inv_upd [OF inv n(4)] n m
    by (simp add: slab_allocate_def found node set slab_indexes_first [OF v k32] set_content_def)
qed

lemma slab_allocate_ok:
  assumes "slab_inv s bn w ws ps page" and "slot_ok v" and "first_free w k" and "k < per_page v"
  shows "\<exists>s'. slab_allocate v s = Some (\<lparr>al_ptr = page + of_nat k * v, al_size = v\<rparr>, s')
    \<and> slab_inv s' bn (w XOR push_bit k 1) ws ps page"
  using slab_allocate_at [OF assms(1-3)] slab_inv_num_slabs(2) [OF assms(1,2)] slab_page_at_0 [OF assms(1)] assms(4)
  by auto

text \<open>
  C36. \<open>allocate\<close> of the slab allocator, for every size of slots that divides a page: it returns the
  lowest slot of the pages whose bit is clear and sets that bit, as long as one of the first 32 slots is
  free. When all slots of the pages are taken, and they are at most 32, it returns no memory and
  changes nothing; when there are more, the first 32 taken, its behaviour is undefined.
\<close>

theorem slab_allocate_lowest:
  assumes inv: "slab_inv s bn w ws ps page" and v: "slot_ok v"
  shows "if \<exists>k. first_free w k \<and> k < length ps * per_page v
    then \<exists>k s'. first_free w k
      \<and> slab_allocate v s = Some (\<lparr>al_ptr = slab_page_at s ps (k div per_page v) + of_nat (k mod per_page v) * v, al_size = v\<rparr>, s')
      \<and> slab_inv s' bn (w XOR push_bit k 1) ws ps page \<and> bit (w XOR push_bit k 1) k
      \<and> sl_page_heap s' = sl_page_heap s
    else slab_allocate v s = (if length ps * per_page v \<le> 32 then Some (no_allocation, s) else None)"
proof (cases "\<exists>k. first_free w k \<and> k < length ps * per_page v")
  case True
  then obtain k where k: "first_free w k" "k < length ps * per_page v" by blast
  then have "bit (w XOR push_bit k 1) k" by (auto simp: first_free_def bit_xor_iff bit_exp_iff)
  then show ?thesis using slab_allocate_at [OF inv v k] k True by auto
next
  case False
  have taken: "bit w j" if "j < 32" "j < length ps * per_page v" for j
    using that
  proof (induction j rule: less_induct)
    case (less j)
    then have "\<forall>i<j. bit w i" by simp
    then show ?case using False less.prems by (auto simp: first_free_def)
  qed
  show ?thesis
  proof (cases "length ps * per_page v \<le> 32")
    case True
    then have "free_bit_loop v s (w # ws) 0 0 = Some None"
      using taken by (intro free_bit_loop_none [OF inv v]) simp_all
    then have "slab_allocate v s = Some (no_allocation, s)"
      by (simp add: slab_allocate_def try_find_free_bit_eq [OF inv])
    then show ?thesis using True by (simp only: if_not_P [OF False] if_P)
  next
    case More: False
    then have "free_bit_loop v s (w # ws) 0 0 = None"
      using taken by (intro free_bit_loop_full [OF inv v]) simp_all
    then have "slab_allocate v s = None" by (simp add: slab_allocate_def try_find_free_bit_eq [OF inv])
    then show ?thesis by (simp only: if_not_P [OF False] if_not_P [OF More])
  qed
qed

text \<open>
  The 33rd node is undefined behaviour: once the first 32 slots are taken, \<open>allocate\<close> shifts by
  32, although every page has 256 slots. \<open>BitMap::word\<close> divides the index by the number of bits
  of the map instead of the number of bits of a word.
\<close>

lemma slab_allocate_33rd_undefined:
  assumes "slab_inv s bn w ws ps page" and "\<forall>j<32. bit w j"
  shows "slab_allocate 16 s = None"
  using free_bit_loop_full [OF assms(1) _ assms(2), of 16] slab_inv_num_slabs(2) [OF assms(1), of 16]
  by (simp add: slab_allocate_def try_find_free_bit_eq [OF assms(1)])

lemma slot_below_page:
  assumes "slot_ok v" and "k < per_page v"
  shows "unat (of_nat k * v) = k * unat v" "k * unat v < 4096"
proof -
  have z: "0 < unat v" using assms(1) by (simp add: slot_ok_def)
  then have "k * unat v < per_page v * unat v" using assms(2) by simp
  then show lt: "k * unat v < 4096" unfolding per_page_bounds(1) [OF assms(1)] .
  have "unat (of_nat k :: size_t) = k"
    using assms(2) per_page_bounds(3) [OF assms(1)] by (intro unat_of_nat_lt) simp
  then show "unat (of_nat k * v) = k * unat v" using lt by (simp add: unat_word_ariths)
qed

lemma page_bound: "unat (page :: ptr) mod 4096 = 0 \<Longrightarrow> unat page \<le> 1048575 * 4096"
proof -
  assume "unat page mod 4096 = 0"
  then have "unat page = unat page div 4096 * 4096" by (metis add.right_neutral div_mult_mod_eq)
  moreover have "unat page div 4096 < 1048576" using unat_lt_exp [of page] by (simp add: div_less_iff_less_mult)
  ultimately show ?thesis by linarith
qed

lemma slot_address:
  assumes "unat page mod 4096 = 0" and "slot_ok v" and "k < per_page v"
  shows "unat (page + of_nat k * v) = unat page + k * unat v"
    and "align_down_two (page + of_nat k * v) PageSize = page"
proof -
  note s = slot_below_page [OF assms(2,3)]
  show sum: "unat (page + of_nat k * v) = unat page + k * unat v"
    unfolding s(1) [symmetric] using s page_bound [OF assms(1)] by (intro unat_add_lt) simp
  have q: "unat page = unat page div 4096 * 4096" using assms(1) by (metis add.right_neutral div_mult_mod_eq)
  then have "(unat page + k * unat v) div 4096 = unat page div 4096"
    using s(2) by (intro div_nat_eqI; simp only: mult_Suc_right; linarith)
  then have "(unat page + k * unat v) div 4096 * 4096 = unat page" using q by simp
  then show "align_down_two (page + of_nat k * v) PageSize = page"
    using unat_align_down_two [of PageSize 12 "page + of_nat k * v"] sum
    by (simp add: PageSize_def word_unat_eq_iff)
qed

lemma slab_free_ok:
  assumes inv: "slab_inv s bn w ws ps page" and v: "slot_ok v" and k: "k < 32" "k < per_page v"
    and a: "al_ptr a = page + of_nat k * v"
  shows "\<exists>s'. slab_free v a s = Some (v, s') \<and> slab_inv s' bn (w AND NOT (push_bit k 1)) ws ps page"
proof -
  obtain n where n: "get_node (sl_bitmap_heap s) bn = Some n" "nd_content n = w # ws" "bn \<noteq> nullptr"
      "sl_bitmap_heap s bn = Some n" using slab_inv_bitmap_node [OF inv] .
  have rep: "list_rep (sl_page_heap s) (sl_pages s) ps" "ps \<noteq> []" and page: "unat page mod 4096 = 0"
    using inv by (auto simp: slab_inv_def)
  obtain m where m: "get_node (sl_page_heap s) (hd ps) = Some m" "nd_content m = page"
    using slab_inv_page_node [OF inv, of 0] rep(2) slab_page_at_0 [OF inv] by (auto simp: hd_conv_nth)
  have u: "unat (of_nat k :: size_t) = k" using k(1) by (intro unat_of_nat_lt) simp
  have "fold_break (slab_page_step s page) ps 0 = Some 0"
    using rep(2) m by (cases ps) (simp_all add: slab_page_step_def)
  moreover have "of_nat k * v div v = (of_nat k :: size_t)"
    using slot_below_page(1) [OF v k(2)] u v by (simp add: word_unat_eq_iff unat_div slot_ok_def)
  ultimately have assoc: "find_associated_slab_page v s (al_ptr a) = Some (0, of_nat k)"
    using slot_address(2) [OF page v k(2)]
    by (simp add: find_associated_slab_page_def Let_def mll_range_for [OF rep(1)] a)
  have idx: "bitmap_indexes v 0 (of_nat k) = (0, of_nat k)"
    using u k(1) v by (simp add: bitmap_indexes_def index_from_slab_indexes_def slab_constants Let_def
        word_unat_eq_iff unat_div unat_mod)
  have clr: "bm_clear_bit (c_bits_per_bitmap v) (w # ws) (of_nat k) = Some ((w AND NOT (push_bit k 1)) # ws)"
    using bm_first_word(3) [OF refl, of "of_nat k" "c_bits_per_bitmap v" w ws] u k(1) v
    by (simp add: slab_constants unat_word_lt)
  have node: "nth_node (sl_bitmap_heap s) (sl_bitmaps s) 0 = Some bn"
    using nth_node_at [of "sl_bitmap_heap s" "sl_bitmaps s" "[bn]" 0] inv by (simp add: slab_inv_def)
  show ?thesis
    using slab_inv_upd [OF inv n(4)] n
    by (simp add: slab_free_def assoc node clr idx set_content_def)
qed

text \<open>
  Freeing the slot that was just allocated restores the bitmap: allocation and freeing are inverse.
\<close>

lemma slab_allocate_free:
  assumes inv: "slab_inv s bn w ws ps page" and v: "slot_ok v" and k: "first_free w k" "k < per_page v"
  shows "\<exists>a s1 s2. slab_allocate v s = Some (a, s1) \<and> slab_free v a s1 = Some (v, s2)
    \<and> slab_inv s2 bn w ws ps page"
proof -
  let ?a = "\<lparr>al_ptr = page + of_nat k * v, al_size = v\<rparr> :: allocation"
  have k32: "k < 32" "\<not> bit w k" using k(1) by (auto simp: first_free_def)
  obtain s1 where s1: "slab_allocate v s = Some (?a, s1)" "slab_inv s1 bn (w XOR push_bit k 1) ws ps page"
    using slab_allocate_ok [OF inv v k] by blast
  obtain s2 where s2: "slab_free v ?a s1 = Some (v, s2)"
      "slab_inv s2 bn ((w XOR push_bit k 1) AND NOT (push_bit k 1)) ws ps page"
    using slab_free_ok [OF s1(2) v k32(1) k(2), of ?a] by auto
  have "(w XOR push_bit k 1) AND NOT (push_bit k 1) = w"
    using k32 by (intro bit_word_eqI) (auto simp: bit_xor_iff bit_and_iff bit_not_iff bit_exp_iff)
  then show ?thesis using s1(1) s2 by auto
qed

section \<open>A concrete slab\<close>

definition example_slab :: "size_t \<Rightarrow> slab" where
  "example_slab w = \<lparr>
     sl_bitmap_heap = Map.empty(4112 \<mapsto> \<lparr>nd_next = nullptr, nd_prev = nullptr, nd_content = [w, 0]\<rparr>),
     sl_bitmaps = \<lparr>m_head = 4112, m_tail = 4112, m_length = 1\<rparr>,
     sl_page_heap = Map.empty(8232 \<mapsto> \<lparr>nd_next = nullptr, nd_prev = nullptr, nd_content = 12288\<rparr>),
     sl_pages = \<lparr>m_head = 8232, m_tail = 8232, m_length = 1\<rparr>,
     sl_free_pages = (Map.empty, empty_mll)\<rparr>"

lemma example_slab_inv: "slab_inv (example_slab w) 4112 w [0] [8232] 12288"
  by (simp add: slab_inv_def example_slab_def list_rep_def)

lemma first_free_0: "first_free 0 0"
  by (simp add: first_free_def)

theorem slab_allocate_lowest_witness:
  "\<exists>s'. slab_allocate 1024 (example_slab 3) = Some (\<lparr>al_ptr = 14336, al_size = 1024\<rparr>, s')"
proof -
  have two: "first_free 3 2" by (auto simp: first_free_def less_Suc_eq numeral_eq_Suc)
  then have only: "first_free 3 k \<Longrightarrow> k = 2" for k by (metis first_free_def linorder_neqE_nat)
  have at: "slab_page_at (example_slab 3) [8232] 0 = 12288" by (rule slab_page_at_0 [OF example_slab_inv])
  have "\<exists>k. first_free 3 k \<and> k < length [8232 :: ptr] * per_page 1024" using two by auto
  with slab_allocate_lowest [OF example_slab_inv [of 3] slot_ok_sizes(2)] obtain k s' where
    "first_free 3 k" "slab_allocate 1024 (example_slab 3) = Some (\<lparr>al_ptr =
      slab_page_at (example_slab 3) [8232] (k div per_page 1024) + of_nat (k mod per_page 1024) * 1024, al_size = 1024\<rparr>, s')"
    by (auto simp only: if_True)
  then show ?thesis using only [of k] at by simp
qed

end
