(* ===== verification/Page_Backend.thy ===== *)
theory Page_Backend
  imports Pages Slab
begin

text \<open>
  \<open>PageAllocatorBackend\<close> and \<open>PageBroker\<close> of pine/malloc.hpp and pine/malloc.cpp: the allocator of
  physical and virtual page regions. Free regions are nodes of 21 linked lists, list \<open>d\<close> for lengths
  of \<open>2 ^ d\<close> up to \<open>2 ^ (d + 1) - 1\<close> pages; the nodes come from the slab allocator. A region that is
  too large is halved, and the right halves go back to the lists.

  Depths are 32-bit unsigned numbers that wrap around as in the code; an index outside the array of
  lists is \<open>None\<close>, and so is a loop that does not end.
\<close>

record brokered_allocation =
  ba_ptr :: ptr
  ba_size :: size_t
  ba_overhead_used :: size_t

definition no_brokered_allocation :: brokered_allocation where
  "no_brokered_allocation = \<lparr>ba_ptr = nullptr, ba_size = 0, ba_overhead_used = 0\<rparr>"

definition as_allocation :: "brokered_allocation \<Rightarrow> allocation" where
  "as_allocation b = \<lparr>al_ptr = ba_ptr b, al_size = ba_size b\<rparr>"

definition brokered_bool :: "brokered_allocation \<Rightarrow> bool" where
  "brokered_bool b \<longleftrightarrow> ba_size b \<noteq> 0"

datatype page_alignment_level = PALPage | PALSection

fun pal_unsigned :: "page_alignment_level \<Rightarrow> u32" where
  "pal_unsigned PALPage = 1"
| "pal_unsigned PALSection = SectionSize div PageSize"

definition max_depth :: u32 where "max_depth = 4 * 8 - bit_width PageSize + 2"

definition pb_max_overhead :: size_t where
  "pb_max_overhead = max_overhead_per_allocation * max_depth"

definition pb_initial_cost :: size_t where "pb_initial_cost = max_overhead_per_allocation"

definition page_node_size :: size_t where "page_node_size = 16"

record page_backend =
  pb_node_allocator :: slab
  pb_heap :: "region heap"
  pb_free_lists :: "mll list"

definition pb_empty :: page_backend where
  "pb_empty = \<lparr>pb_node_allocator = slab_empty, pb_heap = Map.empty,
     pb_free_lists = replicate (unat max_depth) empty_mll\<rparr>"

section \<open>Nodes and lists\<close>

definition depth_from_page_length :: "size_t \<Rightarrow> u32" where
  "depth_from_page_length num_pages = (if num_pages = 0 then 0 else bit_width num_pages - 1)"

definition page_length_from_depth :: "u32 \<Rightarrow> size_t option" where
  "page_length_from_depth depth = shl 1 depth"

definition create_node :: "region \<Rightarrow> page_backend \<Rightarrow> ((u32 \<times> ptr) \<times> page_backend) option" where
  "create_node r s = do {
     (a, sl) \<leftarrow> slab_allocate page_node_size (pb_node_allocator s);
     let s = s\<lparr>pb_node_allocator := sl\<rparr>;
     (if al_ptr a = nullptr then Some ((0, nullptr), s)
      else do {
        let depth = depth_from_page_length (rg_length r);
        h \<leftarrow> construct_at (al_ptr a) r (pb_heap s);
        Some ((depth, al_ptr a), s\<lparr>pb_heap := h\<rparr>)
      })
   }"

definition remove_node :: "u32 \<Rightarrow> ptr \<Rightarrow> page_backend \<Rightarrow> page_backend option" where
  "remove_node depth node s = do {
     l \<leftarrow> arr_at (pb_free_lists s) (unat depth);
     (h, l) \<leftarrow> mll_remove node (pb_heap s, l);
     ls \<leftarrow> arr_insert (pb_free_lists s) (unat depth) l;
     (_, sl) \<leftarrow> slab_free page_node_size \<lparr>al_ptr = node, al_size = page_node_size\<rparr> (pb_node_allocator s);
     Some \<lparr>pb_node_allocator = sl, pb_heap = h, pb_free_lists = ls\<rparr>
   }"

text \<open>
  The comparator of \<open>insert_node\<close> is \<open>Greater\<close>, on the contents of two nodes. \<open>insert_after\<close> is given
  the node the iterator points at, the null pointer for an empty list.
\<close>

definition insert_node :: "u32 \<Rightarrow> ptr \<Rightarrow> page_backend \<Rightarrow> page_backend option" where
  "insert_node depth node s = do {
     l \<leftarrow> arr_at (pb_free_lists s) (unat depth);
     n \<leftarrow> get_node (pb_heap s) node;
     it \<leftarrow> lower_bound (pi_incr (pb_heap s)) pi_deref (distance (pi_incr (pb_heap s)))
       (mll_begin l) (mll_end l)
       (\<lambda>other. do { m \<leftarrow> get_node (pb_heap s) other; Some (region_gt (nd_content m) (nd_content n)) });
     insertion_pt \<leftarrow> pi_deref it;
     (h, l) \<leftarrow> mll_insert_after insertion_pt node (pb_heap s, l);
     ls \<leftarrow> arr_insert (pb_free_lists s) (unat depth) l;
     Some (s\<lparr>pb_heap := h, pb_free_lists := ls\<rparr>)
   }"

section \<open>Free regions\<close>

definition free_region :: "region \<Rightarrow> page_backend \<Rightarrow> (size_t \<times> page_backend) option" where
  "free_region r s =
     (if \<not> region_bool r then Some (0, s)
      else do {
        ((depth, node), s) \<leftarrow> create_node r s;
        (if node = nullptr then Some (0, s)
         else do {
           s \<leftarrow> insert_node depth node s;
           Some (max_overhead_per_allocation, s)
         })
      })"

definition pb_add :: "region \<Rightarrow> page_backend \<Rightarrow> page_backend option" where
  "pb_add r s = do { (_, s) \<leftarrow> free_region r s; Some s }"

definition pb_init :: "region \<Rightarrow> region \<Rightarrow> page_backend \<Rightarrow> page_backend option" where
  "pb_init allocating_range scratch_pages s = do {
     sl \<leftarrow> slab_add page_node_size (region_ptr PageSize scratch_pages 0) (region_size PageSize scratch_pages)
       (pb_node_allocator s);
     pb_add allocating_range (s\<lparr>pb_node_allocator := sl\<rparr>)
   }"

definition pb_free :: "allocation \<Rightarrow> page_backend \<Rightarrow> page_backend option" where
  "pb_free a s = do {
     (_, s) \<leftarrow> free_region (region_from_ptr PageSize (al_ptr a) (al_size a)) s;
     Some s
   }"

text \<open>
  \<open>find_free_pages\<close> and \<open>find_free_region\<close> differ in the condition on the region of a node.
\<close>

partial_function (option) find_free_loop ::
    "page_backend \<Rightarrow> (region \<Rightarrow> bool) \<Rightarrow> u32 \<Rightarrow> ptr option" where
  "find_free_loop s cond depth =
     (if depth \<noteq> max_depth then
        Option.bind (arr_at (pb_free_lists s) (unat depth)) (\<lambda>l.
          Option.bind (find_if (pi_incr (pb_heap s)) pi_deref
              (\<lambda>node. Option.bind (get_node (pb_heap s) node) (\<lambda>n. Some (cond (nd_content n))))
              (mll_begin l) (mll_end l)) (\<lambda>it.
            if it \<noteq> mll_end l then pi_deref it else find_free_loop s cond (depth + 1)))
      else Some nullptr)"

declare find_free_loop.simps [code]

definition find_free_pages :: "size_t \<Rightarrow> page_alignment_level \<Rightarrow> page_backend \<Rightarrow> ptr option" where
  "find_free_pages num_pages page_alignment s =
     find_free_loop s
       (\<lambda>r. region_fits r num_pages \<and> region_aligned_to r (pal_unsigned page_alignment))
       (depth_from_page_length num_pages)"

definition find_free_region :: "region \<Rightarrow> page_backend \<Rightarrow> ptr option" where
  "find_free_region r s =
     find_free_loop s (\<lambda>other. region_contains other r) (depth_from_page_length (rg_length r))"

section \<open>Trimming\<close>

partial_function (option) trim_loop ::
    "region \<Rightarrow> u32 \<Rightarrow> u32 \<Rightarrow> page_backend \<Rightarrow> ((region \<times> u32) \<times> page_backend) option" where
  "trim_loop curr_region curr_depth end_depth s =
     (if curr_depth \<noteq> end_depth then
        (let (reserved_region, remainder_region) = region_halve curr_region;
             curr_depth = curr_depth - 1
         in Option.bind (create_node remainder_region s) (\<lambda>((_, node), s).
           if node = nullptr then Some ((curr_region, curr_depth), s)
           else Option.bind (insert_node curr_depth node s) (\<lambda>s.
             trim_loop reserved_region curr_depth end_depth s)))
      else Some ((curr_region, curr_depth), s))"

declare trim_loop.simps [code]

definition trim_aligned_region ::
    "region \<Rightarrow> u32 \<Rightarrow> u32 \<Rightarrow> page_backend \<Rightarrow> ((region \<times> size_t) \<times> page_backend) option" where
  "trim_aligned_region curr_region start_depth end_depth s = do {
     ((r, curr_depth), s) \<leftarrow> trim_loop curr_region start_depth end_depth s;
     Some ((r, (start_depth - curr_depth) * max_overhead_per_allocation), s)
   }"

definition remove_and_trim_pages ::
    "ptr \<Rightarrow> size_t \<Rightarrow> page_backend \<Rightarrow> ((region \<times> size_t) \<times> page_backend) option" where
  "remove_and_trim_pages node min_pages s = do {
     n \<leftarrow> get_node (pb_heap s) node;
     let curr_region = nd_content n;
     let curr_depth = depth_from_page_length (rg_length curr_region);
     s \<leftarrow> remove_node curr_depth node s;
     num_pages_aligned \<leftarrow> align_up_to_power min_pages;
     let min_depth = depth_from_page_length num_pages_aligned;
     trim_aligned_region curr_region curr_depth min_depth s
   }"

partial_function (option) trim_region_loop ::
    "region \<Rightarrow> region \<Rightarrow> u32 \<Rightarrow> u32 \<Rightarrow> page_backend \<Rightarrow> ((region \<times> u32) \<times> page_backend) option" where
  "trim_region_loop min_region curr_region curr_depth end_depth s =
     (if curr_depth \<noteq> end_depth then
        (let (reserved_region, remainder_region) = region_halve curr_region in
         if \<not> region_contains reserved_region min_region \<and> \<not> region_contains remainder_region min_region
         then Some ((curr_region, curr_depth), s)
         else
           let (reserved_region, remainder_region) =
                 (if \<not> region_contains reserved_region min_region
                  then (remainder_region, reserved_region) else (reserved_region, remainder_region));
               curr_depth = curr_depth - 1
           in Option.bind (create_node remainder_region s) (\<lambda>((_, node), s).
             if node = nullptr then Some ((curr_region, curr_depth), s)
             else Option.bind (insert_node curr_depth node s) (\<lambda>s.
               trim_region_loop min_region reserved_region curr_depth end_depth s)))
      else Some ((curr_region, curr_depth), s))"

declare trim_region_loop.simps [code]

definition remove_and_trim_region ::
    "ptr \<Rightarrow> region \<Rightarrow> page_backend \<Rightarrow> ((region \<times> size_t) \<times> page_backend) option" where
  "remove_and_trim_region node min_region s = do {
     n \<leftarrow> get_node (pb_heap s) node;
     let curr_region = nd_content n;
     let curr_depth = depth_from_page_length (rg_length curr_region);
     s \<leftarrow> remove_node curr_depth node s;
     let end_depth = depth_from_page_length (rg_length min_region);
     ((r, curr_depth), s) \<leftarrow> trim_region_loop min_region curr_region curr_depth end_depth s;
     Some ((r, (end_depth - curr_depth) * max_overhead_per_allocation), s)
   }"

definition pb_allocate ::
    "size_t \<Rightarrow> page_alignment_level \<Rightarrow> page_backend \<Rightarrow> (brokered_allocation \<times> page_backend) option" where
  "pb_allocate num_pages page_alignment s = do {
     node \<leftarrow> find_free_pages num_pages page_alignment s;
     (if node = nullptr then Some (no_brokered_allocation, s)
      else do {
        ((r, num_splits), s) \<leftarrow> remove_and_trim_pages node num_pages s;
        Some (\<lparr>ba_ptr = region_ptr PageSize r 0, ba_size = region_size PageSize r,
               ba_overhead_used = num_splits * page_node_size\<rparr>, s)
      })
   }"

definition pb_reserve_region :: "region \<Rightarrow> page_backend \<Rightarrow> (brokered_allocation \<times> page_backend) option" where
  "pb_reserve_region r s = do {
     node \<leftarrow> find_free_region r s;
     (if node = nullptr then Some (no_brokered_allocation, s)
      else do {
        ((final_region, num_splits), s) \<leftarrow> remove_and_trim_region node r s;
        Some (\<lparr>ba_ptr = region_ptr PageSize final_region 0, ba_size = region_size PageSize final_region,
               ba_overhead_used = num_splits * page_node_size\<rparr>, s)
      })
   }"

section \<open>PageBroker\<close>

record page_broker =
  br_curr_runway :: size_t
  br_page_allocator :: page_backend

definition broker_empty :: page_broker where
  "broker_empty = \<lparr>br_curr_runway = 0, br_page_allocator = pb_empty\<rparr>"

definition c_required_runway :: size_t where
  "c_required_runway = (case align_up_to_power pb_max_overhead of None \<Rightarrow> 0 | Some n \<Rightarrow> n)"

definition c_required_runway_in_pages :: size_t where
  "c_required_runway_in_pages = align_up_two c_required_runway PageSize"

definition broker_init :: "region \<Rightarrow> region \<Rightarrow> page_broker \<Rightarrow> page_broker option" where
  "broker_init allocating_range scratch_pages s = do {
     p \<leftarrow> pb_init allocating_range scratch_pages (br_page_allocator s);
     Some \<lparr>br_curr_runway = region_size PageSize scratch_pages - pb_initial_cost, br_page_allocator = p\<rparr>
   }"

definition broker_add :: "region \<Rightarrow> page_broker \<Rightarrow> page_broker option" where
  "broker_add r s = do {
     p \<leftarrow> pb_add r (br_page_allocator s);
     Some (s\<lparr>br_page_allocator := p\<rparr>)
   }"

definition allocate_required_runway :: "page_broker \<Rightarrow> (bool \<times> page_broker) option" where
  "allocate_required_runway s = do {
     (b, p) \<leftarrow> pb_allocate c_required_runway_in_pages PALPage (br_page_allocator s);
     let s = s\<lparr>br_page_allocator := p\<rparr>;
     (if \<not> brokered_bool b then Some (False, s)
      else Some (True, s\<lparr>br_curr_runway := br_curr_runway s + ba_size b - ba_overhead_used b\<rparr>))
   }"

text \<open>The two allocating operations differ in the backend operation \<open>op\<close> they forward to.\<close>

definition broker_forward ::
    "(page_backend \<Rightarrow> (brokered_allocation \<times> page_backend) option) \<Rightarrow> page_broker
       \<Rightarrow> (allocation \<times> page_broker) option" where
  "broker_forward op s = do {
     (ok, s) \<leftarrow> (if br_curr_runway s < c_required_runway then allocate_required_runway s else Some (True, s));
     (if \<not> ok then Some (no_allocation, s)
      else do {
        (b, p) \<leftarrow> op (br_page_allocator s);
        Some (as_allocation b,
              s\<lparr>br_curr_runway := br_curr_runway s - ba_overhead_used b, br_page_allocator := p\<rparr>)
      })
   }"

definition broker_allocate ::
    "size_t \<Rightarrow> page_alignment_level \<Rightarrow> page_broker \<Rightarrow> (allocation \<times> page_broker) option" where
  "broker_allocate num_pages page_alignment = broker_forward (pb_allocate num_pages page_alignment)"

definition broker_reserve_region :: "region \<Rightarrow> page_broker \<Rightarrow> (allocation \<times> page_broker) option" where
  "broker_reserve_region r = broker_forward (pb_reserve_region r)"

definition broker_free :: "allocation \<Rightarrow> page_broker \<Rightarrow> page_broker option" where
  "broker_free a s = do {
     p \<leftarrow> pb_free a (br_page_allocator s);
     Some (s\<lparr>br_page_allocator := p\<rparr>)
   }"

end
