(* ===== verification/Mmu.thy ===== *)
theory Mmu
  imports Page_Backend
begin

unbundle bit_operations_syntax

text \<open>
  The memory management unit of the 32-bit target: the table entries of
  kernel/arch/aarch32/mmu.hpp and the page allocator of mmu.cpp, which reserves physical and virtual
  pages and records them in the translation tables.

  An entry is its 32-bit word; a bit field is stored modulo its width, from the lowest bit on. The
  first-level table is the list of its entries, the second-level tables are kept by address. Their
  memory comes from a slab allocator (Slab) with slots of their size; the page allocators are those of
  Page\_Backend. The contents of the allocated pages, which \<open>allocate\<close> clears, and the
  printing of the tables are not modelled. A panic is \<open>None\<close>.
\<close>

section \<open>Addresses\<close>

definition l1_index :: "ptr \<Rightarrow> nat" where "l1_index va = unat (take_bit 10 (drop_bit 20 va))"

definition l2_index :: "ptr \<Rightarrow> nat" where "l2_index va = unat (take_bit 8 (drop_bit 12 va))"

definition va_from_l1_index :: "u32 \<Rightarrow> ptr" where "va_from_l1_index index = push_bit 20 (take_bit 10 index)"

definition va_from_l2_index :: "u32 \<Rightarrow> ptr" where "va_from_l2_index index = push_bit 12 (take_bit 8 index)"

definition l1_base_addr :: "u32 \<Rightarrow> u32" where "l1_base_addr pa = drop_bit 20 pa"

definition l2_base_addr :: "u32 \<Rightarrow> u32" where "l2_base_addr pa = drop_bit 10 pa"

definition from_l1_base_addr :: "u32 \<Rightarrow> u32" where "from_l1_base_addr base = push_bit 20 (take_bit 12 base)"

definition from_l2_base_addr :: "u32 \<Rightarrow> u32" where "from_l2_base_addr base = push_bit 10 (take_bit 22 base)"

text \<open>The two operators of an address: the sum, and the address they leave. \<open>operator+\<close> adds to its operand, too.\<close>

definition pa_plus :: "u32 \<Rightarrow> size_t \<Rightarrow> u32 \<times> u32" where
  "pa_plus pa amount = (let pa = pa + amount in (pa, pa))"

definition pa_add :: "u32 \<Rightarrow> size_t \<Rightarrow> u32" where "pa_add pa amount = pa + amount"

lemma pa_plus_changes_operand: "0 < amount \<Longrightarrow> snd (pa_plus pa amount) \<noteq> pa"
  by (simp add: pa_plus_def Let_def)

section \<open>Entries\<close>

datatype l1_type = L1Fault | L1L2Ptr | L1Section | L1SuperSection

datatype l2_type = L2Fault | L2HugePage | L2Page

definition l1_entry_type :: "u32 \<Rightarrow> l1_type" where
  "l1_entry_type e =
     (let t = take_bit 2 e in if t = 0 then L1Fault else if t = 1 then L1L2Ptr
      else if t = 2 then L1Section else L1SuperSection)"

text \<open>The value 3 is no enumerator of \<open>L2Type\<close>: \<open>None\<close>.\<close>

definition l2_entry_type :: "u32 \<Rightarrow> l2_type option" where
  "l2_entry_type e =
     (let t = take_bit 2 e in if t = 0 then Some L2Fault else if t = 1 then Some L2HugePage
      else if t = 2 then Some L2Page else None)"

text \<open>\<open>Section\<close>: type 2 in bits 0-1, \<open>ap\<close> in bits 10-11, a base address of 10 bits from bit 20 on.\<close>

definition section_entry :: "u32 \<Rightarrow> u32" where
  "section_entry addr = 2 OR push_bit 10 3 OR push_bit 20 (take_bit 10 (l1_base_addr addr))"

definition section_physical_address :: "u32 \<Rightarrow> u32" where
  "section_physical_address e = from_l1_base_addr (take_bit 10 (drop_bit 20 e))"

definition super_section_physical_address :: "u32 \<Rightarrow> u32" where
  "super_section_physical_address e = from_l1_base_addr (take_bit 8 (drop_bit 24 e))"

text \<open>\<open>L2Ptr\<close>: type 1, a base address of 22 bits from bit 10 on.\<close>

definition l2ptr_entry :: "u32 \<Rightarrow> u32" where
  "l2ptr_entry addr = 1 OR push_bit 10 (take_bit 22 (l2_base_addr addr))"

definition l2ptr_table :: "u32 \<Rightarrow> ptr" where
  "l2ptr_table e = from_l2_base_addr (take_bit 22 (drop_bit 10 e))"

text \<open>
  \<open>Page\<close>: type 2, \<open>ap\<close> in bits 4-5, a base address of 20 bits from bit 12 on, which is set from the
  22-bit base address of a second-level table.
\<close>

definition page_entry :: "u32 \<Rightarrow> u32" where
  "page_entry addr = 2 OR push_bit 4 3 OR push_bit 12 (take_bit 20 (l2_base_addr addr))"

definition page_physical_address :: "u32 \<Rightarrow> u32" where
  "page_physical_address e = from_l2_base_addr (take_bit 20 (drop_bit 12 e))"

definition huge_page_physical_address :: "u32 \<Rightarrow> u32" where
  "huge_page_physical_address e = from_l2_base_addr (take_bit 16 (drop_bit 16 e))"

definition l1_num_entries :: nat where "l1_num_entries = 1024"

definition l2_num_entries :: nat where "l2_num_entries = 256"

section \<open>The page allocator\<close>

datatype backing = Mixed | Identity

text \<open>The slots of the slab allocator for second-level tables are \<open>sizeof(L2Table)\<close> bytes.\<close>

definition l2_table_size :: size_t where "l2_table_size = 1024"

record mmu =
  mm_physical_page_allocator :: page_broker
  mm_virtual_page_allocator :: page_broker
  mm_l1_table :: "u32 list"
  mm_l2_tables :: "ptr \<Rightarrow> u32 list option"
  mm_l2_table_allocator :: slab
  mm_spare_free_l2_page :: ptr
  mm_ttbr0 :: u32

definition mmu_init ::
    "page_broker \<Rightarrow> page_broker \<Rightarrow> region \<Rightarrow> mmu \<Rightarrow> mmu option" where
  "mmu_init physical_page_allocator virtual_page_allocator scratch_pages m = do {
     let m = m\<lparr>mm_l1_table := replicate l1_num_entries 0,
       mm_physical_page_allocator := physical_page_allocator, mm_virtual_page_allocator := virtual_page_allocator\<rparr>;
     l \<leftarrow> slab_add l2_table_size (region_ptr PageSize scratch_pages 0) (region_size PageSize scratch_pages) (mm_l2_table_allocator m);
     Some (m\<lparr>mm_l2_table_allocator := l, mm_spare_free_l2_page := nullptr\<rparr>)
   }"

definition phys_free :: "allocation \<Rightarrow> mmu \<Rightarrow> mmu option" where
  "phys_free a m = do { p \<leftarrow> broker_free a (mm_physical_page_allocator m); Some (m\<lparr>mm_physical_page_allocator := p\<rparr>) }"

definition virt_free :: "allocation \<Rightarrow> mmu \<Rightarrow> mmu option" where
  "virt_free a m = do { v \<leftarrow> broker_free a (mm_virtual_page_allocator m); Some (m\<lparr>mm_virtual_page_allocator := v\<rparr>) }"

definition phys_op ::
    "(page_broker \<Rightarrow> (allocation \<times> page_broker) option) \<Rightarrow> mmu \<Rightarrow> (allocation \<times> mmu) option" where
  "phys_op f m = do {
     (a, p) \<leftarrow> f (mm_physical_page_allocator m); Some (a, m\<lparr>mm_physical_page_allocator := p\<rparr>) }"

definition virt_op ::
    "(page_broker \<Rightarrow> (allocation \<times> page_broker) option) \<Rightarrow> mmu \<Rightarrow> (allocation \<times> mmu) option" where
  "virt_op f m = do {
     (a, v) \<leftarrow> f (mm_virtual_page_allocator m); Some (a, m\<lparr>mm_virtual_page_allocator := v\<rparr>) }"

definition try_reserve_page_unrecorded ::
    "size_t \<Rightarrow> page_alignment_level \<Rightarrow> backing \<Rightarrow> mmu \<Rightarrow> ((allocation \<times> allocation) \<times> mmu) option" where
  "try_reserve_page_unrecorded num_pages alignment b m = do {
     (phys_alloc, m) \<leftarrow> phys_op (broker_allocate num_pages alignment) m;
     (if \<not> allocation_bool phys_alloc then Some ((no_allocation, no_allocation), m)
      else do {
        let phys_region = region_from_ptr PageSize (al_ptr phys_alloc) (al_size phys_alloc);
        (virt_alloc, m) \<leftarrow> (case b of
            Mixed \<Rightarrow> virt_op (broker_allocate num_pages PALPage) m
          | Identity \<Rightarrow> virt_op (broker_reserve_region phys_region) m);
        (if b = Identity \<and> \<not> allocation_bool virt_alloc then None
         else if \<not> allocation_bool virt_alloc then do {
           m \<leftarrow> phys_free phys_alloc m;
           Some ((no_allocation, no_allocation), m)
         }
         else Some ((phys_alloc, virt_alloc), m))
      })
   }"

definition try_reserve_region_unrecorded ::
    "region \<Rightarrow> backing \<Rightarrow> mmu \<Rightarrow> ((allocation \<times> allocation) \<times> mmu) option" where
  "try_reserve_region_unrecorded r b m = do {
     (virt_alloc, m) \<leftarrow> virt_op (broker_reserve_region r) m;
     (if \<not> allocation_bool virt_alloc then Some ((no_allocation, no_allocation), m)
      else do {
        let virt_region = region_from_ptr PageSize (al_ptr virt_alloc) (al_size virt_alloc);
        (phys_alloc, m) \<leftarrow> (case b of
            Mixed \<Rightarrow> phys_op (broker_allocate (rg_length r) PALPage) m
          | Identity \<Rightarrow> phys_op (broker_reserve_region virt_region) m);
        (if \<not> allocation_bool phys_alloc then do {
           m \<leftarrow> virt_free virt_alloc m;
           Some ((no_allocation, no_allocation), m)
         }
         else Some ((phys_alloc, virt_alloc), m))
      })
   }"

section \<open>Recording in the tables\<close>

fun record_section_loop :: "region \<Rightarrow> region \<Rightarrow> u32 \<Rightarrow> nat \<Rightarrow> u32 list \<Rightarrow> u32 list option" where
  "record_section_loop phys_region virt_region l1_offset 0 l1 = Some l1"
| "record_section_loop phys_region virt_region l1_offset (Suc n) l1 = do {
     let virt_ptr = region_ptr SectionSize virt_region l1_offset;
     let phys_ptr = region_ptr SectionSize phys_region l1_offset;
     l1_entry \<leftarrow> arr_at l1 (l1_index virt_ptr);
     (if l1_entry_type l1_entry \<noteq> L1Fault then None
      else do {
        l1 \<leftarrow> arr_insert l1 (l1_index virt_ptr) (section_entry phys_ptr);
        record_section_loop phys_region virt_region (l1_offset + 1) n l1
      })
   }"

definition try_record_section_in_l1 :: "region \<Rightarrow> region \<Rightarrow> mmu \<Rightarrow> (bool \<times> mmu) option" where
  "try_record_section_in_l1 phys_region virt_region m =
     (if rg_length phys_region \<noteq> rg_length virt_region then Some (False, m)
      else do {
        l1 \<leftarrow> record_section_loop phys_region virt_region 0 (unat (rg_length virt_region)) (mm_l1_table m);
        Some (True, m\<lparr>mm_l1_table := l1\<rparr>)
      })"

text \<open>The pages of one second-level table; \<open>n\<close> counts the entries that are left.\<close>

fun record_page_loop :: "region \<Rightarrow> region \<Rightarrow> u32 \<Rightarrow> u32 \<Rightarrow> nat \<Rightarrow> u32 list \<Rightarrow> u32 list option" where
  "record_page_loop phys_region virt_region l1_offset l2_offset 0 l2 = Some l2"
| "record_page_loop phys_region virt_region l1_offset l2_offset (Suc n) l2 =
     (let offset = l1_offset * of_nat l2_num_entries + l2_offset in
      if \<not> offset < rg_length virt_region then Some l2
      else do {
        let virt_ptr = region_ptr PageSize virt_region offset;
        let phys_ptr = region_ptr PageSize phys_region offset;
        l2_entry \<leftarrow> arr_at l2 (l2_index virt_ptr);
        (if l2_entry_type l2_entry \<noteq> Some L2Fault then None
         else do {
           l2 \<leftarrow> arr_insert l2 (l2_index virt_ptr) (page_entry phys_ptr);
           record_page_loop phys_region virt_region l1_offset (l2_offset + 1) n l2
         })
      })"

text \<open>
  The second-level table for an entry of the first: the one it points at, or the backing, or one that
  \<open>reserve\<close> provides. \<open>Some None\<close> says that there is no memory for one.
\<close>

definition l2_table_for ::
    "(mmu \<Rightarrow> (allocation \<times> mmu) option) \<Rightarrow> ptr \<Rightarrow> ptr \<Rightarrow> mmu \<Rightarrow> (ptr option \<times> mmu) option" where
  "l2_table_for reserve l2_backing virt_ptr m = do {
     l1_entry \<leftarrow> arr_at (mm_l1_table m) (l1_index virt_ptr);
     (case l1_entry_type l1_entry of
        L1Section \<Rightarrow> None
      | L1SuperSection \<Rightarrow> None
      | L1L2Ptr \<Rightarrow> Some (Some (l2ptr_table l1_entry), m)
      | L1Fault \<Rightarrow> do {
          (table, m) \<leftarrow> (if l2_backing = nullptr then do {
              (l2_table_alloc, m) \<leftarrow> reserve m;
              Some (if allocation_bool l2_table_alloc then Some (al_ptr l2_table_alloc) else None, m)
            }
            else Some (Some l2_backing, m));
          (case table of
             None \<Rightarrow> Some (None, m)
           | Some table \<Rightarrow> do {
               l1 \<leftarrow> arr_insert (mm_l1_table m) (l1_index virt_ptr) (l2ptr_entry table);
               Some (Some table, m\<lparr>mm_l2_tables := (mm_l2_tables m)(table \<mapsto> replicate l2_num_entries 0),
                 mm_l1_table := l1\<rparr>)
             })
        })
   }"

fun record_l1_loop ::
    "(mmu \<Rightarrow> (allocation \<times> mmu) option) \<Rightarrow> region \<Rightarrow> region \<Rightarrow> ptr \<Rightarrow> u32 \<Rightarrow> nat \<Rightarrow> mmu \<Rightarrow> (bool \<times> mmu) option" where
  "record_l1_loop reserve phys_region virt_region l2_backing l1_offset 0 m = Some (True, m)"
| "record_l1_loop reserve phys_region virt_region l2_backing l1_offset (Suc n) m = do {
     let virt_ptr = region_ptr PageSize virt_region (l1_offset * of_nat l2_num_entries);
     (maybe_l2_table, m) \<leftarrow> l2_table_for reserve l2_backing virt_ptr m;
     (case maybe_l2_table of
        None \<Rightarrow> Some (False, m)
      | Some table \<Rightarrow> do {
          l2 \<leftarrow> mm_l2_tables m table;
          l2 \<leftarrow> record_page_loop phys_region virt_region l1_offset 0 l2_num_entries l2;
          record_l1_loop reserve phys_region virt_region l2_backing (l1_offset + 1) n
            (m\<lparr>mm_l2_tables := (mm_l2_tables m)(table \<mapsto> l2)\<rparr>)
        })
   }"

definition try_record_page_in_l1 ::
    "(mmu \<Rightarrow> (allocation \<times> mmu) option) \<Rightarrow> region \<Rightarrow> region \<Rightarrow> ptr \<Rightarrow> mmu \<Rightarrow> (bool \<times> mmu) option" where
  "try_record_page_in_l1 reserve phys_region virt_region l2_backing m =
     record_l1_loop reserve phys_region virt_region l2_backing 0
       (unat (divide_up (region_size PageSize virt_region) SectionSize)) m"

text \<open>
  Reserving a second-level table may record a page, which may reserve a table. Every round takes a page
  of physical memory; \<open>fuel\<close> bounds the rounds, and a recursion that is deeper is \<open>None\<close>.
\<close>

fun try_reserve_l2_table_entry :: "nat \<Rightarrow> mmu \<Rightarrow> (allocation \<times> mmu) option" where
  "try_reserve_l2_table_entry 0 m = None"
| "try_reserve_l2_table_entry (Suc fuel) m = do {
     (l2_alloc, l) \<leftarrow> slab_allocate l2_table_size (mm_l2_table_allocator m);
     let m = m\<lparr>mm_l2_table_allocator := l\<rparr>;
     (if allocation_bool l2_alloc then Some (l2_alloc, m)
      else do {
        ((alloc, _), m) \<leftarrow> try_reserve_page_unrecorded 1 PALPage Identity m;
        (if \<not> allocation_bool alloc then Some (no_allocation, m)
         else do {
           let r = region_from_ptr PageSize (al_ptr alloc) (al_size alloc);
           (ok, m) \<leftarrow> try_record_page_in_l1 (try_reserve_l2_table_entry fuel) r r (mm_spare_free_l2_page m) m;
           (if \<not> ok then None
            else do {
              l \<leftarrow> slab_add l2_table_size (al_ptr alloc) (al_size alloc) (mm_l2_table_allocator m);
              (alloc, l) \<leftarrow> slab_allocate l2_table_size l;
              (spare, l) \<leftarrow> slab_allocate l2_table_size l;
              Some (alloc, m\<lparr>mm_l2_table_allocator := l, mm_spare_free_l2_page := al_ptr spare\<rparr>)
            })
         })
      })
   }"

section \<open>Allocating and reserving\<close>

text \<open>When recording fails, both allocators are given the physical allocation, and the regions are returned.\<close>

definition unless_recorded :: "bool \<Rightarrow> allocation \<Rightarrow> mmu \<Rightarrow> mmu option" where
  "unless_recorded ok phys_alloc m =
     (if \<not> ok then do { m \<leftarrow> phys_free phys_alloc m; virt_free phys_alloc m } else Some m)"

definition empty_region :: region where "empty_region = \<lparr>rg_offset = 0, rg_length = 0\<rparr>"

definition mmu_reserve_region ::
    "nat \<Rightarrow> region \<Rightarrow> backing \<Rightarrow> mmu \<Rightarrow> ((region \<times> region) \<times> mmu) option" where
  "mmu_reserve_region fuel r b m = do {
     ((phys_alloc, virt_alloc), m) \<leftarrow> try_reserve_region_unrecorded r b m;
     (if \<not> allocation_bool phys_alloc then Some ((empty_region, empty_region), m)
      else do {
        let phys_region = region_from_ptr PageSize (al_ptr phys_alloc) (al_size phys_alloc);
        let virt_region = region_from_ptr PageSize (al_ptr virt_alloc) (al_size virt_alloc);
        (if rg_length virt_region \<noteq> rg_length phys_region then None
         else do {
           (ok, m) \<leftarrow> try_record_page_in_l1 (try_reserve_l2_table_entry fuel) phys_region virt_region nullptr m;
           m \<leftarrow> unless_recorded ok phys_alloc m;
           Some ((phys_region, virt_region), m)
         })
      })
   }"

definition mmu_reserve_section_region ::
    "region \<Rightarrow> backing \<Rightarrow> mmu \<Rightarrow> ((region \<times> region) \<times> mmu) option" where
  "mmu_reserve_section_region r b m = do {
     ((phys_alloc, virt_alloc), m) \<leftarrow> try_reserve_region_unrecorded (as_page_region r) b m;
     (if \<not> allocation_bool phys_alloc then Some ((empty_region, empty_region), m)
      else do {
        let phys_region = region_from_ptr SectionSize (al_ptr phys_alloc) (al_size phys_alloc);
        let virt_region = region_from_ptr SectionSize (al_ptr virt_alloc) (al_size virt_alloc);
        (ok, m) \<leftarrow> try_record_section_in_l1 phys_region virt_region m;
        m \<leftarrow> unless_recorded ok phys_alloc m;
        Some ((phys_region, virt_region), m)
      })
   }"

definition mmu_allocate_pages ::
    "nat \<Rightarrow> size_t \<Rightarrow> page_alignment_level \<Rightarrow> backing \<Rightarrow> mmu \<Rightarrow> ((region \<times> region) \<times> mmu) option" where
  "mmu_allocate_pages fuel num_pages alignment b m = do {
     ((phys_alloc, virt_alloc), m) \<leftarrow> try_reserve_page_unrecorded num_pages alignment b m;
     (if \<not> allocation_bool phys_alloc then Some ((empty_region, empty_region), m)
      else do {
        let phys_region = region_from_ptr PageSize (al_ptr phys_alloc) (al_size phys_alloc);
        let virt_region = region_from_ptr PageSize (al_ptr virt_alloc) (al_size virt_alloc);
        (ok, m) \<leftarrow> try_record_page_in_l1 (try_reserve_l2_table_entry fuel) phys_region virt_region nullptr m;
        m \<leftarrow> unless_recorded ok phys_alloc m;
        Some ((phys_region, virt_region), m)
      })
   }"

definition mmu_allocate :: "nat \<Rightarrow> size_t \<Rightarrow> mmu \<Rightarrow> (allocation \<times> mmu) option" where
  "mmu_allocate fuel n m = do {
     let num_pages = align_up_two n PageSize div PageSize;
     ((_, virt_region), m) \<leftarrow> mmu_allocate_pages fuel num_pages PALPage Mixed m;
     Some (\<lparr>al_ptr = region_ptr PageSize virt_region 0, al_size = region_size PageSize virt_region\<rparr>, m)
   }"

definition mmu_preferred_size :: "size_t \<Rightarrow> size_t" where
  "mmu_preferred_size requested_size = align_up_two requested_size PageSize"

definition mmu_free :: "allocation \<Rightarrow> mmu \<Rightarrow> (size_t \<times> mmu) option" where
  "mmu_free alloc m = None"

definition set_l1_table :: "ptr \<Rightarrow> mmu \<Rightarrow> mmu" where
  "set_l1_table l1_addr m = m\<lparr>mm_ttbr0 := l1_addr AND NOT (push_bit 14 1)\<rparr>"

definition l1_table :: "mmu \<Rightarrow> ptr" where
  "l1_table m = mm_ttbr0 m AND NOT (push_bit 14 1)"

section \<open>Initialisation\<close>

definition DEVICES_START :: u32 where "DEVICES_START = 0x3C000000"

definition DEVICES_END :: u32 where "DEVICES_END = 0x40000000"

definition PHYSICAL_MEMORY_END_PAGES :: u32 where "PHYSICAL_MEMORY_END_PAGES = 131072"

definition MEMORY_END_PAGES :: u32 where "MEMORY_END_PAGES = 1048576"

definition init_page_tables :: "ptr \<Rightarrow> mmu \<Rightarrow> mmu option" where
  "init_page_tables code_end m = do {
     let code_section_end = align_up_two code_end SectionSize;
     let code_region = region_from_range SectionSize 0 code_section_end;
     let vm_region = \<lparr>rg_offset = 0, rg_length = MEMORY_END_PAGES\<rparr>;
     let phys_region = \<lparr>rg_offset = 0, rg_length = PHYSICAL_MEMORY_END_PAGES\<rparr>;
     let l1_region = \<lparr>rg_offset = region_end_offset code_region, rg_length = 1\<rparr>;
     let scratch_region = \<lparr>rg_offset = region_end_offset l1_region, rg_length = 1\<rparr>;
     let (pv_scratch_region, page_scratch_region) = region_halve (as_page_region scratch_region);
     let (phys_scratch_region, virt_scratch_region) = region_halve pv_scratch_region;
     let device_region = region_from_range SectionSize DEVICES_START DEVICES_END;
     p \<leftarrow> broker_init phys_region phys_scratch_region (mm_physical_page_allocator m);
     p \<leftarrow> broker_add (as_page_region device_region) p;
     v \<leftarrow> broker_init vm_region virt_scratch_region (mm_virtual_page_allocator m);
     m \<leftarrow> mmu_init p v page_scratch_region m;
     (_, m) \<leftarrow> mmu_reserve_section_region code_region Identity m;
     (_, m) \<leftarrow> mmu_reserve_section_region l1_region Identity m;
     (_, m) \<leftarrow> mmu_reserve_section_region scratch_region Mixed m;
     (_, m) \<leftarrow> mmu_reserve_section_region device_region Identity m;
     Some (set_l1_table (region_ptr SectionSize l1_region 0) m)
   }"

section \<open>The entries hold their addresses\<close>

text \<open>What the hardware reads: the base address of a small page is the field of 20 bits, from bit 12 on.\<close>

definition hardware_page_address :: "u32 \<Rightarrow> u32" where
  "hardware_page_address e = push_bit 12 (take_bit 20 (drop_bit 12 e))"

lemma bits_of_aligned:
  "a mod SectionSize = 0 \<Longrightarrow> take_bit 20 a = (0 :: u32)"
  "a mod PageSize = 0 \<Longrightarrow> take_bit 12 a = (0 :: u32)"
  "a mod 1024 = 0 \<Longrightarrow> take_bit 10 a = (0 :: u32)"
  "a < DEVICES_END \<Longrightarrow> take_bit 30 a = a"
  by (simp_all add: take_bit_eq_mod SectionSize_def PageSize_def DEVICES_END_def mod_word_less)

lemma bit_low: "take_bit n a = 0 \<Longrightarrow> bit (a :: u32) i \<Longrightarrow> n \<le> i"
  by (metis bit_0_eq bit_take_bit_iff bot_apply bot_bool_def not_le)

lemma bit_high: "take_bit n a = a \<Longrightarrow> bit (a :: u32) i \<Longrightarrow> i < n"
  by (metis bit_take_bit_iff)

lemma bits_window:
  assumes "\<And>i. bit a i \<Longrightarrow> k \<le> i" and "\<And>i. bit a i \<Longrightarrow> i < k + w"
  shows "push_bit k (take_bit w (drop_bit k a)) = (a :: u32)"
proof (rule bit_word_eqI)
  fix n assume n: "n < LENGTH(32)"
  show "bit (push_bit k (take_bit w (drop_bit k a))) n = bit a n"
    using assms [of n] n by (cases "k \<le> n") (auto simp: bit_simps)
qed

lemma l1_entry_type_section [simp]: "l1_entry_type (section_entry a) = L1Section"
proof -
  have "take_bit 2 (section_entry a) = 2"
    unfolding section_entry_def by (rule bit_word_eqI) (auto simp: bit_simps)
  then show ?thesis by (simp add: l1_entry_type_def)
qed

lemma l1_entry_type_l2ptr [simp]: "l1_entry_type (l2ptr_entry a) = L1L2Ptr"
proof -
  have "take_bit 2 (l2ptr_entry a) = 1"
    unfolding l2ptr_entry_def by (rule bit_word_eqI) (auto simp: bit_simps)
  then show ?thesis by (simp add: l1_entry_type_def)
qed

lemma l2_entry_type_page [simp]: "l2_entry_type (page_entry a) = Some L2Page"
proof -
  have "take_bit 2 (page_entry a) = 2"
    unfolding page_entry_def by (rule bit_word_eqI) (auto simp: bit_simps)
  then show ?thesis by (simp add: l2_entry_type_def)
qed

lemma entry_types_0 [simp]: "l1_entry_type 0 = L1Fault" "l2_entry_type 0 = Some L2Fault"
  by (simp_all add: l1_entry_type_def l2_entry_type_def)

lemma section_address_bits:
  "section_physical_address (section_entry a) = push_bit 20 (take_bit 10 (drop_bit 20 a))"
  unfolding section_physical_address_def section_entry_def from_l1_base_addr_def l1_base_addr_def
  by (rule bit_word_eqI) (auto simp: bit_simps)

lemma l2ptr_address_bits: "l2ptr_table (l2ptr_entry a) = push_bit 10 (drop_bit 10 a)"
  unfolding l2ptr_table_def l2ptr_entry_def from_l2_base_addr_def l2_base_addr_def
  by (rule bit_word_eqI) (auto simp: bit_simps)

lemma page_address_bits:
  "page_physical_address (page_entry a) = push_bit 10 (take_bit 20 (drop_bit 10 a))"
  unfolding page_physical_address_def page_entry_def from_l2_base_addr_def l2_base_addr_def
  by (rule bit_word_eqI) (auto simp: bit_simps)

lemma hardware_page_bits: "hardware_page_address (page_entry a) = push_bit 12 (take_bit 20 (drop_bit 10 a))"
  unfolding hardware_page_address_def page_entry_def l2_base_addr_def
  by (rule bit_word_eqI) (auto simp: bit_simps)

lemma section_address:
  assumes "a mod SectionSize = 0" and "a < DEVICES_END"
  shows "section_physical_address (section_entry a) = a"
  unfolding section_address_bits
  by (rule bits_window) (auto dest: bit_low [OF bits_of_aligned(1) [OF assms(1)]]
      bit_high [OF bits_of_aligned(4) [OF assms(2)]])

lemma l2ptr_address:
  assumes "a mod 1024 = 0"
  shows "l2ptr_table (l2ptr_entry a) = a"
proof -
  have "push_bit 10 (take_bit 22 (drop_bit 10 a)) = a"
    by (rule bits_window) (auto dest: bit_low [OF bits_of_aligned(3) [OF assms(1)]] bit_imp_le_length)
  moreover have "push_bit 10 (take_bit 22 (drop_bit 10 a)) = push_bit 10 (drop_bit 10 a)"
    by (rule bit_word_eqI) (auto simp: bit_simps)
  ultimately show ?thesis by (simp add: l2ptr_address_bits)
qed

lemma page_address:
  assumes "a mod PageSize = 0" and "a < DEVICES_END"
  shows "page_physical_address (page_entry a) = a"
  unfolding page_address_bits
  by (rule bits_window) (force dest: bit_low [OF bits_of_aligned(2) [OF assms(1)]]
      bit_high [OF bits_of_aligned(4) [OF assms(2)]])+

lemma hardware_page_address_is_4_times:
  assumes "a mod PageSize = 0" and "a < DEVICES_END"
  shows "hardware_page_address (page_entry a) = 4 * a"
proof -
  have "push_bit 12 (take_bit 20 (drop_bit 10 a)) = push_bit 2 a"
  proof (rule bit_word_eqI)
    fix n assume n: "n < LENGTH(32)"
    have low: "bit a i \<Longrightarrow> 12 \<le> i" for i by (rule bit_low [OF bits_of_aligned(2) [OF assms(1)]])
    have high: "bit a i \<Longrightarrow> i < 30" for i by (rule bit_high [OF bits_of_aligned(4) [OF assms(2)]])
    show "bit (push_bit 12 (take_bit 20 (drop_bit 10 a))) n = bit (push_bit 2 a) n"
    proof (cases "12 \<le> n")
      case True
      then have "10 + (n - 12) = n - 2" by simp
      then show ?thesis using True n high [of "n - 2"] by (auto simp: bit_simps)
    next
      case False
      then show ?thesis using low [of "n - 2"] by (auto simp: bit_simps)
    qed
  qed
  then show ?thesis by (simp add: hardware_page_bits push_bit_eq_mult mult.commute)
qed

section \<open>Translation\<close>

text \<open>
  What the tables map a virtual address to, by the code's own reading of its entries: the abstract
  view of the tables that the theorems below are stated with.
\<close>

definition walk :: "mmu \<Rightarrow> ptr \<Rightarrow> ptr option" where
  "walk m va =
     (let e = mm_l1_table m ! l1_index va in
      case l1_entry_type e of
        L1Section \<Rightarrow> Some (section_physical_address e + take_bit 20 va)
      | L1L2Ptr \<Rightarrow> (case mm_l2_tables m (l2ptr_table e) of
          None \<Rightarrow> None
        | Some t \<Rightarrow> if l2_entry_type (t ! l2_index va) = Some L2Page
                   then Some (page_physical_address (t ! l2_index va) + take_bit 12 va) else None)
      | _ \<Rightarrow> None)"

lemma unat_take_bit_mod: "unat (take_bit n (x :: u32)) = unat x mod 2 ^ n"
  by (simp add: unsigned_take_bit_eq flip: take_bit_eq_mod)

lemma region_ptr_push_bit:
  "region_ptr SectionSize r k = push_bit 20 (rg_offset r + k)"
  "region_ptr PageSize r k = push_bit 12 (rg_offset r + k)"
  by (simp_all add: region_ptr_def SectionSize_def PageSize_def push_bit_eq_mult)

lemma l1_index_section: "l1_index (region_ptr SectionSize r k) = unat (rg_offset r + k) mod 1024"
proof -
  have "take_bit 10 (drop_bit 20 (push_bit 20 x)) = (take_bit 10 x :: u32)" for x
    by (rule bit_word_eqI) (auto simp: bit_simps)
  then show ?thesis by (simp only: l1_index_def region_ptr_push_bit unat_take_bit_mod) simp
qed

lemma l1_index_page: "l1_index (region_ptr PageSize r k) = unat (rg_offset r + k) div 256 mod 1024"
proof -
  have "take_bit 10 (drop_bit 20 (push_bit 12 x)) = (take_bit 10 (drop_bit 8 x) :: u32)" for x
    by (rule bit_word_eqI) (auto simp: bit_simps add.commute)
  then show ?thesis
    by (simp only: l1_index_def region_ptr_push_bit unat_take_bit_mod unat_drop_bit_eq) (simp add: drop_bit_eq_div)
qed

lemma l2_index_page: "l2_index (region_ptr PageSize r k) = unat (rg_offset r + k) mod 256"
proof -
  have "take_bit 8 (drop_bit 12 (push_bit 12 x)) = (take_bit 8 x :: u32)" for x
    by (rule bit_word_eqI) (auto simp: bit_simps)
  then show ?thesis by (simp only: l2_index_def region_ptr_push_bit unat_take_bit_mod) simp
qed

lemma l1_index_less: "l1_index va < 1024"
  by (simp only: l1_index_def unat_take_bit_mod) simp

lemma l2_index_less: "l2_index va < 256"
  by (simp only: l2_index_def unat_take_bit_mod) simp

lemma map_upt_nth: "length xs = n \<Longrightarrow> (\<And>j. j < n \<Longrightarrow> f j = xs ! j) \<Longrightarrow> map f [0..<n] = xs"
  by (rule nth_equalityI) auto

lemma record_section_loop_eq:
  assumes "length l1 = l1_num_entries" and "unat (rg_offset v) + unat k + n \<le> l1_num_entries"
  shows "record_section_loop p v k n l1 =
    (if \<forall>i < n. l1_entry_type (l1 ! (unat (rg_offset v) + unat k + i)) = L1Fault
     then Some (map (\<lambda>j. if unat (rg_offset v) + unat k \<le> j \<and> j < unat (rg_offset v) + unat k + n
       then section_entry (region_ptr SectionSize p (of_nat (j - unat (rg_offset v)))) else l1 ! j)
       [0..<l1_num_entries])
     else None)"
  using assms
proof (induction n arbitrary: k l1)
  case 0
  then show ?case by (auto intro!: map_upt_nth [symmetric])
next
  case (Suc n)
  let ?o = "unat (rg_offset v)" and ?idx = "unat (rg_offset v) + unat k"
  have small: "?idx < 1024" using Suc.prems(2) by (simp add: l1_num_entries_def)
  have idx: "l1_index (region_ptr SectionSize v k) = ?idx"
    using small by (simp add: l1_index_section unat_add_lt)
  have k: "unat (k + 1) = unat k + 1"
    using unat_add_lt [of k 1] small by simp
  show ?case
  proof (cases "l1_entry_type (l1 ! ?idx) = L1Fault")
    case False
    moreover have "?idx < length l1" using Suc.prems small by (simp add: l1_num_entries_def)
    moreover have "\<exists>i < Suc n. l1_entry_type (l1 ! (?idx + i)) \<noteq> L1Fault"
      using False by (intro exI [of _ 0]) simp
    ultimately show ?thesis by (auto simp: idx arr_at_def Let_def)
  next
    case True
    let ?l1 = "l1[?idx := section_entry (region_ptr SectionSize p k)]"
    have step: "record_section_loop p v k (Suc n) l1 = record_section_loop p v (k + 1) n ?l1"
      using True Suc.prems small by (simp add: idx arr_at_def arr_insert_def Let_def l1_num_entries_def)
    have all: "(\<forall>i < n. l1_entry_type (?l1 ! (?o + unat (k + 1) + i)) = L1Fault) \<longleftrightarrow>
        (\<forall>i < Suc n. l1_entry_type (l1 ! (?idx + i)) = L1Fault)"
      using True by (auto simp: k All_less_Suc2)
    have len: "length ?l1 = l1_num_entries" "?o + unat (k + 1) + n \<le> l1_num_entries"
      using Suc.prems by (simp_all add: k)
    show ?thesis
      unfolding step Suc.IH [OF len] all
      by (rule if_cong [OF refl _ refl])
        (use Suc.prems small in \<open>auto simp: k l1_num_entries_def nth_list_update intro!: nth_equalityI\<close>)
  qed
qed

definition covers :: "size_t \<Rightarrow> region \<Rightarrow> ptr \<Rightarrow> bool" where
  "covers magnitude r va \<longleftrightarrow>
     unat (rg_offset r) \<le> unat va div unat magnitude \<and>
     unat va div unat magnitude < unat (rg_offset r) + unat (rg_length r)"

lemma unat_push_bit_small: "unat x < 2 ^ n \<Longrightarrow> n + k \<le> 32 \<Longrightarrow> unat (push_bit k (x :: u32)) = unat x * 2 ^ k"
proof -
  assume x: "unat x < 2 ^ n" and nk: "n + k \<le> 32"
  have "unat x * 2 ^ k < 2 ^ n * 2 ^ k" using x by simp
  also have "\<dots> \<le> 2 ^ 32" unfolding power_add [symmetric] by (rule power_increasing) (use nk in simp_all)
  finally show ?thesis
    unfolding unsigned_push_bit_eq by (simp add: push_bit_eq_mult take_bit_nat_eq_self)
qed

lemma region_ptr_section_ok:
  assumes "unat (rg_offset r + k) < 1024"
  shows "region_ptr SectionSize r k mod SectionSize = 0" and "region_ptr SectionSize r k < DEVICES_END"
proof -
  have "take_bit 20 (push_bit 20 (rg_offset r + k)) = 0" by (rule bit_word_eqI) (auto simp: bit_simps)
  then show "region_ptr SectionSize r k mod SectionSize = 0"
    by (simp only: region_ptr_push_bit take_bit_eq_mod) (simp add: SectionSize_def)
  have "unat (push_bit 20 (rg_offset r + k)) = unat (rg_offset r + k) * 2 ^ 20"
    by (rule unat_push_bit_small [where n = 10]) (use assms in simp_all)
  then show "region_ptr SectionSize r k < DEVICES_END"
    using assms by (simp add: region_ptr_push_bit DEVICES_END_def unat_word_lt)
qed

lemma l1_index_below: "va < DEVICES_END \<Longrightarrow> l1_index va = unat va div 2 ^ 20"
proof -
  assume "va < DEVICES_END"
  then have "unat va < 2 ^ 30" by (simp add: DEVICES_END_def unat_word_lt)
  then have "unat va div 2 ^ 20 < 1024" by (simp add: div_less_iff_less_mult)
  then show ?thesis
    by (simp only: l1_index_def unat_take_bit_mod unat_drop_bit_eq) (simp add: drop_bit_eq_div)
qed

lemma translate_section:
  assumes "unat (rg_offset v) \<le> l1_index va" and "va < DEVICES_END"
  shows "region_ptr SectionSize p (of_nat (l1_index va - unat (rg_offset v))) + take_bit 20 va =
    va - region_ptr SectionSize v 0 + region_ptr SectionSize p 0"
proof -
  have u: "unat (drop_bit 20 va) = l1_index va"
    by (simp only: l1_index_below [OF assms(2)] unat_drop_bit_eq) (simp add: drop_bit_eq_div)
  have "drop_bit 20 va = of_nat (l1_index va)" by (simp flip: u)
  then have k: "of_nat (l1_index va - unat (rg_offset v)) = drop_bit 20 va - rg_offset v"
    using assms(1) by (simp add: of_nat_diff)
  have "va = push_bit 20 (drop_bit 20 va) + take_bit 20 va" by (simp add: bits_ident)
  then have va: "va = drop_bit 20 va * SectionSize + take_bit 20 va"
    by (simp add: push_bit_eq_mult SectionSize_def)
  show ?thesis
    by (subst (2) va) (simp add: region_ptr_def k algebra_simps)
qed

definition blank_mmu :: "mmu" where
  "blank_mmu = \<lparr>mm_physical_page_allocator = broker_empty, mm_virtual_page_allocator = broker_empty,
     mm_l1_table = replicate l1_num_entries 0, mm_l2_tables = Map.empty, mm_l2_table_allocator = slab_empty,
     mm_spare_free_l2_page = nullptr, mm_ttbr0 = 0\<rparr>"

lemma record_sections_l1:
  assumes "length (mm_l1_table m) = l1_num_entries" and "rg_length p = rg_length v"
    and "unat (rg_offset v) + unat (rg_length v) \<le> l1_num_entries"
    and "\<forall>i < unat (rg_length v). l1_entry_type (mm_l1_table m ! (unat (rg_offset v) + i)) = L1Fault"
  shows "try_record_section_in_l1 p v m = Some (True, m\<lparr>mm_l1_table := map (\<lambda>j.
      if unat (rg_offset v) \<le> j \<and> j < unat (rg_offset v) + unat (rg_length v)
      then section_entry (region_ptr SectionSize p (of_nat (j - unat (rg_offset v)))) else mm_l1_table m ! j)
    [0..<l1_num_entries]\<rparr>)"
  using assms by (simp add: try_record_section_in_l1_def record_section_loop_eq)

text \<open>
  Recording sections (\<open>try\_record\_section\_in\_l1\<close>) when none of them is mapped: it succeeds, every address
  of the virtual sections then translates to the address at the same distance in the physical
  sections, and every other address below 1 GiB translates as before.
\<close>

lemma sections_are_mapped:
  assumes "length (mm_l1_table m) = l1_num_entries" and "rg_length p = rg_length v"
    and "unat (rg_offset v) + unat (rg_length v) \<le> l1_num_entries"
    and "unat (rg_offset p) + unat (rg_length p) \<le> l1_num_entries"
    and "\<forall>i < unat (rg_length v). l1_entry_type (mm_l1_table m ! (unat (rg_offset v) + i)) = L1Fault"
  shows "\<exists>m'. try_record_section_in_l1 p v m = Some (True, m') \<and>
    (\<forall>va < DEVICES_END. walk m' va =
      (if covers SectionSize v va then Some (va - region_ptr SectionSize v 0 + region_ptr SectionSize p 0)
       else walk m va))"
proof -
  let ?o = "unat (rg_offset v)" and ?n = "unat (rg_length v)"
  let ?e = "\<lambda>j. section_entry (region_ptr SectionSize p (of_nat (j - ?o)))"
  let ?l1 = "map (\<lambda>j. if ?o \<le> j \<and> j < ?o + ?n then ?e j else mm_l1_table m ! j) [0..<l1_num_entries]"
  have at: "?l1 ! l1_index va =
      (if covers SectionSize v va then ?e (l1_index va) else mm_l1_table m ! l1_index va)"
    if "va < DEVICES_END" for va
    using l1_index_less [of va] l1_index_below [OF that]
    by (simp add: l1_num_entries_def covers_def SectionSize_def)
  have phys: "section_physical_address (?e (l1_index va)) = region_ptr SectionSize p (of_nat (l1_index va - ?o))"
    if va: "va < DEVICES_END" and c: "covers SectionSize v va" for va
  proof -
    have "l1_index va - ?o < ?n" using c l1_index_below [OF va] by (auto simp: covers_def SectionSize_def)
    moreover from this have "unat (of_nat (l1_index va - ?o) :: u32) = l1_index va - ?o"
      using l1_index_less [of va] by (intro unat_of_nat_lt) simp
    ultimately have "unat (rg_offset p + of_nat (l1_index va - ?o)) < 1024"
      using assms(2,4) by (subst unat_add_lt) (simp_all add: l1_num_entries_def)
    then show ?thesis by (intro section_address region_ptr_section_ok)
  qed
  have "walk (m\<lparr>mm_l1_table := ?l1\<rparr>) va =
      (if covers SectionSize v va then Some (va - region_ptr SectionSize v 0 + region_ptr SectionSize p 0)
       else walk m va)" if "va < DEVICES_END" for va
  proof (cases "covers SectionSize v va")
    case True
    moreover have "?o \<le> l1_index va"
      using True by (simp add: l1_index_below [OF that] covers_def SectionSize_def)
    ultimately show ?thesis
      using phys [OF that True] translate_section [of v va p] that by (simp add: walk_def at Let_def)
  next
    case False
    then show ?thesis using that by (simp add: walk_def at Let_def split: l1_type.split)
  qed
  then show ?thesis using record_sections_l1 [OF assms(1-3,5)] by blast
qed

section \<open>Recording pages\<close>

lemma l2_index_in_section:
  assumes "unat (rg_offset v) mod 256 + unat k < 256" and "unat (rg_offset v) + unat k < 2 ^ 32"
  shows "l2_index (region_ptr PageSize v k) = unat (rg_offset v) mod 256 + unat k"
proof -
  have "unat (rg_offset v + k) = unat (rg_offset v) + unat k" using assms(2) by (intro unat_add_lt) simp
  then have "l2_index (region_ptr PageSize v k) = (unat (rg_offset v) + unat k) mod 256" by (simp add: l2_index_page)
  also have "\<dots> = (unat (rg_offset v) mod 256 + unat k) mod 256" by (simp add: mod_add_left_eq)
  finally show ?thesis using assms(1) by simp
qed

lemma record_page_loop_eq:
  assumes "length l2 = l2_num_entries" and "unat (rg_offset v) mod 256 + unat (rg_length v) \<le> 256"
    and "unat (rg_offset v) + unat (rg_length v) < 2 ^ 32"
    and "unat k \<le> unat (rg_length v)" and "unat (rg_length v) \<le> unat k + n"
  shows "record_page_loop p v 0 k n l2 =
    (if \<forall>i. unat k \<le> i \<and> i < unat (rg_length v) \<longrightarrow>
          l2_entry_type (l2 ! (unat (rg_offset v) mod 256 + i)) = Some L2Fault
     then Some (map (\<lambda>j. if unat (rg_offset v) mod 256 + unat k \<le> j \<and> j < unat (rg_offset v) mod 256 + unat (rg_length v)
       then page_entry (region_ptr PageSize p (of_nat (j - unat (rg_offset v) mod 256))) else l2 ! j)
       [0..<l2_num_entries])
     else None)"
  using assms
proof (induction n arbitrary: k l2)
  case 0
  then show ?case by (auto intro!: map_upt_nth [symmetric])
next
  case (Suc n)
  let ?o = "unat (rg_offset v) mod 256" and ?n = "unat (rg_length v)"
  show ?case
  proof (cases "unat k < ?n")
    case False
    then have "\<not> k < rg_length v" by (simp add: unat_word_lt)
    then show ?thesis using False Suc.prems by (auto simp: Let_def intro!: map_upt_nth [symmetric])
  next
    case True
    then have less: "k < rg_length v" by (simp add: unat_word_lt)
    have k: "unat (k + 1) = unat k + 1" by (rule unat_inc [OF less])
    have idx: "l2_index (region_ptr PageSize v k) = ?o + unat k"
      using True Suc.prems by (intro l2_index_in_section) simp_all
    have small: "?o + unat k < length l2" using True Suc.prems by (simp add: l2_num_entries_def)
    show ?thesis
    proof (cases "l2_entry_type (l2 ! (?o + unat k)) = Some L2Fault")
      case False
      moreover have "\<exists>i. unat k \<le> i \<and> i < ?n \<and> l2_entry_type (l2 ! (?o + i)) \<noteq> Some L2Fault"
        using False True by blast
      ultimately show ?thesis using less small by (auto simp: idx arr_at_def Let_def)
    next
      case fault: True
      let ?l2 = "l2[?o + unat k := page_entry (region_ptr PageSize p k)]"
      have step: "record_page_loop p v 0 k (Suc n) l2 = record_page_loop p v 0 (k + 1) n ?l2"
        using fault less small by (simp add: idx arr_at_def arr_insert_def Let_def)
      have all: "(\<forall>i. unat (k + 1) \<le> i \<and> i < ?n \<longrightarrow> l2_entry_type (?l2 ! (?o + i)) = Some L2Fault) \<longleftrightarrow>
          (\<forall>i. unat k \<le> i \<and> i < ?n \<longrightarrow> l2_entry_type (l2 ! (?o + i)) = Some L2Fault)"
        using fault by (auto simp: k) (metis Suc_leI le_neq_implies_less)
      have prems: "length ?l2 = l2_num_entries" "unat (k + 1) \<le> ?n" "?n \<le> unat (k + 1) + n"
        using Suc.prems True by (simp_all add: k)
      show ?thesis
        unfolding step Suc.IH [OF prems(1) Suc.prems(2,3) prems(2,3)] all
        by (rule if_cong [OF refl _ refl])
          (use Suc.prems True in \<open>auto simp: k l2_num_entries_def nth_list_update intro!: nth_equalityI\<close>)
    qed
  qed
qed

lemma one_table_to_walk:
  assumes "0 < unat (rg_length v)" and "unat (rg_length v) \<le> 256"
  shows "unat (divide_up (region_size PageSize v) SectionSize) = 1"
proof -
  have "unat (region_size PageSize v) = unat (rg_length v) * 4096"
    using assms by (simp add: region_size_def PageSize_def unat_word_ariths)
  then show ?thesis
    using assms by (subst unat_divide_up) (auto simp: SectionSize_def intro!: div_nat_eqI)
qed

text \<open>
  The first-level entry of the first page of \<open>v\<close> points at the table \<open>t\<close> with the entries \<open>l2\<close>, or it
  is empty and the backing \<open>t\<close> becomes its table.
\<close>

definition table_ready :: "mmu \<Rightarrow> region \<Rightarrow> ptr \<Rightarrow> ptr \<Rightarrow> u32 list \<Rightarrow> bool" where
  "table_ready m v l2_backing t l2 \<longleftrightarrow>
     length (mm_l1_table m) = l1_num_entries \<and> length l2 = l2_num_entries \<and>
     (let e = mm_l1_table m ! l1_index (region_ptr PageSize v 0) in
      (l1_entry_type e = L1L2Ptr \<and> l2ptr_table e = t \<and> mm_l2_tables m t = Some l2) \<or>
      (l1_entry_type e = L1Fault \<and> l2_backing = t \<and> t \<noteq> nullptr \<and> t mod 1024 = 0 \<and> l2 = replicate l2_num_entries 0))"

definition with_table :: "region \<Rightarrow> ptr \<Rightarrow> u32 list \<Rightarrow> mmu \<Rightarrow> mmu" where
  "with_table v t l2 m = m\<lparr>mm_l2_tables := (mm_l2_tables m)(t \<mapsto> l2),
     mm_l1_table := (if l1_entry_type (mm_l1_table m ! l1_index (region_ptr PageSize v 0)) = L1L2Ptr then mm_l1_table m
       else (mm_l1_table m)[l1_index (region_ptr PageSize v 0) := l2ptr_entry t])\<rparr>"

definition paged :: "region \<Rightarrow> region \<Rightarrow> u32 list \<Rightarrow> u32 list" where
  "paged p v l2 = map (\<lambda>j. if unat (rg_offset v) mod 256 \<le> j \<and> j < unat (rg_offset v) mod 256 + unat (rg_length v)
     then page_entry (region_ptr PageSize p (of_nat (j - unat (rg_offset v) mod 256))) else l2 ! j) [0..<l2_num_entries]"

lemma paged_at:
  "k < unat (rg_length v) \<Longrightarrow> unat (rg_offset v) mod 256 + unat (rg_length v) \<le> 256 \<Longrightarrow>
    paged p v l2 ! (unat (rg_offset v) mod 256 + k) = page_entry (region_ptr PageSize p (of_nat k))"
  by (simp add: paged_def l2_num_entries_def)

lemma record_pages_one_table:
  assumes "table_ready m v b t l2" and "0 < unat (rg_length v)"
    and "unat (rg_offset v) mod 256 + unat (rg_length v) \<le> 256"
    and "unat (rg_offset v) + unat (rg_length v) < 2 ^ 32"
    and "\<forall>i < unat (rg_length v). l2_entry_type (l2 ! (unat (rg_offset v) mod 256 + i)) = Some L2Fault"
  shows "try_record_page_in_l1 reserve p v b m = Some (True, with_table v t (paged p v l2) m)"
proof -
  have walk1: "unat (divide_up (region_size PageSize v) SectionSize) = Suc 0"
    using one_table_to_walk [of v] assms(2,3) by simp
  have idx: "l1_index (region_ptr PageSize v 0) < length (mm_l1_table m)"
    using assms(1) l1_index_less by (simp add: table_ready_def l1_num_entries_def)
  have "l2_table_for reserve b (region_ptr PageSize v 0) m = Some (Some t, with_table v t l2 m)"
    using assms(1) idx
    by (auto simp: table_ready_def l2_table_for_def Let_def arr_at_def arr_insert_def with_table_def
        fun_upd_idem)
  moreover have "record_page_loop p v 0 0 l2_num_entries l2 = Some (paged p v l2)"
    using assms(1-5) by (subst record_page_loop_eq) (auto simp: table_ready_def paged_def l2_num_entries_def)
  ultimately show ?thesis
    by (simp add: try_record_page_in_l1_def walk1 Let_def with_table_def)
qed

text \<open>When the section has no table, recording takes the memory that \<open>reserve\<close> gives, as if it were the backing.\<close>

lemma record_pages_reserved_table:
  assumes "reserve m = Some (a, m1)" and "allocation_bool a" and "al_ptr a \<noteq> nullptr"
    and "0 < unat (rg_length v)" and "unat (rg_offset v) mod 256 + unat (rg_length v) \<le> 256"
    and "length (mm_l1_table m) = l1_num_entries" and "mm_l1_table m1 = mm_l1_table m"
    and "l1_entry_type (mm_l1_table m ! l1_index (region_ptr PageSize v 0)) = L1Fault"
  shows "try_record_page_in_l1 reserve p v nullptr m = try_record_page_in_l1 reserve p v (al_ptr a) m1"
proof -
  have walk1: "unat (divide_up (region_size PageSize v) SectionSize) = Suc 0"
    using one_table_to_walk [of v] assms(4,5) by simp
  have "l2_table_for reserve nullptr (region_ptr PageSize v 0) m = l2_table_for reserve (al_ptr a) (region_ptr PageSize v 0) m1"
    using assms l1_index_less by (simp add: l2_table_for_def arr_at_def l1_num_entries_def)
  then show ?thesis by (simp add: try_record_page_in_l1_def walk1 cong: option.case_cong)
qed

lemma region_ptr_page_ok:
  assumes "unat (rg_offset r + k) < 2 ^ 18"
  shows "region_ptr PageSize r k mod PageSize = 0" and "region_ptr PageSize r k < DEVICES_END"
proof -
  have "take_bit 12 (push_bit 12 (rg_offset r + k)) = 0" by (rule bit_word_eqI) (auto simp: bit_simps)
  then show "region_ptr PageSize r k mod PageSize = 0"
    by (simp only: region_ptr_push_bit take_bit_eq_mod) (simp add: PageSize_def)
  have "unat (push_bit 12 (rg_offset r + k)) = unat (rg_offset r + k) * 2 ^ 12"
    by (rule unat_push_bit_small [where n = 18]) (use assms in simp_all)
  then show "region_ptr PageSize r k < DEVICES_END"
    using assms by (simp add: region_ptr_push_bit DEVICES_END_def unat_word_lt)
qed

lemma l2_index_eq: "l2_index va = unat va div 2 ^ 12 mod 2 ^ 8"
  by (simp only: l2_index_def unat_take_bit_mod unat_drop_bit_eq) (simp add: drop_bit_eq_div)

lemma translate_page:
  assumes "unat (rg_offset v) \<le> unat va div 2 ^ 12"
  shows "region_ptr PageSize p (of_nat (unat va div 2 ^ 12 - unat (rg_offset v))) + take_bit 12 va =
    va - region_ptr PageSize v 0 + region_ptr PageSize p 0"
proof -
  have u: "unat (drop_bit 12 va) = unat va div 2 ^ 12"
    by (simp only: unat_drop_bit_eq) (simp add: drop_bit_eq_div)
  have "drop_bit 12 va = of_nat (unat va div 2 ^ 12)" unfolding u [symmetric] by simp
  then have k: "of_nat (unat va div 2 ^ 12 - unat (rg_offset v)) = drop_bit 12 va - rg_offset v"
    using assms(1) by (simp add: of_nat_diff)
  have "va = push_bit 12 (drop_bit 12 va) + take_bit 12 va" by (simp add: bits_ident)
  then have va: "va = drop_bit 12 va * PageSize + take_bit 12 va"
    by (simp add: push_bit_eq_mult PageSize_def)
  show ?thesis
    unfolding region_ptr_def k by (subst (3) va) (simp add: algebra_simps)
qed

lemma div_mod_split: "(q :: nat) = 256 * a + b \<Longrightarrow> b < 256 \<Longrightarrow> q div 256 = a \<and> q mod 256 = b"
  by simp

lemma covers_page_index:
  assumes "va < DEVICES_END" and "covers PageSize v va" and "unat (rg_offset v) mod 256 + unat (rg_length v) \<le> 256"
  shows "l1_index va = unat (rg_offset v) div 256"
    and "l2_index va = unat (rg_offset v) mod 256 + (unat va div 2 ^ 12 - unat (rg_offset v))"
proof -
  let ?q = "unat va div 2 ^ 12" and ?o = "unat (rg_offset v)"
  have q: "?o \<le> ?q" "?q - ?o < unat (rg_length v)" using assms(2) by (auto simp: covers_def PageSize_def)
  have split: "?q = 256 * (?o div 256) + (?o mod 256 + (?q - ?o))"
    unfolding add.assoc [symmetric] mult_div_mod_eq using q(1) by (rule le_add_diff_inverse [symmetric])
  have lt: "?o mod 256 + (?q - ?o) < 256" using q(2) assms(3) by linarith
  have "?q div 256 = ?o div 256" and "?q mod 256 = ?o mod 256 + (?q - ?o)"
    using div_mod_split [OF split lt] by simp_all
  then show "l1_index va = ?o div 256" "l2_index va = ?o mod 256 + (?q - ?o)"
    using l1_index_below [OF assms(1)] by (simp_all add: l2_index_eq div_mult2_eq [symmetric])
qed

lemma outside_page_index:
  assumes "unat va div 2 ^ 12 div 256 = unat (rg_offset v) div 256" and "\<not> covers PageSize v va"
  shows "\<not> (unat (rg_offset v) mod 256 \<le> l2_index va \<and> l2_index va < unat (rg_offset v) mod 256 + unat (rg_length v))"
proof -
  let ?q = "unat va div 2 ^ 12" and ?o = "unat (rg_offset v)"
  have "?q = 256 * (?o div 256) + ?q mod 256" unfolding assms(1) [symmetric] mult_div_mod_eq by (rule refl)
  moreover have "?o = 256 * (?o div 256) + ?o mod 256" by simp
  moreover have "\<not> (?o \<le> ?q \<and> ?q < ?o + unat (rg_length v))" using assms(2) by (simp add: covers_def PageSize_def)
  ultimately have "\<not> (?o mod 256 \<le> ?q mod 256 \<and> ?q mod 256 < ?o mod 256 + unat (rg_length v))" by linarith
  then show ?thesis by (simp add: l2_index_eq)
qed

text \<open>
  The translation after the pages have been put into the table: those of \<open>v\<close> lead to the pages of \<open>p\<close>,
  and the others to where they led before.
\<close>

lemma walk_with_table:
  assumes ready: "table_ready m v b t l2" and len: "0 < unat (rg_length v)"
    and one: "unat (rg_offset v) mod 256 + unat (rg_length v) \<le> 256"
    and virt: "unat (rg_offset v) + unat (rg_length v) \<le> 2 ^ 18"
    and phys: "unat (rg_offset p) + unat (rg_length v) \<le> 2 ^ 18"
    and va: "va < DEVICES_END"
  shows "covers PageSize v va \<Longrightarrow> walk (with_table v t (paged p v l2) m) va
      = Some (va - region_ptr PageSize v 0 + region_ptr PageSize p 0)"
    and "\<not> covers PageSize v va \<Longrightarrow> l1_index va = l1_index (region_ptr PageSize v 0) \<or>
        \<not> (l1_entry_type (mm_l1_table m ! l1_index va) = L1L2Ptr \<and> l2ptr_table (mm_l1_table m ! l1_index va) = t) \<Longrightarrow>
      walk (with_table v t (paged p v l2) m) va = walk m va"
proof -
  let ?o = "unat (rg_offset v)" and ?m = "with_table v t (paged p v l2) m" and ?i = "l1_index (region_ptr PageSize v 0)"
  have i: "?i = ?o div 256" using virt len by (simp add: l1_index_page div_less_iff_less_mult)
  have fresh: "l2ptr_table (l2ptr_entry t) = t" if "l1_entry_type (mm_l1_table m ! ?i) = L1Fault"
    by (rule l2ptr_address) (use ready that in \<open>auto simp: table_ready_def Let_def\<close>)
  have entry: "l1_entry_type (mm_l1_table ?m ! ?i) = L1L2Ptr" "l2ptr_table (mm_l1_table ?m ! ?i) = t"
    using ready fresh l1_index_less [of "region_ptr PageSize v 0"]
    by (auto simp: table_ready_def with_table_def Let_def l1_num_entries_def)
  have table: "mm_l2_tables ?m t = Some (paged p v l2)" by (simp add: with_table_def)
  have mapped: "walk ?m va = Some (va - region_ptr PageSize v 0 + region_ptr PageSize p 0)"
    if c: "covers PageSize v va"
  proof -
    let ?k = "unat va div 2 ^ 12 - ?o"
    note ix = covers_page_index [OF va c one]
    have k: "?k < unat (rg_length v)" "?o \<le> unat va div 2 ^ 12" using c by (auto simp: covers_def PageSize_def)
    have "unat (of_nat ?k :: u32) = ?k" using k one by (intro unat_of_nat_lt) simp
    then have "unat (rg_offset p + of_nat ?k) < 2 ^ 18"
      using k phys by (subst unat_add_lt) simp_all
    then have a: "page_physical_address (page_entry (region_ptr PageSize p (of_nat ?k))) = region_ptr PageSize p (of_nat ?k)"
      by (intro page_address region_ptr_page_ok)
    have "paged p v l2 ! l2_index va = page_entry (region_ptr PageSize p (of_nat ?k))"
      unfolding ix(2) using k(1) one by (rule paged_at)
    then show ?thesis
      using entry table a translate_page [OF k(2)] by (simp add: walk_def Let_def ix(1) i)
  qed
  have other: "walk ?m va = walk m va"
    if c: "\<not> covers PageSize v va" and sep: "l1_index va = ?i \<or>
      \<not> (l1_entry_type (mm_l1_table m ! l1_index va) = L1L2Ptr \<and> l2ptr_table (mm_l1_table m ! l1_index va) = t)"
  proof (cases "l1_index va = ?i")
    case False
    then show ?thesis using sep by (auto simp: walk_def Let_def with_table_def split: l1_type.split)
  next
    case True
    have q: "unat va div 2 ^ 12 div 256 = ?o div 256"
      using True i l1_index_below [OF va] by (simp add: div_mult2_eq [symmetric])
    then have "paged p v l2 ! l2_index va = l2 ! l2_index va"
      using outside_page_index [OF q c] l2_index_less [of va] by (auto simp: paged_def l2_num_entries_def)
    then show ?thesis
      using ready True entry table l2_index_less [of va]
      by (auto simp: walk_def Let_def table_ready_def l2_num_entries_def)
  qed
  show "covers PageSize v va \<Longrightarrow> walk ?m va = Some (va - region_ptr PageSize v 0 + region_ptr PageSize p 0)"
    by (rule mapped)
  show "\<not> covers PageSize v va \<Longrightarrow> l1_index va = ?i \<or>
      \<not> (l1_entry_type (mm_l1_table m ! l1_index va) = L1L2Ptr \<and> l2ptr_table (mm_l1_table m ! l1_index va) = t) \<Longrightarrow>
    walk ?m va = walk m va" by (rule other)
qed



lemma page_ptr_index:
  assumes "unat (rg_offset v) + k < 2 ^ 18"
  shows "l1_index (region_ptr PageSize v (of_nat k)) = (unat (rg_offset v) + k) div 256"
proof -
  have "unat (of_nat k :: u32) = k" using assms by (intro unat_of_nat_lt) simp
  then have "unat (rg_offset v + of_nat k) = unat (rg_offset v) + k"
    using assms by (subst unat_add_lt) simp_all
  then show ?thesis using assms by (simp add: l1_index_page div_less_iff_less_mult)
qed

lemma next_section: "(q :: nat) = 256 * a + r \<Longrightarrow> 256 \<le> r + k \<Longrightarrow> a < (q + k) div 256"
proof -
  assume "q = 256 * a + r" and "256 \<le> r + k"
  then have "Suc a * 256 \<le> q + k" by simp
  then have "Suc a \<le> (q + k) div 256" by (subst less_eq_div_iff_mult_less_eq) simp_all
  then show ?thesis by simp
qed

lemma mod_256_differ:
  assumes "k < i" and "i < k + 256"
  shows "((q :: nat) + k) mod 256 \<noteq> (q + i) mod 256"
proof
  assume "(q + k) mod 256 = (q + i) mod 256"
  then have "(q + i) mod 256 = (q + k) mod 256" by (rule sym)
  then have "256 dvd (q + i) - (q + k)" using assms(1) by (subst mod_eq_dvd_iff_nat [symmetric]) simp_all
  then have "256 dvd i - k" by simp
  then show False using assms by (auto dest!: dvd_imp_le)
qed

lemma record_page_loop_total:
  assumes "length l2 = l2_num_entries" and "unat (rg_length v) \<le> 256"
    and "unat (rg_offset v) + unat (rg_length v) < 2 ^ 32"
    and "\<forall>i. unat k \<le> i \<and> i < unat (rg_length v) \<longrightarrow>
      l2_entry_type (l2 ! ((unat (rg_offset v) + i) mod 256)) = Some L2Fault"
  shows "\<exists>l2'. record_page_loop p v 0 k n l2 = Some l2'"
  using assms
proof (induction n arbitrary: k l2)
  case 0
  then show ?case by simp
next
  case (Suc n)
  let ?o = "unat (rg_offset v)"
  show ?case
  proof (cases "k < rg_length v")
    case False
    then show ?thesis by (simp add: Let_def)
  next
    case True
    then have less: "unat k < unat (rg_length v)" by (simp add: unat_word_lt)
    have k: "unat (k + 1) = unat k + 1" by (rule unat_inc [OF True])
    have "unat (rg_offset v + k) = ?o + unat k" using Suc.prems(3) less by (intro unat_add_lt) simp
    then have idx: "l2_index (region_ptr PageSize v k) = (?o + unat k) mod 256" by (simp add: l2_index_page)
    let ?l2 = "l2[(?o + unat k) mod 256 := page_entry (region_ptr PageSize p k)]"
    have "l2_entry_type (?l2 ! ((?o + i) mod 256)) = Some L2Fault"
      if "unat (k + 1) \<le> i \<and> i < unat (rg_length v)" for i
    proof -
      have i: "unat k < i" "i < unat (rg_length v)" using that k by simp_all
      then have "(?o + unat k) mod 256 \<noteq> (?o + i) mod 256" using Suc.prems(2) by (intro mod_256_differ) simp_all
      then show ?thesis using Suc.prems(4) i by simp
    qed
    then have "\<exists>l2'. record_page_loop p v 0 (k + 1) n ?l2 = Some l2'"
      using Suc.prems(1-3) by (intro Suc.IH) simp_all
    moreover have "l2_entry_type (l2 ! ((?o + unat k) mod 256)) = Some L2Fault" using Suc.prems(4) less by simp
    ultimately show ?thesis
      using True Suc.prems(1) by (simp add: idx arr_at_def arr_insert_def Let_def l2_num_entries_def)
  qed
qed

text \<open>
  C40. Recording pages that cross the end of a section without filling it: the code walks only as many
  second-level tables as the size of the region needs, so \<open>try\_record\_page\_in\_l1\<close> reports success although
  the pages behind the boundary are still unmapped (their entries went to the first table).
\<close>
theorem pages_across_sections_stay_unmapped:
  assumes "table_ready m v b t l2" and "unat (rg_length v) \<le> 256"
    and "unat (rg_offset v) + unat (rg_length v) \<le> 2 ^ 18"
    and "\<forall>i < unat (rg_length v). l2_entry_type (l2 ! ((unat (rg_offset v) + i) mod 256)) = Some L2Fault"
    and "k < unat (rg_length v)" and "256 \<le> unat (rg_offset v) mod 256 + k"
    and "l1_entry_type (mm_l1_table m ! l1_index (region_ptr PageSize v (of_nat k))) = L1Fault"
  shows "\<exists>m'. try_record_page_in_l1 reserve p v b m = Some (True, m') \<and>
    walk m' (region_ptr PageSize v (of_nat k)) = None"
proof -
  let ?va = "region_ptr PageSize v 0" and ?vk = "region_ptr PageSize v (of_nat k)" and ?o = "unat (rg_offset v)"
  have walk1: "unat (divide_up (region_size PageSize v) SectionSize) = Suc 0"
    using one_table_to_walk [of v] assms(2,5) by simp
  have idx: "l1_index ?va < length (mm_l1_table m)"
    using assms(1) l1_index_less by (simp add: table_ready_def l1_num_entries_def)
  have "?o div 256 < (?o + k) div 256"
    by (rule next_section [where r = "?o mod 256"]) (use assms(6) in simp_all)
  then have ne: "l1_index ?va \<noteq> l1_index ?vk"
    using page_ptr_index [of v 0] page_ptr_index [of v k] assms(3,5) by simp
  have table: "l2_table_for reserve b ?va m = Some (Some t, with_table v t l2 m)"
    using assms(1) idx
    by (auto simp: table_ready_def l2_table_for_def Let_def arr_at_def arr_insert_def with_table_def fun_upd_idem)
  obtain l2' where l2': "record_page_loop p v 0 0 l2_num_entries l2 = Some l2'"
    using record_page_loop_total [of l2 v 0 p l2_num_entries] assms(1-4) by (auto simp: table_ready_def)
  let ?m = "(with_table v t l2 m)\<lparr>mm_l2_tables := (mm_l2_tables (with_table v t l2 m))(t \<mapsto> l2')\<rparr>"
  have "try_record_page_in_l1 reserve p v b m = Some (True, ?m)"
    using table l2' by (simp add: try_record_page_in_l1_def walk1 Let_def with_table_def)
  moreover have "walk ?m ?vk = None" using assms(7) ne by (simp add: walk_def Let_def with_table_def)
  ultimately show ?thesis by blast
qed

theorem pages_across_sections_stay_unmapped_witness:
  "\<exists>m'. try_record_page_in_l1 (\<lambda>m. None) \<lparr>rg_offset = 64, rg_length = 2\<rparr> \<lparr>rg_offset = 511, rg_length = 2\<rparr> 4096 blank_mmu
      = Some (True, m') \<and> walk m' (region_ptr PageSize \<lparr>rg_offset = 511, rg_length = 2\<rparr> (of_nat 1)) = None"
  by (rule pages_across_sections_stay_unmapped [where t = 4096 and ?l2.0 = "replicate l2_num_entries 0"])
    (use l1_index_less in \<open>simp_all add: table_ready_def blank_mmu_def l1_num_entries_def l2_num_entries_def\<close>)

section \<open>Entries as the code and the hardware read them\<close>

text \<open>
  The table entries give back the addresses they were made from and have the type they were made
  with: sections and pages below 1 GiB, second-level tables anywhere.
\<close>

lemma table_entries_roundtrip:
  assumes "s mod SectionSize = 0" and "s < DEVICES_END" and "t mod 1024 = 0"
    and "p mod PageSize = 0" and "p < DEVICES_END"
  shows "l1_entry_type (section_entry s) = L1Section \<and> section_physical_address (section_entry s) = s \<and>
    l1_entry_type (l2ptr_entry t) = L1L2Ptr \<and> l2ptr_table (l2ptr_entry t) = t \<and>
    l2_entry_type (page_entry p) = Some L2Page \<and> page_physical_address (page_entry p) = p"
  using assms by (simp only: l1_entry_type_section l1_entry_type_l2ptr l2_entry_type_page
      section_address l2ptr_address page_address simp_thms)

text \<open>
  C39. The entry of a small page does not mean the same to the hardware: \<open>Page\<close> stores the address of a
  page in units of 1 KiB in a field that the hardware reads in units of 4 KiB, so that the page the
  hardware accesses is at four times the address, never at the address itself (page 0 apart).
\<close>
theorem page_entry_misread_by_hardware:
  assumes "a mod PageSize = 0" and "0 < a" and "a < DEVICES_END"
  shows "hardware_page_address (page_entry a) = 4 * a \<and> hardware_page_address (page_entry a) \<noteq> a"
proof -
  have "unat a < 2 ^ 30" using assms(3) by (simp add: DEVICES_END_def unat_word_lt)
  then have "unat (4 * a) = 4 * unat a" by (simp add: unat_word_ariths)
  moreover have "0 < unat a" using assms(2) by (simp add: unat_word_lt)
  ultimately have "unat (4 * a) \<noteq> unat a" by linarith
  then have "4 * a \<noteq> a" by metis
  then show ?thesis using hardware_page_address_is_4_times [OF assms(1,3)] by simp
qed

theorem page_entry_misread_by_hardware_witness:
  "hardware_page_address (page_entry 0x00401000) = 4 * 0x00401000 \<and>
    hardware_page_address (page_entry 0x00401000) \<noteq> 0x00401000"
  by (rule page_entry_misread_by_hardware) (simp_all add: PageSize_def DEVICES_END_def)

section \<open>Failing to record\<close>

text \<open>
  When \<open>allocate\_pages\<close> cannot record the pages it has reserved, it gives the physical allocation to
  both allocators, also to the one of virtual pages, and returns the regions as if they were mapped.
\<close>

lemma allocate_pages_returns_unmapped:
  assumes "try_reserve_page_unrecorded num_pages al b m = Some ((phys_alloc, virt_alloc), m1)"
    and "allocation_bool phys_alloc"
    and "try_record_page_in_l1 (try_reserve_l2_table_entry fuel)
      (region_from_ptr PageSize (al_ptr phys_alloc) (al_size phys_alloc))
      (region_from_ptr PageSize (al_ptr virt_alloc) (al_size virt_alloc)) nullptr m1 = Some (False, m2)"
    and "broker_free phys_alloc (mm_physical_page_allocator m2) = Some pa"
    and "broker_free phys_alloc (mm_virtual_page_allocator m2) = Some va"
  shows "mmu_allocate_pages fuel num_pages al b m = Some (
      (region_from_ptr PageSize (al_ptr phys_alloc) (al_size phys_alloc),
       region_from_ptr PageSize (al_ptr virt_alloc) (al_size virt_alloc)),
      m2\<lparr>mm_physical_page_allocator := pa, mm_virtual_page_allocator := va\<rparr>)"
  using assms by (simp add: mmu_allocate_pages_def Let_def unless_recorded_def phys_free_def virt_free_def)

text \<open>
  When all second-level tables are in use, \<open>try\_reserve\_l2\_table\_entry\<close> takes a page for new ones and maps it,
  but a single page is less than the slab allocator takes: no table becomes available, and the page
  is lost.
\<close>

lemma l2_tables_not_replenished:
  assumes full: "slab_allocate l2_table_size (mm_l2_table_allocator m) = Some (no_allocation, mm_l2_table_allocator m)"
    and page: "try_reserve_page_unrecorded 1 PALPage Identity m = Some ((alloc, virt), m1)" "al_size alloc = PageSize"
    and recorded: "try_record_page_in_l1 (try_reserve_l2_table_entry fuel) (region_from_ptr PageSize (al_ptr alloc) PageSize)
      (region_from_ptr PageSize (al_ptr alloc) PageSize) (mm_spare_free_l2_page m1) m1 = Some (True, m2)"
    and same: "mm_l2_table_allocator m2 = mm_l2_table_allocator m"
  shows "try_reserve_l2_table_entry (Suc fuel) m = Some (no_allocation, m2\<lparr>mm_spare_free_l2_page := nullptr\<rparr>)"
proof -
  have "slab_add l2_table_size (al_ptr alloc) PageSize (mm_l2_table_allocator m2) = Some (mm_l2_table_allocator m2)"
    by (rule slab_add_less_than_chunk) (simp_all add: l2_table_size_def PageSize_def)
  moreover have "\<not> allocation_bool no_allocation" "allocation_bool alloc"
    using page(2) by (simp_all add: allocation_bool_def no_allocation_def PageSize_def)
  ultimately show ?thesis
    using full page recorded same by (simp add: no_allocation_def)
qed

end
