(* ===== verification/Page_Allocation.thy ===== *)
theory Page_Allocation
  imports Page_Backend
begin

unbundle bit_operations_syntax

text \<open>
  Correctness of the page allocator of Page\_Backend: while every free region is a power of two of
  pages and sits in the list of its size, \<open>allocate\<close>, \<open>reserve\_region\<close> and \<open>free\<close> hand out and take
  back disjoint pages and lose none; the kernel's own regions (512 MiB of memory, the devices, 4 GiB
  of virtual pages) are such. A region of another size breaks the lists, and the same page is then
  handed out twice.

  \<open>pb\_rep\<close> is the invariant, \<open>free\_pages\<close> the abstract view of the state: the set of free pages.
\<close>

section \<open>The invariant\<close>

definition block :: "nat \<Rightarrow> region \<Rightarrow> bool" where
  "block d r \<longleftrightarrow> unat (rg_length r) = 2 ^ d \<and> unat (rg_offset r) + 2 ^ d \<le> 2 ^ 20"

definition content :: "region heap \<Rightarrow> ptr \<Rightarrow> region" where
  "content h x = nd_content (the (h x))"

definition slots :: "ptr \<Rightarrow> size_t \<Rightarrow> ptr set" where
  "slots page w = {page + of_nat k * 16 | k. k < 32 \<and> bit w k}"

definition used :: "size_t \<Rightarrow> nat" where
  "used w = card {k. k < 32 \<and> bit w k}"

definition all_nodes :: "(nat \<Rightarrow> ptr list) \<Rightarrow> ptr set" where
  "all_nodes nss = (\<Union>d < 21. set (nss d))"

definition pb_rep :: "ptr \<Rightarrow> size_t \<Rightarrow> (nat \<Rightarrow> ptr list) \<Rightarrow> page_backend \<Rightarrow> bool" where
  "pb_rep page w nss s \<longleftrightarrow>
     (\<exists>bn ws ps. slab_inv (pb_node_allocator s) bn w ws ps page) \<and>
     length (pb_free_lists s) = 21 \<and>
     (\<forall>d < 21. list_rep (pb_heap s) (pb_free_lists s ! d) (nss d)) \<and>
     (\<forall>d < 21. \<forall>e < 21. d \<noteq> e \<longrightarrow> set (nss d) \<inter> set (nss e) = {}) \<and>
     all_nodes nss = slots page w \<and>
     (\<forall>d < 21. \<forall>x \<in> set (nss d). block d (content (pb_heap s) x)) \<and>
     (\<forall>x \<in> all_nodes nss. \<forall>y \<in> all_nodes nss. x \<noteq> y \<longrightarrow>
        pages (content (pb_heap s) x) \<inter> pages (content (pb_heap s) y) = {})"

definition free_pages :: "(nat \<Rightarrow> ptr list) \<Rightarrow> page_backend \<Rightarrow> nat set" where
  "free_pages nss s = (\<Union>x \<in> all_nodes nss. pages (content (pb_heap s) x))"

definition blocks :: "(nat \<Rightarrow> ptr list) \<Rightarrow> page_backend \<Rightarrow> region set" where
  "blocks nss s = content (pb_heap s) ` all_nodes nss"

section \<open>Blocks and depths\<close>

lemma floor_log_unique:
  assumes "2 ^ k \<le> (n :: nat)" and "n < 2 ^ Suc k" and "2 ^ d \<le> n" and "n < 2 ^ Suc d"
  shows "k = d"
proof -
  have lt: "(2::nat) ^ i < 2 ^ j \<Longrightarrow> i < j" for i j by simp
  have "k < Suc d" by (rule lt) (rule le_less_trans [OF assms(1,4)])
  moreover have "d < Suc k" by (rule lt) (rule le_less_trans [OF assms(3,2)])
  ultimately show ?thesis by simp
qed

lemma max_depth_21: "max_depth = 21"
proof -
  have "unat (bit_width PageSize) = 13"
  proof -
    obtain k where k: "unat (bit_width PageSize) = Suc k" "2 ^ k \<le> unat PageSize" "unat PageSize < 2 ^ Suc k"
      using bit_width_bounds [of PageSize] by (auto simp: PageSize_def)
    have "k = 12" by (rule floor_log_unique [OF k(2,3)]) (simp_all add: PageSize_def)
    then show ?thesis using k(1) by simp
  qed
  then have "bit_width PageSize = 13" by (simp add: word_unat_eq_iff)
  then show ?thesis by (simp add: max_depth_def)
qed

lemma depth_from_page_length_bounds:
  assumes "n \<noteq> 0"
  obtains k where "depth_from_page_length n = of_nat k" "2 ^ k \<le> unat n" "unat n < 2 ^ Suc k"
proof -
  obtain k where "2 ^ k \<le> unat n" "unat n < 2 ^ Suc k" "unat (bit_width n - 1) = k"
    using bit_width_bounds [OF assms] by blast
  moreover have "depth_from_page_length n = of_nat (unat (bit_width n - 1))"
    using assms by (simp add: depth_from_page_length_def)
  ultimately show thesis using that by metis
qed

lemma depth_of_power: "unat n = 2 ^ d \<Longrightarrow> depth_from_page_length n = of_nat d"
proof -
  assume n: "unat n = 2 ^ d"
  then have "n \<noteq> 0" by auto
  then obtain k where k: "depth_from_page_length n = of_nat k" "2 ^ k \<le> unat n" "unat n < 2 ^ Suc k"
    by (rule depth_from_page_length_bounds)
  have "k = d" by (rule floor_log_unique [OF k(2,3)]) (simp_all add: n)
  then show ?thesis using k(1) by simp
qed

lemma unat_depth: "d \<le> 21 \<Longrightarrow> unat (of_nat d :: u32) = d"
  by (intro unat_of_nat_lt) simp

lemma depth_eq_iff: "d \<le> 21 \<Longrightarrow> e \<le> 21 \<Longrightarrow> (of_nat d :: u32) = of_nat e \<longleftrightarrow> d = e"
  by (metis unat_depth)

lemma block_fits_space: "block d r \<Longrightarrow> region_fits_space r"
  by (auto simp: block_def region_fits_space_def)

lemma block_nonempty: "block d r \<Longrightarrow> region_bool r"
  by (auto simp: block_def region_bool_def)

lemma block_halves:
  assumes "block (Suc d) r" and "region_halve r = (a, b)"
  shows "block d a \<and> block d b \<and> pages a \<union> pages b = pages r \<and> pages a \<inter> pages b = {} \<and> rg_offset a = rg_offset r"
proof -
  note h = region_halve_pages [OF block_fits_space [OF assms(1)] assms(2)]
  have r: "unat (rg_length r) = 2 * 2 ^ d" "unat (rg_offset r) + 2 * 2 ^ d \<le> 2 ^ 20"
    using assms(1) by (simp_all add: block_def)
  have off: "rg_offset a = rg_offset r" "rg_offset b = rg_offset r + rg_length r div 2"
    using assms(2) by (auto simp: region_halve_def Let_def)
  have "unat (rg_offset b) = unat (rg_offset r) + 2 ^ d"
    unfolding off using r by (subst unat_add_lt) (simp_all add: unat_halves)
  then show ?thesis using h r off by (auto simp: block_def)
qed

section \<open>Slots\<close>

lemma slot_inj: "k < 32 \<Longrightarrow> j < 32 \<Longrightarrow> page + of_nat k * 16 = page + (of_nat j * 16 :: ptr) \<longleftrightarrow> k = j"
proof -
  assume "k < 32" "j < 32"
  then have "unat (of_nat k * 16 :: ptr) = k * 16" "unat (of_nat j * 16 :: ptr) = j * 16"
    by (simp_all add: unat_word_ariths unat_of_nat_lt)
  then show ?thesis by (metis add_left_cancel mult_cancel2 zero_neq_numeral)
qed

definition take_slot :: "size_t \<Rightarrow> nat \<Rightarrow> size_t" where "take_slot w k = w XOR push_bit k 1"

definition give_slot :: "size_t \<Rightarrow> nat \<Rightarrow> size_t" where "give_slot w k = w AND NOT (push_bit k 1)"

lemma bit_take_slot: "bit (take_slot w k) j \<longleftrightarrow> (if j = k \<and> k < 32 then \<not> bit w k else bit w j)"
  by (auto simp: take_slot_def bit_simps dest: bit_imp_le_length)

lemma bit_give_slot: "bit (give_slot w k) j \<longleftrightarrow> bit w j \<and> j \<noteq> k"
  by (auto simp: give_slot_def bit_simps dest: bit_imp_le_length)

lemma slots_take: "k < 32 \<Longrightarrow> \<not> bit w k \<Longrightarrow> slots page (take_slot w k) = insert (page + of_nat k * 16) (slots page w)"
  unfolding slots_def bit_take_slot by (rule set_eqI) (auto split: if_splits)

lemma slots_give: "k < 32 \<Longrightarrow> slots page (give_slot w k) = slots page w - {page + of_nat k * 16}"
  unfolding slots_def bit_give_slot using slot_inj [of _ k page] by auto

lemma used_take: "k < 32 \<Longrightarrow> \<not> bit w k \<Longrightarrow> used (take_slot w k) = Suc (used w)"
proof -
  assume k: "k < 32" "\<not> bit w k"
  then have "{j. j < 32 \<and> bit (take_slot w k) j} = insert k {j. j < 32 \<and> bit w j}"
    by (auto simp: bit_take_slot)
  then show ?thesis using k by (simp add: used_def)
qed

lemma used_give: "k < 32 \<Longrightarrow> bit w k \<Longrightarrow> Suc (used (give_slot w k)) = used w"
proof -
  assume k: "k < 32" "bit w k"
  then have "{j. j < 32 \<and> bit w j} = insert k {j. j < 32 \<and> bit (give_slot w k) j}"
    by (auto simp: bit_give_slot)
  then show ?thesis by (simp add: used_def bit_give_slot)
qed

lemma first_free_exists: "used w < 32 \<Longrightarrow> \<exists>k. first_free w k"
proof -
  assume u: "used w < 32"
  have "\<exists>k < 32. \<not> bit w k"
  proof (rule ccontr)
    assume "\<not> ?thesis"
    then have "{j. j < 32 \<and> bit w j} = {..<32}" by auto
    then show False using u by (simp add: used_def)
  qed
  then obtain k where "k < 32 \<and> \<not> bit w k" by blast
  then have "(LEAST k. \<not> bit w k) < 32 \<and> first_free w (LEAST k. \<not> bit w k)"
    using Least_le [of "\<lambda>k. \<not> bit w k" k] LeastI [of "\<lambda>k. \<not> bit w k" k] not_less_Least
    by (fastforce simp: first_free_def)
  then show ?thesis by blast
qed

section \<open>Adding and removing a free region\<close>

lemma list_rep_cong: "list_rep h l xs \<Longrightarrow> (\<And>x. x \<in> set xs \<Longrightarrow> h' x = h x) \<Longrightarrow> list_rep h' l xs"
  by (simp add: list_rep_def cong: dseg_cong)

lemma links_only_content: "links_only S h h' \<Longrightarrow> h x \<noteq> None \<Longrightarrow> content h' x = content h x"
proof -
  assume "links_only S h h'" and x: "h x \<noteq> None"
  then have "map_option nd_content (h' x) = map_option nd_content (h x)" by (simp add: links_only_def)
  then show ?thesis using x by (auto simp: content_def)
qed

lemma insert_at_head_ok:
  assumes "list_rep h l xs" and "unlinked h x" and "x \<notin> set xs"
  shows "\<exists>h' l' ys. mll_insert_after (m_head l) x (h, l) = Some (h', l') \<and> list_rep h' l' ys
    \<and> set ys = insert x (set xs) \<and> links_only (insert x (set xs)) h h'"
proof (cases xs)
  case Nil
  then obtain l' where "mll_insert_after (m_head l) x (h, l) = Some (h, l')" "list_rep h l' [x]"
    using mll_insert_after_empty assms by blast
  then show ?thesis using Nil by (intro exI [of _ h] exI [of _ l'] exI [of _ "[x]"]) simp
next
  case (Cons a ys)
  then have "m_head l = a" using assms(1) by (simp add: list_rep_def)
  moreover obtain h' l' where "mll_insert_after a x (h, l) = Some (h', l')" "list_rep h' l' ([] @ a # x # ys)"
      "links_only (insert x (set ([] @ a # ys))) h h'"
    using insert_after_ok [of h l "[]" a ys x] assms Cons by auto
  ultimately show ?thesis using Cons by (intro exI [of _ h'] exI [of _ l'] exI [of _ "a # x # ys"]) auto
qed

lemma insert_node_eq:
  assumes "d < 21" and "length (pb_free_lists s) = 21" and "list_rep (pb_heap s) (pb_free_lists s ! d) xs"
    and "unlinked (pb_heap s) x"
  shows "insert_node (of_nat d) x s = do {
    (h, l) \<leftarrow> mll_insert_after (m_head (pb_free_lists s ! d)) x (pb_heap s, pb_free_lists s ! d);
    Some (s\<lparr>pb_heap := h, pb_free_lists := (pb_free_lists s)[d := l]\<rparr>) }"
proof -
  obtain n where "get_node (pb_heap s) x = Some n" using assms(4) by (auto simp: unlinked_def get_node_def)
  then show ?thesis
    using assms(1,2) mll_distance_zero [OF assms(3)]
    by (simp add: insert_node_def arr_at_def arr_insert_def unat_depth pi_deref_def mll_begin_def
        split_def cong: bind_option_cong)
qed

lemma pb_repD:
  assumes "pb_rep page w nss s"
  shows "length (pb_free_lists s) = 21" and "d < 21 \<Longrightarrow> list_rep (pb_heap s) (pb_free_lists s ! d) (nss d)"
    and "d < 21 \<Longrightarrow> e < 21 \<Longrightarrow> d \<noteq> e \<Longrightarrow> set (nss d) \<inter> set (nss e) = {}"
    and "all_nodes nss = slots page w"
    and "d < 21 \<Longrightarrow> x \<in> set (nss d) \<Longrightarrow> block d (content (pb_heap s) x)"
    and "x \<in> all_nodes nss \<Longrightarrow> y \<in> all_nodes nss \<Longrightarrow> x \<noteq> y \<Longrightarrow>
      pages (content (pb_heap s) x) \<inter> pages (content (pb_heap s) y) = {}"
  using assms by (simp_all add: pb_rep_def)

lemma pb_rep_node:
  assumes "pb_rep page w nss s" and "x \<in> all_nodes nss"
  shows "x \<noteq> nullptr \<and> pb_heap s x \<noteq> None"
proof -
  obtain d where d: "d < 21" "x \<in> set (nss d)" using assms(2) by (auto simp: all_nodes_def)
  then show ?thesis using list_rep_node [OF pb_repD(2) [OF assms(1) d(1)] d(2)] by auto
qed

lemma in_all_nodes: "d < 21 \<Longrightarrow> x \<in> set (nss d) \<Longrightarrow> x \<in> all_nodes nss"
  by (auto simp: all_nodes_def)

lemma all_nodes_upd: "d < 21 \<Longrightarrow> all_nodes (nss(d := ys)) = set ys \<union> (\<Union>e \<in> {..<21} - {d}. set (nss e))"
  by (auto simp: all_nodes_def split: if_splits)

lemma slot_nonnull:
  assumes "slab_inv s bn w ws ps page" and "k < 32"
  shows "page + of_nat k * 16 \<noteq> (nullptr :: ptr)"
proof -
  have page: "page \<noteq> 0" "unat page mod 4096 = 0" using assms(1) by (auto simp: slab_inv_def)
  have "unat (of_nat k * 16 :: ptr) = k * 16" using assms(2) by (simp add: unat_word_ariths unat_of_nat_lt)
  moreover have "unat page + k * 16 < 2 ^ 32"
  proof -
    obtain q where q: "unat page = q * 4096" using page(2) by (metis div_mult_mod_eq add.right_neutral)
    then have "q * 4096 < 2 ^ 32" using unat_lt_exp [of page] by simp
    then have "q < 1048576" by simp
    then show ?thesis using q assms(2) by simp
  qed
  ultimately have "unat (page + of_nat k * 16) = unat page + k * 16" by (subst unat_add_lt) simp_all
  then show ?thesis using page(1) by (metis add_eq_0_iff_both_eq_0 unat_eq_0)
qed

lemma add_region_ok:
  assumes rep: "pb_rep page w nss s" and d: "d < 21" and r: "block d r"
    and disj: "pages r \<inter> free_pages nss s = {}" and room: "used w < 32"
  shows "\<exists>x s1 s2 w' nss'. create_node r s = Some ((of_nat d, x), s1) \<and> x \<noteq> nullptr
    \<and> insert_node (of_nat d) x s1 = Some s2 \<and> pb_rep page w' nss' s2
    \<and> free_pages nss' s2 = pages r \<union> free_pages nss s \<and> used w' = Suc (used w)
    \<and> blocks nss' s2 = insert r (blocks nss s)"
proof -
  obtain bn ws ps where slab: "slab_inv (pb_node_allocator s) bn w ws ps page" using rep by (auto simp: pb_rep_def)
  obtain k where k: "first_free w k" using first_free_exists [OF room] by blast
  then have kw: "k < 32" "\<not> bit w k" by (auto simp: first_free_def)
  let ?x = "page + of_nat k * 16 :: ptr"
  obtain sl where sl: "slab_allocate page_node_size (pb_node_allocator s) = Some (\<lparr>al_ptr = ?x, al_size = 16\<rparr>, sl)"
      "slab_inv sl bn (take_slot w k) ws ps page"
    using slab_allocate_ok [OF slab slot_ok_sizes(1) k] kw(1) by (auto simp: take_slot_def page_node_size_def)
  have x_new: "?x \<notin> all_nodes nss"
    using pb_repD(4) [OF rep] kw slot_inj [OF kw(1), of _ page] by (auto simp: slots_def)
  have x0: "?x \<noteq> nullptr" using slot_nonnull [OF slab kw(1)] .
  let ?h = "(pb_heap s)(?x \<mapsto> \<lparr>nd_next = nullptr, nd_prev = nullptr, nd_content = r\<rparr>)"
  let ?s1 = "s\<lparr>pb_node_allocator := sl, pb_heap := ?h\<rparr>"
  have create: "create_node r s = Some ((of_nat d, ?x), ?s1)"
    using x0 r by (simp add: create_node_def sl(1) construct_at_def Let_def depth_of_power block_def)
  have same: "?h y = pb_heap s y" if "y \<in> all_nodes nss" for y using that x_new by auto
  have rep1: "list_rep ?h (pb_free_lists s ! e) (nss e)" if "e < 21" for e
    using pb_repD(2) [OF rep that] by (rule list_rep_cong) (rule same, use that in \<open>auto simp: all_nodes_def\<close>)
  have un: "unlinked ?h ?x" using x0 by (simp add: unlinked_def)
  have x_d: "?x \<notin> set (nss e)" if "e < 21" for e using x_new that by (auto simp: all_nodes_def)
  obtain h2 l2 ys where ins: "mll_insert_after (m_head (pb_free_lists s ! d)) ?x (?h, pb_free_lists s ! d) = Some (h2, l2)"
      "list_rep h2 l2 ys" "set ys = insert ?x (set (nss d))" "links_only (insert ?x (set (nss d))) ?h h2"
    using insert_at_head_ok [OF rep1 [OF d] un x_d [OF d]] by blast
  let ?s2 = "?s1\<lparr>pb_heap := h2, pb_free_lists := (pb_free_lists s)[d := l2]\<rparr>"
  let ?nss = "nss(d := ys)"
  have insert: "insert_node (of_nat d) ?x ?s1 = Some ?s2"
    using ins(1) insert_node_eq [OF d, of ?s1 "nss d" ?x] rep1 [OF d] un pb_repD(1) [OF rep] by simp
  have nodes: "all_nodes ?nss = insert ?x (all_nodes nss)"
    using d ins(3) by (auto simp: all_nodes_def split: if_splits)
  have cx: "content h2 ?x = r"
    using links_only_content [OF ins(4), of ?x] by (simp add: content_def)
  have cy: "content h2 y = content (pb_heap s) y" if "y \<in> all_nodes nss" for y
    using links_only_content [OF ins(4), of y] same [OF that] pb_rep_node [OF rep that]
    by (simp add: content_def)
  have out: "h2 y = ?h y" if "y \<notin> insert ?x (set (nss d))" for y
    using ins(4) that by (simp add: links_only_def)
  have apart: "pages r \<inter> pages (content (pb_heap s) y) = {}" if "y \<in> all_nodes nss" for y
    using disj that by (auto simp: free_pages_def)
  have "pb_rep page (take_slot w k) ?nss ?s2"
    unfolding pb_rep_def
  proof (intro conjI allI impI ballI)
    show "\<exists>bn ws ps. slab_inv (pb_node_allocator ?s2) bn (take_slot w k) ws ps page" using sl(2) by auto
    show "length (pb_free_lists ?s2) = 21" using pb_repD(1) [OF rep] by simp
    show "list_rep (pb_heap ?s2) (pb_free_lists ?s2 ! e) (?nss e)" if e: "e < 21" for e
    proof (cases "e = d")
      case True
      then show ?thesis using ins(2) pb_repD(1) [OF rep] d by simp
    next
      case False
      have "list_rep h2 (pb_free_lists s ! e) (nss e)"
        using rep1 [OF e]
        by (rule list_rep_cong) (use out x_d [OF e] pb_repD(3) [OF rep e d False] in auto)
      then show ?thesis using False by simp
    qed
    show "set (?nss a) \<inter> set (?nss b) = {}" if "a < 21" "b < 21" "a \<noteq> b" for a b
      using pb_repD(3) [OF rep that] x_d [OF that(1)] x_d [OF that(2)] ins(3) pb_repD(3) [OF rep that(1) d]
        pb_repD(3) [OF rep d that(2)] that(3) by auto
    show "all_nodes ?nss = slots page (take_slot w k)"
      using nodes pb_repD(4) [OF rep] slots_take [OF kw] by simp
    show "block a (content (pb_heap ?s2) y)" if "a < 21" "y \<in> set (?nss a)" for a y
    proof (cases "y = ?x")
      case True
      then have "a = d" using that x_d [OF that(1)] by (auto split: if_splits)
      then show ?thesis using True cx r by simp
    next
      case False
      then have "y \<in> set (nss a)" using that ins(3) by (auto split: if_splits)
      then show ?thesis using cy [OF in_all_nodes [OF that(1)]] pb_repD(5) [OF rep that(1)] by simp
    qed
    show "pages (content (pb_heap ?s2) y) \<inter> pages (content (pb_heap ?s2) z) = {}"
      if yz: "y \<in> all_nodes ?nss" "z \<in> all_nodes ?nss" "y \<noteq> z" for y z
    proof -
      consider "y = ?x" "z \<in> all_nodes nss" | "z = ?x" "y \<in> all_nodes nss" | "y \<in> all_nodes nss" "z \<in> all_nodes nss"
        using yz unfolding nodes by blast
      then show ?thesis
        using yz(3) pb_repD(6) [OF rep, of y z] apart by cases (auto simp: cx cy Int_commute)
    qed
  qed
  moreover have "free_pages ?nss ?s2 = pages r \<union> free_pages nss s"
    using cx cy by (simp add: free_pages_def nodes)
  moreover have "blocks ?nss ?s2 = insert r (blocks nss s)"
    using cx cy by (simp add: blocks_def nodes cong: image_cong_simp)
  ultimately show ?thesis using create insert x0 used_take [OF kw] by blast
qed

lemma block_has_page: "block d r \<Longrightarrow> pages r \<noteq> {}"
  by (auto simp: block_def pages_def)

lemma content_inj:
  assumes "pb_rep page w nss s"
  shows "inj_on (content (pb_heap s)) (all_nodes nss)"
proof (rule inj_onI, rule ccontr)
  fix x y
  assume xy: "x \<in> all_nodes nss" "y \<in> all_nodes nss" "content (pb_heap s) x = content (pb_heap s) y" "x \<noteq> y"
  obtain d where "d < 21" "x \<in> set (nss d)" using xy(1) by (auto simp: all_nodes_def)
  then have "pages (content (pb_heap s) x) \<noteq> {}" using block_has_page pb_repD(5) [OF assms] by blast
  then show False using pb_repD(6) [OF assms xy(1,2,4)] xy(3) by simp
qed

lemma remove_node_ok:
  assumes rep: "pb_rep page w nss s" and d: "d < 21" and x: "x \<in> set (nss d)"
  shows "\<exists>s' w' nss'. remove_node (of_nat d) x s = Some s' \<and> pb_rep page w' nss' s'
    \<and> free_pages nss' s' = free_pages nss s - pages (content (pb_heap s) x)
    \<and> pages (content (pb_heap s) x) \<subseteq> free_pages nss s \<and> Suc (used w') = used w
    \<and> blocks nss' s' = blocks nss s - {content (pb_heap s) x}"
proof -
  obtain bn ws ps where slab: "slab_inv (pb_node_allocator s) bn w ws ps page" using rep by (auto simp: pb_rep_def)
  have x_all: "x \<in> all_nodes nss" using in_all_nodes [of d x nss] d x by blast
  then obtain k where k: "k < 32" "bit w k" "x = page + of_nat k * 16"
    using pb_repD(4) [OF rep] by (auto simp: slots_def)
  obtain xs ys where xs: "nss d = xs @ x # ys" using x by (meson split_list)
  have dist: "distinct (nss d)" by (rule list_rep_distinct [OF pb_repD(2) [OF rep d]])
  obtain h l where rem: "mll_remove x (pb_heap s, pb_free_lists s ! d) = Some (h, l)" "list_rep h l (xs @ ys)"
      "links_only (set (nss d)) (pb_heap s) h"
    using remove_ok [of "pb_heap s" "pb_free_lists s ! d" xs x ys] pb_repD(2) [OF rep d] xs by auto
  obtain sl where sl: "slab_free page_node_size \<lparr>al_ptr = x, al_size = page_node_size\<rparr> (pb_node_allocator s) = Some (16, sl)"
      "slab_inv sl bn (give_slot w k) ws ps page"
    using slab_free_ok [OF slab slot_ok_sizes(1) k(1), of "\<lparr>al_ptr = x, al_size = page_node_size\<rparr>"] k(1,3) by (auto simp: give_slot_def page_node_size_def)
  let ?s = "\<lparr>pb_node_allocator = sl, pb_heap = h, pb_free_lists = (pb_free_lists s)[d := l]\<rparr>"
  let ?nss = "nss(d := xs @ ys)"
  have remove: "remove_node (of_nat d) x s = Some ?s"
    using d by (simp add: remove_node_def arr_at_def arr_insert_def unat_depth pb_repD(1) [OF rep] rem(1) sl(1))
  have set_d: "set (xs @ ys) = set (nss d) - {x}" using dist xs by auto
  have other: "x \<notin> set (nss e)" if "e < 21" "e \<noteq> d" for e using pb_repD(3) [OF rep that(1) d that(2)] x by auto
  have nodes: "all_nodes ?nss = all_nodes nss - {x}"
    using d set_d other by (auto simp: all_nodes_def split: if_splits)
  have c: "content h y = content (pb_heap s) y" if "y \<in> all_nodes nss" for y
    using links_only_content [OF rem(3)] pb_rep_node [OF rep that] by blast
  have out: "h y = pb_heap s y" if "y \<notin> set (nss d)" for y using rem(3) that by (simp add: links_only_def)
  have sub: "set (?nss e) \<subseteq> set (nss e)" for e using set_d by auto
  have "pb_rep page (give_slot w k) ?nss ?s"
    unfolding pb_rep_def
  proof (intro conjI allI impI ballI)
    show "\<exists>bn ws ps. slab_inv (pb_node_allocator ?s) bn (give_slot w k) ws ps page" using sl(2) by auto
    show "length (pb_free_lists ?s) = 21" using pb_repD(1) [OF rep] by simp
    show "list_rep (pb_heap ?s) (pb_free_lists ?s ! e) (?nss e)" if e: "e < 21" for e
    proof (cases "e = d")
      case True
      then show ?thesis using rem(2) pb_repD(1) [OF rep] d by simp
    next
      case False
      have "list_rep h (pb_free_lists s ! e) (nss e)"
        using pb_repD(2) [OF rep e]
        by (rule list_rep_cong) (use out pb_repD(3) [OF rep e d False] in auto)
      then show ?thesis using False by simp
    qed
    show "set (?nss a) \<inter> set (?nss b) = {}" if "a < 21" "b < 21" "a \<noteq> b" for a b
      using pb_repD(3) [OF rep that] sub [of a] sub [of b] by blast
    show "all_nodes ?nss = slots page (give_slot w k)"
      using nodes pb_repD(4) [OF rep] slots_give [OF k(1)] k(3) by simp
    show "block a (content (pb_heap ?s) y)" if "a < 21" "y \<in> set (?nss a)" for a y
      using pb_repD(5) [OF rep that(1), of y] c [OF in_all_nodes [OF that(1)], of y] sub [of a] that(2) by auto
    show "pages (content (pb_heap ?s) y) \<inter> pages (content (pb_heap ?s) z) = {}"
      if "y \<in> all_nodes ?nss" "z \<in> all_nodes ?nss" "y \<noteq> z" for y z
      using that pb_repD(6) [OF rep, of y z] c by (simp add: nodes)
  qed
  moreover have "free_pages ?nss ?s = free_pages nss s - pages (content (pb_heap s) x)"
    using pb_repD(6) [OF rep _ x_all] c x_all by (fastforce simp: free_pages_def nodes)
  moreover have "pages (content (pb_heap s) x) \<subseteq> free_pages nss s" using x_all by (auto simp: free_pages_def)
  moreover have "blocks ?nss ?s = blocks nss s - {content (pb_heap s) x}"
    using c x_all inj_on_image_set_diff [OF content_inj [OF rep] Diff_subset, of "{x}"]
    by (simp add: blocks_def nodes cong: image_cong_simp)
  ultimately show ?thesis using remove used_give [OF k(1,2)] by blast
qed

section \<open>Trimming\<close>

text \<open>What halving \<open>n\<close> times keeps and what it gives back, going left or towards a region \<open>q\<close>.\<close>

fun trim_blocks :: "nat \<Rightarrow> region \<Rightarrow> region \<times> region set" where
  "trim_blocks 0 r = (r, {})"
| "trim_blocks (Suc n) r =
     (let (a, b) = region_halve r; (r', R) = trim_blocks n a in (r', insert b R))"

fun trim_region_blocks :: "region \<Rightarrow> nat \<Rightarrow> region \<Rightarrow> region \<times> region set" where
  "trim_region_blocks q 0 r = (r, {})"
| "trim_region_blocks q (Suc n) r =
     (let (a, b) = region_halve r in
      if region_contains a q then (let (r', R) = trim_region_blocks q n a in (r', insert b R))
      else if region_contains b q then (let (r', R) = trim_region_blocks q n b in (r', insert a R))
      else (r, {}))"

lemma trim_loop_ok:
  assumes "pb_rep page w nss s" and "block (e + n) r" and "e + n < 21"
    and "pages r \<inter> free_pages nss s = {}" and "used w + n \<le> 32"
  shows "\<exists>r' w' nss' s'. trim_loop r (of_nat (e + n)) (of_nat e) s = Some ((r', of_nat e), s')
    \<and> pb_rep page w' nss' s' \<and> block e r' \<and> rg_offset r' = rg_offset r
    \<and> pages r' \<inter> free_pages nss' s' = {} \<and> pages r' \<union> free_pages nss' s' = pages r \<union> free_pages nss s
    \<and> used w' = used w + n \<and> r' = fst (trim_blocks n r) \<and> blocks nss' s' = blocks nss s \<union> snd (trim_blocks n r)"
  using assms
proof (induction n arbitrary: w nss s r)
  case 0
  then show ?case by (auto simp: trim_loop.simps [of r "of_nat e" "of_nat e" s])
next
  case (Suc n)
  obtain a b where ab: "region_halve r = (a, b)" by fastforce
  note h = block_halves [OF _ ab, of "e + n"]
  have bl: "block (e + n) a" "block (e + n) b" "pages a \<union> pages b = pages r" "pages a \<inter> pages b = {}"
      "rg_offset a = rg_offset r" using h Suc.prems(2) by simp_all
  have d: "e + n < 21" using Suc.prems(3) by simp
  have disj_b: "pages b \<inter> free_pages nss s = {}" using Suc.prems(4) bl(3) by auto
  have room: "used w < 32" using Suc.prems(5) by simp
  obtain x s1 s2 w1 nss1 where add: "create_node b s = Some ((of_nat (e + n), x), s1)" "x \<noteq> nullptr"
      "insert_node (of_nat (e + n)) x s1 = Some s2" "pb_rep page w1 nss1 s2"
      "free_pages nss1 s2 = pages b \<union> free_pages nss s" "used w1 = Suc (used w)"
      "blocks nss1 s2 = insert b (blocks nss s)"
    using add_region_ok [OF Suc.prems(1) d bl(2) disj_b] room by blast
  have dn: "(of_nat (e + Suc n) :: u32) \<noteq> of_nat e" "(of_nat (e + Suc n) :: u32) - 1 = of_nat (e + n)"
    using depth_eq_iff [of "e + Suc n" e] Suc.prems(3) by simp_all
  have "pages a \<inter> free_pages nss1 s2 = {}" using add(5) bl(3,4) Suc.prems(4) by auto
  moreover have "used w1 + n \<le> 32" using add(6) Suc.prems(5) by simp
  ultimately obtain r' w' nss' s' where rec: "trim_loop a (of_nat (e + n)) (of_nat e) s2 = Some ((r', of_nat e), s')"
    "pb_rep page w' nss' s'" "block e r'" "rg_offset r' = rg_offset a" "pages r' \<inter> free_pages nss' s' = {}"
    "pages r' \<union> free_pages nss' s' = pages a \<union> free_pages nss1 s2" "used w' = used w1 + n"
    "r' = fst (trim_blocks n a)" "blocks nss' s' = blocks nss1 s2 \<union> snd (trim_blocks n a)"
    using Suc.IH [OF add(4) bl(1) d] by blast
  have "trim_loop r (of_nat (e + Suc n)) (of_nat e) s = Some ((r', of_nat e), s')"
    using add(1,2,3) rec(1) dn by (subst trim_loop.simps) (simp add: ab Let_def del: of_nat_add of_nat_Suc)
  moreover have "pages r' \<union> free_pages nss' s' = pages r \<union> free_pages nss s"
    using rec(6) add(5) bl(3) by auto
  moreover have "r' = fst (trim_blocks (Suc n) r) \<and> blocks nss' s' = blocks nss s \<union> snd (trim_blocks (Suc n) r)"
    using rec(8,9) add(7) by (simp add: ab split_def Let_def)
  ultimately show ?case using rec(2-7) bl(5) add(6) by auto
qed

section \<open>Finding a free region\<close>

definition smallest :: "(region \<Rightarrow> bool) \<Rightarrow> region set \<Rightarrow> region \<Rightarrow> bool" where
  "smallest cond R q \<longleftrightarrow> q \<in> R \<and> cond q \<and> (\<forall>r \<in> R. cond r \<longrightarrow> rg_length q \<le> rg_length r)"

lemma smallest_block:
  assumes rep: "pb_rep page w nss s" and x: "d < 21" "x \<in> set (nss d)" "cond (content (pb_heap s) x)"
    and none: "\<And>f y. f < d \<Longrightarrow> y \<in> set (nss f) \<Longrightarrow> \<not> cond (content (pb_heap s) y)"
  shows "smallest cond (blocks nss s) (content (pb_heap s) x)"
  unfolding smallest_def
proof (intro conjI ballI impI x(3))
  show "content (pb_heap s) x \<in> blocks nss s"
    using in_all_nodes [where nss = nss, OF x(1,2)] by (simp add: blocks_def)
  fix r assume "r \<in> blocks nss s" "cond r"
  then obtain y e where y: "e < 21" "y \<in> set (nss e)" "r = content (pb_heap s) y" "cond (content (pb_heap s) y)"
    by (auto simp: blocks_def all_nodes_def)
  then have "d \<le> e" using none [of e y] by (cases "e < d") auto
  then have "(2::nat) ^ d \<le> 2 ^ e" by (intro power_increasing) simp_all
  then show "rg_length (content (pb_heap s) x) \<le> rg_length r"
    using pb_repD(5) [OF rep x(1,2)] pb_repD(5) [OF rep y(1,2)] y(3) by (simp add: block_def unat_word_le)
qed

lemma find_free_loop_ok:
  assumes rep: "pb_rep page w nss s" and "d \<le> 21"
  shows "\<exists>x. find_free_loop s cond (of_nat d) = Some x \<and>
    (if x = nullptr then \<forall>e < 21. d \<le> e \<longrightarrow> (\<forall>y \<in> set (nss e). \<not> cond (content (pb_heap s) y))
     else \<exists>e < 21. d \<le> e \<and> x \<in> set (nss e) \<and> cond (content (pb_heap s) x)
       \<and> (\<forall>f < e. d \<le> f \<longrightarrow> (\<forall>y \<in> set (nss f). \<not> cond (content (pb_heap s) y))))"
  using assms(2)
proof (induction rule: inc_induct)
  case base
  then show ?case by (auto simp: find_free_loop.simps [of s cond "21"] max_depth_21)
next
  case (step d)
  let ?P = "\<lambda>y. cond (content (pb_heap s) y)" and ?l = "pb_free_lists s ! d"
  have d: "d < 21" "d \<le> 21" using step by simp_all
  have neq: "(of_nat d :: u32) \<noteq> max_depth"
    using depth_eq_iff [of d 21] d by (simp add: max_depth_21)
  have nodes: "y \<noteq> nullptr \<and> pb_heap s y \<noteq> None" if "y \<in> set (nss d)" for y
    using pb_rep_node [OF rep in_all_nodes [where nss = nss, OF d(1) that]] .
  have find: "find_if (pi_incr (pb_heap s)) pi_deref
      (\<lambda>node. Option.bind (get_node (pb_heap s) node) (\<lambda>n. Some (cond (nd_content n)))) (mll_begin ?l) (mll_end ?l)
    = Some (case find ?P (nss d) of None \<Rightarrow> mll_end ?l | Some x \<Rightarrow> \<lparr>it_ptr = x, it_at_end = False\<rparr>)"
    by (rule find_if_list [OF pb_repD(2) [OF rep d(1)]]) (use nodes in \<open>fastforce simp: get_node_def content_def\<close>)
  show ?case
  proof (cases "find ?P (nss d)")
    case None
    then have none: "\<forall>y \<in> set (nss d). \<not> ?P y" by (simp add: find_None_iff)
    have "find_free_loop s cond (of_nat d) = find_free_loop s cond (of_nat (Suc d))"
      using neq find None by (subst find_free_loop.simps)
        (simp add: arr_at_def unat_depth [OF d(2)] pb_repD(1) [OF rep] d add.commute)
    moreover have split: "d \<le> e \<longleftrightarrow> e = d \<or> Suc d \<le> e" for e by auto
    moreover obtain x where "find_free_loop s cond (of_nat (Suc d)) = Some x"
      "if x = nullptr then \<forall>e < 21. Suc d \<le> e \<longrightarrow> (\<forall>y \<in> set (nss e). \<not> ?P y)
       else \<exists>e < 21. Suc d \<le> e \<and> x \<in> set (nss e) \<and> ?P x \<and> (\<forall>f < e. Suc d \<le> f \<longrightarrow> (\<forall>y \<in> set (nss f). \<not> ?P y))"
      using step.IH by blast
    ultimately show ?thesis using none by (intro exI [of _ x]) (auto simp del: of_nat_Suc split: if_splits)
  next
    case (Some x)
    then have x: "x \<in> set (nss d)" "?P x" by (auto dest: find_SomeD)
    have "find_free_loop s cond (of_nat d) = Some x"
      using neq find Some by (subst find_free_loop.simps)
        (simp add: arr_at_def unat_depth [OF d(2)] pb_repD(1) [OF rep] d mll_end_def pi_deref_def)
    then show ?thesis using x d nodes [OF x(1)] by auto
  qed
qed

lemma pb_allocate_ok:
  assumes rep: "pb_rep page w nss s" and n: "n \<noteq> 0" "unat n \<le> 2 ^ 19" and room: "used w \<le> 13"
  shows "(\<forall>y \<in> all_nodes nss. \<not> (region_fits (content (pb_heap s) y) n
        \<and> region_aligned_to (content (pb_heap s) y) (pal_unsigned al)))
      \<and> pb_allocate n al s = Some (no_brokered_allocation, s)
    \<or> (\<exists>r e b s' w' nss'. pb_allocate n al s = Some (b, s') \<and> ba_ptr b = region_ptr PageSize r 0
      \<and> ba_size b = region_size PageSize r \<and> block e r \<and> e < 20 \<and> unat n \<le> 2 ^ e \<and> 2 ^ e < 2 * unat n
      \<and> region_aligned_to r (pal_unsigned al) \<and> pages r \<subseteq> free_pages nss s \<and> pb_rep page w' nss' s'
      \<and> free_pages nss' s' = free_pages nss s - pages r
      \<and> (\<exists>q m. smallest (\<lambda>r. region_fits r n \<and> region_aligned_to r (pal_unsigned al)) (blocks nss s) q
        \<and> block (e + m) q \<and> r = fst (trim_blocks m q)
        \<and> blocks nss' s' = blocks nss s - {q} \<union> snd (trim_blocks m q)
        \<and> ba_overhead_used b = of_nat m * max_overhead_per_allocation * page_node_size))"
proof -
  let ?cond = "\<lambda>r. region_fits r n \<and> region_aligned_to r (pal_unsigned al)"
  obtain k where k: "depth_from_page_length n = of_nat k" "2 ^ k \<le> unat n" "unat n < 2 ^ Suc k"
    using depth_from_page_length_bounds [OF n(1)] .
  have k19: "k \<le> 19"
  proof -
    have "(2::nat) ^ k \<le> 2 ^ 19" using k(2) n(2) by (rule le_trans)
    then show ?thesis by (rule power_le_imp_le_exp [rotated]) simp
  qed
  obtain x where x: "find_free_pages n al s = Some x"
      "if x = nullptr then \<forall>e < 21. k \<le> e \<longrightarrow> (\<forall>y \<in> set (nss e). \<not> ?cond (content (pb_heap s) y))
       else \<exists>e < 21. k \<le> e \<and> x \<in> set (nss e) \<and> ?cond (content (pb_heap s) x)
         \<and> (\<forall>f < e. k \<le> f \<longrightarrow> (\<forall>y \<in> set (nss f). \<not> ?cond (content (pb_heap s) y)))"
    using find_free_loop_ok [OF rep, of k ?cond] k19 by (auto simp: find_free_pages_def k(1))
  have too_small: "\<not> ?cond (content (pb_heap s) y)" if e: "e < 21" "y \<in> set (nss e)" "e < k" for y e
  proof -
    have "(2::nat) ^ Suc e \<le> 2 ^ k" using e(3) by (intro power_increasing) simp_all
    moreover have "(2::nat) ^ e < 2 ^ Suc e" by simp
    ultimately have "(2::nat) ^ e < unat n" using k(2) by linarith
    then show ?thesis using pb_repD(5) [OF rep e(1,2)] by (simp add: block_def region_fits_def unat_word_le)
  qed
  show ?thesis
  proof (cases "x = nullptr")
    case True
    have "\<not> ?cond (content (pb_heap s) y)" if y: "y \<in> all_nodes nss" for y
    proof -
      obtain e where e: "e < 21" "y \<in> set (nss e)" using y by (auto simp: all_nodes_def)
      then show ?thesis using too_small [OF e] x(2) True by (cases "k \<le> e") auto
    qed
    then show ?thesis using x(1) True by (simp add: pb_allocate_def)
  next
    case False
    then obtain d where d: "d < 21" "k \<le> d" "x \<in> set (nss d)" "?cond (content (pb_heap s) x)"
        and first: "\<And>f y. f < d \<Longrightarrow> k \<le> f \<Longrightarrow> y \<in> set (nss f) \<Longrightarrow> \<not> ?cond (content (pb_heap s) y)"
      using x(2) by auto
    let ?r = "content (pb_heap s) x"
    have bl: "block d ?r" by (rule pb_repD(5) [OF rep d(1,3)])
    have least: "smallest ?cond (blocks nss s) ?r"
    proof (rule smallest_block [where cond = ?cond, OF rep d(1,3,4)])
      show "\<not> ?cond (content (pb_heap s) y)" if "f < d" "y \<in> set (nss f)" for f y
        using first [OF that(1) _ that(2)] too_small [of f y] that d(1) by (cases "k \<le> f") auto
    qed
    obtain e where e: "align_up_to_power n = Some (2 ^ e)" "unat n \<le> 2 ^ e" "\<forall>j < e. 2 ^ j < unat n" "e \<le> 19"
      using align_up_to_power_ok [OF n(2)] by auto
    have fits: "unat n \<le> 2 ^ d" using d(4) bl by (simp add: region_fits_def unat_word_le block_def)
    then have "e \<le> d" using e(3) by (meson not_le)
    then obtain m where m: "d = e + m" by (auto simp: le_iff_add)
    have tight: "2 ^ e < 2 * unat n"
    proof (cases e)
      case 0
      have "0 < unat n" using n(1) by (simp add: unat_gt_0)
      then show ?thesis unfolding 0 power_0 by linarith
    next
      case (Suc j)
      then have "2 ^ j < unat n" using e(3) by simp
      then show ?thesis unfolding Suc power_Suc by simp
    qed
    obtain h where h: "pb_heap s x = Some h" "x \<noteq> nullptr"
      using pb_rep_node [OF rep in_all_nodes [where nss = nss, OF d(1,3)]] by auto
    then have node: "get_node (pb_heap s) x = Some h" "nd_content h = ?r"
      by (simp_all add: get_node_def content_def)
    obtain s1 w1 nss1 where rem: "remove_node (of_nat d) x s = Some s1" "pb_rep page w1 nss1 s1"
        "free_pages nss1 s1 = free_pages nss s - pages ?r" "pages ?r \<subseteq> free_pages nss s" "Suc (used w1) = used w"
        "blocks nss1 s1 = blocks nss s - {?r}"
      using remove_node_ok [OF rep d(1,3)] by blast
    have "used w1 + m \<le> 32" using rem(5) room d(1) m by linarith
    then obtain r' w' nss' s' where trim: "trim_loop ?r (of_nat d) (of_nat e) s1 = Some ((r', of_nat e), s')"
        "pb_rep page w' nss' s'" "block e r'" "rg_offset r' = rg_offset ?r" "pages r' \<inter> free_pages nss' s' = {}"
        "pages r' \<union> free_pages nss' s' = pages ?r \<union> free_pages nss1 s1"
        "r' = fst (trim_blocks m ?r)" "blocks nss' s' = blocks nss1 s1 \<union> snd (trim_blocks m ?r)"
      using trim_loop_ok [OF rem(2), of e m ?r] bl d(1) rem(3) unfolding m by auto
    have de: "depth_from_page_length (2 ^ e) = of_nat e"
      by (rule depth_of_power) (use e(4) in \<open>simp add: unat_exp_word\<close>)
    have run: "remove_and_trim_pages x n s = Some ((r', (of_nat d - of_nat e) * max_overhead_per_allocation), s')"
      using node rem(1) trim(1) bl
      by (simp add: remove_and_trim_pages_def Let_def depth_of_power [of _ d] block_def e(1) de trim_aligned_region_def)
    have all: "pages r' \<union> free_pages nss' s' = free_pages nss s" using trim(6) rem(3,4) by auto
    have "region_aligned_to r' (pal_unsigned al)" using d(4) trim(4) by (simp add: region_aligned_to_def)
    moreover have "block (e + m) ?r" "blocks nss' s' = blocks nss s - {?r} \<union> snd (trim_blocks m ?r)"
      using bl trim(8) rem(6) by (simp_all add: m)
    moreover have "pb_allocate n al s = Some (\<lparr>ba_ptr = region_ptr PageSize r' 0, ba_size = region_size PageSize r',
        ba_overhead_used = of_nat m * max_overhead_per_allocation * page_node_size\<rparr>, s')"
      using run x(1) False by (simp add: pb_allocate_def m)
    moreover have "free_pages nss' s' = free_pages nss s - pages r'" "pages r' \<subseteq> free_pages nss s"
      using all trim(5) by auto
    ultimately show ?thesis
      using trim(2,3,7) e(2,4) tight least
      by - (rule disjI2, rule exI [of _ r'], rule exI [of _ e], (rule exI)+, (rule conjI, assumption),
        (intro conjI; (rule exI [of _ ?r], rule exI [of _ m])?; simp))
  qed
qed

section \<open>Reserving a given region\<close>

lemma trim_region_loop_ok:
  assumes "region_fits_space q" and "region_bool q"
    and "pb_rep page w nss s" and "block (e + n) r" and "e + n < 21"
    and "pages r \<inter> free_pages nss s = {}" and "used w + n \<le> 32" and "pages q \<subseteq> pages r"
  shows "\<exists>r' m w' nss' s'. trim_region_loop q r (of_nat (e + n)) (of_nat e) s = Some ((r', of_nat (e + m)), s')
    \<and> m \<le> n \<and> pb_rep page w' nss' s' \<and> block (e + m) r' \<and> pages q \<subseteq> pages r'
    \<and> pages r' \<inter> free_pages nss' s' = {} \<and> pages r' \<union> free_pages nss' s' = pages r \<union> free_pages nss s
    \<and> r' = fst (trim_region_blocks q n r) \<and> blocks nss' s' = blocks nss s \<union> snd (trim_region_blocks q n r)"
  using assms(3-)
proof (induction n arbitrary: w nss s r)
  case 0
  then show ?case by (auto simp: trim_region_loop.simps [of q r "of_nat e" "of_nat e" s])
next
  case (Suc n)
  obtain a b where ab: "region_halve r = (a, b)" by fastforce
  note h = block_halves [OF _ ab, of "e + n"]
  have bl: "block (e + n) a" "block (e + n) b" "pages a \<union> pages b = pages r" "pages a \<inter> pages b = {}"
    using h Suc.prems(2) by simp_all
  have d: "e + n < 21" using Suc.prems(3) by simp
  have dn: "(of_nat (e + Suc n) :: u32) \<noteq> of_nat e" "(of_nat (e + Suc n) :: u32) - 1 = of_nat (e + n)"
    using depth_eq_iff [of "e + Suc n" e] Suc.prems(3) by simp_all
  have ca: "region_contains a q \<longleftrightarrow> pages q \<subseteq> pages a" and cb: "region_contains b q \<longleftrightarrow> pages q \<subseteq> pages b"
    using region_contains_iff assms(1,2) block_fits_space bl(1,2) by blast+
  show ?case
  proof (cases "pages q \<subseteq> pages a \<or> pages q \<subseteq> pages b")
    case False
    then have "trim_region_loop q r (of_nat (e + Suc n)) (of_nat e) s = Some ((r, of_nat (e + Suc n)), s)"
      using dn(1) by (subst trim_region_loop.simps) (simp add: ab ca cb del: of_nat_add of_nat_Suc)
    moreover have "trim_region_blocks q (Suc n) r = (r, {})" using False by (simp add: ab ca cb)
    ultimately show ?thesis using Suc.prems by (intro exI [of _ r] exI [of _ "Suc n"]) auto
  next
    case True
    define keep where "keep = (if pages q \<subseteq> pages a then a else b)"
    define rest where "rest = (if pages q \<subseteq> pages a then b else a)"
    have k: "block (e + n) keep" "block (e + n) rest" "pages keep \<union> pages rest = pages r"
        "pages keep \<inter> pages rest = {}" "pages q \<subseteq> pages keep"
      using bl True by (auto simp: keep_def rest_def)
    have disj: "pages rest \<inter> free_pages nss s = {}" using Suc.prems(4) k(3) by auto
    have room: "used w < 32" using Suc.prems(5) by simp
    obtain x s1 s2 w1 nss1 where add: "create_node rest s = Some ((of_nat (e + n), x), s1)" "x \<noteq> nullptr"
        "insert_node (of_nat (e + n)) x s1 = Some s2" "pb_rep page w1 nss1 s2"
        "free_pages nss1 s2 = pages rest \<union> free_pages nss s" "used w1 = Suc (used w)"
        "blocks nss1 s2 = insert rest (blocks nss s)"
      using add_region_ok [OF Suc.prems(1) d k(2) disj] room by blast
    have "pages keep \<inter> free_pages nss1 s2 = {}" using add(5) k(3,4) Suc.prems(4) by auto
    moreover have "used w1 + n \<le> 32" using add(6) Suc.prems(5) by simp
    ultimately obtain r' m w' nss' s' where rec:
      "trim_region_loop q keep (of_nat (e + n)) (of_nat e) s2 = Some ((r', of_nat (e + m)), s')" "m \<le> n"
      "pb_rep page w' nss' s'" "block (e + m) r'" "pages q \<subseteq> pages r'" "pages r' \<inter> free_pages nss' s' = {}"
      "pages r' \<union> free_pages nss' s' = pages keep \<union> free_pages nss1 s2"
      "r' = fst (trim_region_blocks q n keep)" "blocks nss' s' = blocks nss1 s2 \<union> snd (trim_region_blocks q n keep)"
      using Suc.IH [OF add(4) k(1) d] k(5) by blast
    have "trim_region_loop q r (of_nat (e + Suc n)) (of_nat e) s = Some ((r', of_nat (e + m)), s')"
    proof (cases "pages q \<subseteq> pages a")
      case left: True
      then have "keep = a" "rest = b" by (simp_all add: keep_def rest_def)
      then show ?thesis
        using add(1,2,3) rec(1) dn left
        by (subst trim_region_loop.simps) (simp add: ab Let_def ca cb del: of_nat_add of_nat_Suc)
    next
      case right: False
      then have "keep = b" "rest = a" "pages q \<subseteq> pages b" using True by (simp_all add: keep_def rest_def)
      then show ?thesis
        using add(1,2,3) rec(1) dn right
        by (subst trim_region_loop.simps) (simp add: ab Let_def ca cb del: of_nat_add of_nat_Suc)
    qed
    moreover have "pages r' \<union> free_pages nss' s' = pages r \<union> free_pages nss s"
      using rec(7) add(5) k(3) by auto
    moreover have "trim_region_blocks q (Suc n) r
        = (fst (trim_region_blocks q n keep), insert rest (snd (trim_region_blocks q n keep)))"
      using True by (auto simp: ab ca cb Let_def split_def keep_def rest_def)
    then have "r' = fst (trim_region_blocks q (Suc n) r)
        \<and> blocks nss' s' = blocks nss s \<union> snd (trim_region_blocks q (Suc n) r)"
      using rec(8,9) add(7) by simp
    ultimately show ?thesis using rec(2-6)
      by (intro exI [of _ r'] exI [of _ m] exI [of _ w'] exI [of _ nss'] exI [of _ s']) auto
  qed
qed

lemma pb_reserve_region_ok:
  assumes rep: "pb_rep page w nss s" and q: "region_fits_space q" "region_bool q" "unat (rg_length q) \<le> 2 ^ 20"
    and room: "used w \<le> 13"
  shows "(\<forall>y \<in> all_nodes nss. \<not> pages q \<subseteq> pages (content (pb_heap s) y))
      \<and> pb_reserve_region q s = Some (no_brokered_allocation, s)
    \<or> (\<exists>r e b s' w' nss'. pb_reserve_region q s = Some (b, s') \<and> ba_ptr b = region_ptr PageSize r 0
      \<and> ba_size b = region_size PageSize r \<and> block e r \<and> pages q \<subseteq> pages r
      \<and> pages r \<subseteq> free_pages nss s \<and> pb_rep page w' nss' s'
      \<and> free_pages nss' s' = free_pages nss s - pages r
      \<and> (\<exists>p k m. p \<in> blocks nss s \<and> pages q \<subseteq> pages p \<and> block (k + m) p
        \<and> 2 ^ k \<le> unat (rg_length q) \<and> unat (rg_length q) < 2 ^ Suc k \<and> k \<le> e
        \<and> r = fst (trim_region_blocks q m p)
        \<and> blocks nss' s' = blocks nss s - {p} \<union> snd (trim_region_blocks q m p)
        \<and> ba_overhead_used b = (of_nat k - of_nat e) * max_overhead_per_allocation * page_node_size))"
proof -
  let ?cond = "\<lambda>r. region_contains r q" and ?n = "rg_length q"
  have n0: "?n \<noteq> 0" using q(2) by (simp add: region_bool_def)
  obtain k where k: "depth_from_page_length ?n = of_nat k" "2 ^ k \<le> unat ?n" "unat ?n < 2 ^ Suc k"
    using depth_from_page_length_bounds [OF n0] .
  have k20: "k \<le> 20"
  proof -
    have "(2::nat) ^ k \<le> 2 ^ 20" using k(2) q(3) by (rule le_trans)
    then show ?thesis by (rule power_le_imp_le_exp [rotated]) simp
  qed
  have contains: "?cond (content (pb_heap s) y) \<longleftrightarrow> pages q \<subseteq> pages (content (pb_heap s) y)"
    if "e < 21" "y \<in> set (nss e)" for e y
    by (rule region_contains_iff [OF block_fits_space [OF pb_repD(5) [OF rep that]] q(1,2)])
  have small: "\<not> pages q \<subseteq> pages (content (pb_heap s) y)" if "e < 21" "y \<in> set (nss e)" "e < k" for e y
  proof
    assume sub: "pages q \<subseteq> pages (content (pb_heap s) y)"
    have "card (pages q) \<le> card (pages (content (pb_heap s) y))" by (rule card_mono [OF _ sub]) (simp add: pages_def)
    moreover have "unat (rg_length (content (pb_heap s) y)) = 2 ^ e"
      using pb_repD(5) [OF rep that(1,2)] by (simp add: block_def)
    moreover have "(2::nat) ^ e < 2 ^ k" using that(3) by simp
    ultimately show False using k(2) by simp
  qed
  obtain x where x: "find_free_region q s = Some x"
      "if x = nullptr then \<forall>e < 21. k \<le> e \<longrightarrow> (\<forall>y \<in> set (nss e). \<not> ?cond (content (pb_heap s) y))
       else \<exists>e < 21. k \<le> e \<and> x \<in> set (nss e) \<and> ?cond (content (pb_heap s) x)
         \<and> (\<forall>f < e. k \<le> f \<longrightarrow> (\<forall>y \<in> set (nss f). \<not> ?cond (content (pb_heap s) y)))"
    using find_free_loop_ok [OF rep, of k ?cond] k20 by (auto simp: find_free_region_def k(1))
  show ?thesis
  proof (cases "x = nullptr")
    case True
    have "\<not> pages q \<subseteq> pages (content (pb_heap s) y)" if y: "y \<in> all_nodes nss" for y
    proof -
      obtain e where e: "e < 21" "y \<in> set (nss e)" using y by (auto simp: all_nodes_def)
      then show ?thesis using small [OF e] x(2) True contains [OF e] by (cases "k \<le> e") auto
    qed
    then show ?thesis using x(1) True by (simp add: pb_reserve_region_def)
  next
    case False
    then obtain d where d: "d < 21" "k \<le> d" "x \<in> set (nss d)" "?cond (content (pb_heap s) x)" using x(2) by auto
    let ?r = "content (pb_heap s) x"
    have bl: "block d ?r" by (rule pb_repD(5) [OF rep d(1,3)])
    obtain n where n: "d = k + n" using d(2) by (auto simp: le_iff_add)
    obtain h where h: "pb_heap s x = Some h" "x \<noteq> nullptr"
      using pb_rep_node [OF rep in_all_nodes [where nss = nss, OF d(1,3)]] by auto
    then have node: "get_node (pb_heap s) x = Some h" "nd_content h = ?r"
      by (simp_all add: get_node_def content_def)
    obtain s1 w1 nss1 where rem: "remove_node (of_nat d) x s = Some s1" "pb_rep page w1 nss1 s1"
        "free_pages nss1 s1 = free_pages nss s - pages ?r" "pages ?r \<subseteq> free_pages nss s" "Suc (used w1) = used w"
        "blocks nss1 s1 = blocks nss s - {?r}"
      using remove_node_ok [OF rep d(1,3)] by blast
    have "used w1 + n \<le> 32" using rem(5) room d(1) n by linarith
    moreover have "pages q \<subseteq> pages ?r" using contains [OF d(1,3)] d(4) by simp
    ultimately obtain r' m w' nss' s' where trim:
        "trim_region_loop q ?r (of_nat d) (of_nat k) s1 = Some ((r', of_nat (k + m)), s')" "m \<le> n"
        "pb_rep page w' nss' s'" "block (k + m) r'" "pages q \<subseteq> pages r'" "pages r' \<inter> free_pages nss' s' = {}"
        "pages r' \<union> free_pages nss' s' = pages ?r \<union> free_pages nss1 s1"
        "r' = fst (trim_region_blocks q n ?r)" "blocks nss' s' = blocks nss1 s1 \<union> snd (trim_region_blocks q n ?r)"
      using trim_region_loop_ok [OF q(1,2) rem(2), of k n ?r] bl d(1) rem(3) unfolding n by auto
    have run: "remove_and_trim_region x q s = Some ((r', (of_nat k - of_nat (k + m)) * max_overhead_per_allocation), s')"
      using node rem(1) trim(1) bl
      by (simp add: remove_and_trim_region_def Let_def depth_of_power [of _ d] block_def k(1) del: of_nat_add)
    have all: "pages r' \<union> free_pages nss' s' = free_pages nss s" using trim(7) rem(3,4) by auto
    have "free_pages nss' s' = free_pages nss s - pages r'" "pages r' \<subseteq> free_pages nss s" using all trim(6) by auto
    moreover have "?r \<in> blocks nss s" "pages q \<subseteq> pages ?r" "block (k + n) ?r"
        "blocks nss' s' = blocks nss s - {?r} \<union> snd (trim_region_blocks q n ?r)"
      using in_all_nodes [where nss = nss, OF d(1,3)] contains [OF d(1,3)] d(4) bl trim(9) rem(6)
      by (simp_all add: blocks_def n)
    moreover have "pb_reserve_region q s = Some (\<lparr>ba_ptr = region_ptr PageSize r' 0, ba_size = region_size PageSize r',
        ba_overhead_used = (of_nat k - of_nat (k + m)) * max_overhead_per_allocation * page_node_size\<rparr>, s')"
      using run x(1) False by (simp add: pb_reserve_region_def)
    ultimately show ?thesis
      using trim(3-5,8) all trim(6) k(2,3)
      by - (rule disjI2, rule exI [of _ r'], rule exI [of _ "k + m"], (rule exI)+, (rule conjI, assumption),
        (intro conjI; (rule exI [of _ ?r], rule exI [of _ k], rule exI [of _ n])?; simp?))
  qed
qed

section \<open>Freeing\<close>

lemma free_region_ok:
  assumes rep: "pb_rep page w nss s" and d: "d < 21" and r: "block d r"
    and disj: "pages r \<inter> free_pages nss s = {}" and room: "used w < 32"
  shows "\<exists>s' w' nss'. free_region r s = Some (max_overhead_per_allocation, s') \<and> pb_rep page w' nss' s'
    \<and> free_pages nss' s' = pages r \<union> free_pages nss s \<and> used w' = Suc (used w)
    \<and> blocks nss' s' = insert r (blocks nss s)"
proof -
  obtain x s1 s2 w' nss' where "create_node r s = Some ((of_nat d, x), s1)" "x \<noteq> nullptr"
      "insert_node (of_nat d) x s1 = Some s2" "pb_rep page w' nss' s2"
      "free_pages nss' s2 = pages r \<union> free_pages nss s" "used w' = Suc (used w)"
      "blocks nss' s2 = insert r (blocks nss s)"
    using add_region_ok [OF assms] by blast
  then show ?thesis using block_nonempty [OF r] by (auto simp: free_region_def)
qed

lemma block_address_roundtrip:
  assumes "block d r" and "d < 20"
  shows "region_from_ptr PageSize (region_ptr PageSize r 0) (region_size PageSize r) = r"
proof (rule region_ptr_roundtrip)
  have "(2::nat) ^ d < 2 ^ 20" by (rule power_strict_increasing [OF assms(2)]) simp
  moreover have "(0::nat) < 2 ^ d" by simp
  ultimately show "unat (rg_length r) < 2 ^ 20" "unat (rg_offset r) < 2 ^ 20"
    using assms(1) unfolding block_def by linarith+
qed

section \<open>The allocator as a set of free regions\<close>

definition implements :: "page_backend \<Rightarrow> region set \<Rightarrow> bool" where
  "implements s R \<longleftrightarrow> (\<exists>page w nss. pb_rep page w nss s \<and> R = blocks nss s)"

definition covered :: "region set \<Rightarrow> nat set" where
  "covered R = \<Union> (pages ` R)"

lemma pb_rep_card:
  assumes "pb_rep page w nss s"
  shows "card (blocks nss s) = used w"
proof -
  have "card (content (pb_heap s) ` all_nodes nss) = card (slots page w)"
    using pb_repD(4) [OF assms] card_image [OF content_inj [OF assms]] by simp
  also have "slots page w = (\<lambda>k. page + of_nat k * 16) ` {k. k < 32 \<and> bit w k}" by (auto simp: slots_def)
  also have "card \<dots> = used w"
    unfolding used_def by (rule card_image, rule inj_onI) (use slot_inj [of _ _ page] in blast)
  finally show ?thesis by (simp add: blocks_def)
qed

lemma implementsE:
  assumes "implements s R"
  obtains page w nss where "pb_rep page w nss s" "R = blocks nss s" "card R = used w"
    "covered R = free_pages nss s"
  using assms pb_rep_card by (auto simp: implements_def covered_def free_pages_def blocks_def)

lemma implementsI:
  assumes "pb_rep page w nss s"
  shows "implements s (blocks nss s) \<and> covered (blocks nss s) = free_pages nss s \<and> card (blocks nss s) = used w"
  using assms pb_rep_card by (auto simp: implements_def covered_def free_pages_def blocks_def)

text \<open>
  C2. The page allocator's \<open>allocate\<close>, on free regions that are blocks of a power of two of pages, with at
  most 13 of them (one allocation adds at most 19 more, and the node allocator can only hand out 32
  nodes): it always returns. It fails, and changes nothing, exactly when no free region is large enough
  and aligned as asked. Otherwise it hands out the smallest power of two of pages that suffices,
  aligned as asked, out of the free pages, and exactly these pages stop being free: the smallest
  free region that will do is halved, and the right halves become free regions.
\<close>
theorem page_allocate_safe:
  assumes "implements s R" and "card R \<le> 13" and "n \<noteq> 0" and "unat n \<le> 2 ^ 19"
  shows "(\<forall>q \<in> R. \<not> (region_fits q n \<and> region_aligned_to q (pal_unsigned al)))
      \<and> pb_allocate n al s = Some (no_brokered_allocation, s)
    \<or> (\<exists>r e b s' R'. pb_allocate n al s = Some (b, s') \<and> implements s' R'
      \<and> ba_ptr b = region_ptr PageSize r 0 \<and> ba_size b = region_size PageSize r
      \<and> unat (rg_length r) = 2 ^ e \<and> unat n \<le> 2 ^ e \<and> 2 ^ e < 2 * unat n
      \<and> region_aligned_to r (pal_unsigned al) \<and> pages r \<subseteq> covered R \<and> covered R' = covered R - pages r
      \<and> (\<exists>q m. smallest (\<lambda>r. region_fits r n \<and> region_aligned_to r (pal_unsigned al)) R q
        \<and> r = fst (trim_blocks m q) \<and> R' = R - {q} \<union> snd (trim_blocks m q)))"
proof -
  obtain page w nss where rep: "pb_rep page w nss s" "R = blocks nss s" "card R = used w"
    "covered R = free_pages nss s" using assms(1) by (rule implementsE)
  then have "used w \<le> 13" using assms(2) by simp
  from pb_allocate_ok [OF rep(1) assms(3,4) this, of al] show ?thesis
  proof (elim disjE exE conjE)
    fix r e b s' w' nss' q m
    assume r: "pb_allocate n al s = Some (b, s')" "ba_ptr b = region_ptr PageSize r 0"
      "ba_size b = region_size PageSize r" "block e r" "unat n \<le> 2 ^ e" "2 ^ e < 2 * unat n"
      "region_aligned_to r (pal_unsigned al)" "pages r \<subseteq> free_pages nss s" and rep': "pb_rep page w' nss' s'"
      and free: "free_pages nss' s' = free_pages nss s - pages r"
      and split: "smallest (\<lambda>r. region_fits r n \<and> region_aligned_to r (pal_unsigned al)) (blocks nss s) q"
      "r = fst (trim_blocks m q)" "blocks nss' s' = blocks nss s - {q} \<union> snd (trim_blocks m q)"
    show ?thesis
      using r free split rep(2,4) implementsI [OF rep']
      by (intro disjI2 exI [of _ r] exI [of _ e] exI [of _ b] exI [of _ s'] exI [of _ "blocks nss' s'"])
        (auto simp: block_def)
  qed (simp add: rep(2) blocks_def)
qed


text \<open>
  C11. \<open>free\<close> of a block of pages that are not free adds it to the free regions, and so makes exactly
  these pages free again, as long as a node is left for it.
\<close>
theorem page_free_releases:
  assumes "implements s R" and "card R < 32" and "block d r" and "d < 20" and "pages r \<inter> covered R = {}"
  shows "\<exists>s'. pb_free \<lparr>al_ptr = region_ptr PageSize r 0, al_size = region_size PageSize r\<rparr> s = Some s'
    \<and> implements s' (insert r R) \<and> card (insert r R) = Suc (card R)"
proof -
  obtain page w nss where rep: "pb_rep page w nss s" "R = blocks nss s" "card R = used w"
    "covered R = free_pages nss s" using assms(1) by (rule implementsE)
  obtain s' w' nss' where s': "free_region r s = Some (max_overhead_per_allocation, s')" "pb_rep page w' nss' s'"
      "blocks nss' s' = insert r R" "used w' = Suc (used w)"
    using free_region_ok [OF rep(1) _ assms(3)] assms(2,4,5) rep(2-4) by auto
  then show ?thesis
    using implementsI [OF s'(2)] rep(3) block_address_roundtrip [OF assms(3,4)]
    by (intro exI [of _ s']) (simp add: pb_free_def)
qed

section \<open>Concrete states\<close>

text \<open>The physical memory of the kernel, 131072 pages, as one free region.\<close>

definition physical_memory :: region where
  "physical_memory = \<lparr>rg_offset = 0, rg_length = 131072\<rparr>"

definition fresh_backend :: page_backend where
  "fresh_backend = \<lparr>pb_node_allocator = example_slab 1,
     pb_heap = Map.empty(12288 \<mapsto> \<lparr>nd_next = nullptr, nd_prev = nullptr, nd_content = physical_memory\<rparr>),
     pb_free_lists = (replicate 21 empty_mll)[17 := \<lparr>m_head = 12288, m_tail = 12288, m_length = 1\<rparr>]\<rparr>"

lemma fresh_backend_rep: "pb_rep 12288 1 (\<lambda>d. if d = 17 then [12288] else []) fresh_backend"
proof -
  have nodes: "all_nodes (\<lambda>d. if d = 17 then [12288] else []) = {12288}" by (auto simp: all_nodes_def)
  have "slots 12288 1 = {12288}" by (auto simp: slots_def bit_1_iff)
  moreover have "list_rep (pb_heap fresh_backend) (pb_free_lists fresh_backend ! d) (if d = 17 then [12288] else [])"
    if "d < 21" for d
    using that by (auto simp: fresh_backend_def list_rep_def empty_mll_def nth_list_update)
  moreover have "slab_inv (pb_node_allocator fresh_backend) 4112 1 [0] [8232] 12288"
    using example_slab_inv by (simp add: fresh_backend_def)
  moreover have "block 17 (content (pb_heap fresh_backend) 12288)"
    by (simp add: block_def content_def fresh_backend_def physical_memory_def)
  moreover have "length (pb_free_lists fresh_backend) = 21" by (simp add: fresh_backend_def)
  ultimately show ?thesis unfolding pb_rep_def nodes by auto
qed

lemma fresh_backend_implements: "implements fresh_backend {physical_memory}"
  unfolding implements_def
proof (intro exI conjI)
  show "pb_rep 12288 1 (\<lambda>d. if d = 17 then [12288] else []) fresh_backend" by (rule fresh_backend_rep)
  have "all_nodes (\<lambda>d. if d = 17 then [12288] else []) = {12288}" by (auto simp: all_nodes_def)
  then show "{physical_memory} = blocks (\<lambda>d. if d = 17 then [12288] else []) fresh_backend"
    by (simp add: blocks_def content_def fresh_backend_def)
qed

theorem page_allocate_safe_witness:
  "\<exists>r e b s' R'. pb_allocate 3 PALSection fresh_backend = Some (b, s') \<and> implements s' R'
      \<and> ba_ptr b = region_ptr PageSize r 0 \<and> ba_size b = region_size PageSize r
      \<and> unat (rg_length r) = 2 ^ e \<and> unat (3 :: size_t) \<le> 2 ^ e \<and> 2 ^ e < 2 * unat (3 :: size_t)
      \<and> region_aligned_to r (pal_unsigned PALSection) \<and> pages r \<subseteq> covered {physical_memory}
      \<and> covered R' = covered {physical_memory} - pages r"
proof -
  have "region_fits physical_memory 3 \<and> region_aligned_to physical_memory (pal_unsigned PALSection)"
    by (simp add: region_fits_def region_aligned_to_def physical_memory_def)
  then have "\<not> (\<forall>q \<in> {physical_memory}. \<not> (region_fits q 3 \<and> region_aligned_to q (pal_unsigned PALSection)))"
    by blast
  moreover have "unat (3 :: size_t) \<le> 2 ^ 19" "card {physical_memory} \<le> 13" "(3 :: size_t) \<noteq> 0" by simp_all
  ultimately show ?thesis using page_allocate_safe [OF fresh_backend_implements, of 3 PALSection] by blast
qed


theorem page_free_releases_witness:
  "\<exists>s'. pb_free \<lparr>al_ptr = region_ptr PageSize \<lparr>rg_offset = 245760, rg_length = 16384\<rparr> 0,
      al_size = region_size PageSize \<lparr>rg_offset = 245760, rg_length = 16384\<rparr>\<rparr> fresh_backend = Some s'
    \<and> implements s' {\<lparr>rg_offset = 245760, rg_length = 16384\<rparr>, physical_memory}
    \<and> card {\<lparr>rg_offset = 245760, rg_length = 16384\<rparr>, physical_memory} = Suc (card {physical_memory})"
  by (rule page_free_releases [OF fresh_backend_implements, of 14])
    (auto simp: block_def physical_memory_def covered_def pages_def)

section \<open>A region of three pages is handed out twice\<close>

text \<open>
  A remainder of two pages lands in the list for one page, but is later removed from the list for
  two pages: it stays at the head of its list, although its node is free again.
\<close>

fun allocate_each :: "size_t list \<Rightarrow> page_backend \<Rightarrow> (ptr list \<times> page_backend) option" where
  "allocate_each [] s = Some ([], s)"
| "allocate_each (n # ns) s = do {
     (b, s) \<leftarrow> pb_allocate n PALPage s;
     (ps, s) \<leftarrow> allocate_each ns s;
     Some (ba_ptr b # ps, s)
   }"

definition idle_backend :: page_backend where
  "idle_backend = \<lparr>pb_node_allocator = example_slab 0, pb_heap = Map.empty, pb_free_lists = replicate 21 empty_mll\<rparr>"

text \<open>One node, at the first slot, and what the two lists with the smallest regions hold.\<close>

definition one_node :: "slab \<Rightarrow> ptr \<Rightarrow> ptr \<Rightarrow> region \<Rightarrow> mll \<Rightarrow> mll \<Rightarrow> page_backend" where
  "one_node sl n p r l0 l1 = \<lparr>pb_node_allocator = sl,
     pb_heap = Map.empty(12288 \<mapsto> \<lparr>nd_next = n, nd_prev = p, nd_content = r\<rparr>),
     pb_free_lists = l0 # l1 # replicate 19 empty_mll\<rparr>"

abbreviation holds_slot :: "slab \<Rightarrow> size_t \<Rightarrow> bool" where
  "holds_slot sl w \<equiv> slab_inv sl 4112 w [0] [8232] 12288"

lemma take_first_slot:
  assumes "holds_slot sl 0"
  obtains sl' where "slab_allocate page_node_size sl = Some (\<lparr>al_ptr = 12288, al_size = 16\<rparr>, sl')" "holds_slot sl' 1"
  using slab_allocate_ok [OF assms slot_ok_sizes(1) first_free_0] by (auto simp: page_node_size_def)

lemma give_first_slot:
  assumes "holds_slot sl w" and "w = 0 \<or> w = 1"
  obtains sl' where "slab_free page_node_size \<lparr>al_ptr = 12288, al_size = page_node_size\<rparr> sl = Some (16, sl')" "holds_slot sl' 0"
proof -
  have "w AND NOT (push_bit 0 1) = 0" using assms(2) by auto
  then show thesis using slab_free_ok [OF assms(1) slot_ok_sizes(1), of 0 "\<lparr>al_ptr = 12288, al_size = page_node_size\<rparr>"] that
    by (auto simp: page_node_size_def)
qed

lemma depth_small: "depth_from_page_length 1 = 0" "depth_from_page_length 2 = 1" "depth_from_page_length 3 = 1"
proof -
  show "depth_from_page_length 1 = 0" "depth_from_page_length 2 = 1"
    using depth_of_power [of 1 0] depth_of_power [of 2 1] by simp_all
  obtain k where k: "depth_from_page_length 3 = of_nat k" "2 ^ k \<le> (3::nat)" "(3::nat) < 2 ^ Suc k"
    using depth_from_page_length_bounds [of 3] by auto
  have "k = 1" by (rule floor_log_unique [OF k(2,3)]) simp_all
  then show "depth_from_page_length 3 = 1" using k(1) by simp
qed

lemma find_at_head:
  assumes "arr_at (pb_free_lists s) (unat d) = Some l" and "m_head l = x" and "m_tail l \<noteq> nullptr"
    and "get_node (pb_heap s) x = Some n" and "cond (nd_content n)" and "d \<noteq> max_depth"
  shows "find_free_loop s cond d = Some x"
  using assms by (subst find_free_loop.simps, subst find_if.simps) (simp add: find_if.simps mll_begin_def
      mll_end_def pi_deref_def)

lemma find_past_empty:
  assumes "arr_at (pb_free_lists s) (unat d) = Some empty_mll" and "d \<noteq> max_depth"
  shows "find_free_loop s cond d = find_free_loop s cond (d + 1)"
  using assms by (subst find_free_loop.simps) (simp add: find_if.simps [where it = "\<lparr>it_ptr = _, it_at_end = _\<rparr>"]
      mll_begin_def mll_end_def empty_mll_def)

lemma align_up_to_power_1: "align_up_to_power (1 :: u32) = Some 1"
  using align_up_to_power_ok [of "1 :: u32" 0] by auto

lemma single_list: "lower_bound (pi_incr h) pi_deref (distance (pi_incr h))
    (mll_begin \<lparr>m_head = x, m_tail = x, m_length = k\<rparr>) (mll_end \<lparr>m_head = x, m_tail = x, m_length = k\<rparr>) c
  = Some \<lparr>it_ptr = x, it_at_end = False\<rparr>"
  if "get_node h x = Some n" "nd_next n = nullptr" "x \<noteq> nullptr"
  using that by (simp add: lower_bound_def distance_def distance_loop.simps [of _ "\<lparr>it_ptr = x, it_at_end = _\<rparr>"]
      mll_begin_def mll_end_def pi_incr_def lower_bound_loop.simps)

lemma trim_none: "trim_loop r d d s = Some ((r, d), s)"
  by (subst trim_loop.simps) simp

lemma find_one_node:
  "m_head l0 = 12288 \<Longrightarrow> m_tail l0 \<noteq> nullptr \<Longrightarrow> cond r \<Longrightarrow>
    find_free_loop (one_node sl n p r l0 l1) cond 0 = Some 12288"
  "m_head l1 = 12288 \<Longrightarrow> m_tail l1 \<noteq> nullptr \<Longrightarrow> cond r \<Longrightarrow>
    find_free_loop (one_node sl n p r empty_mll l1) cond 0 = Some 12288"
proof -
  show "m_head l0 = 12288 \<Longrightarrow> m_tail l0 \<noteq> nullptr \<Longrightarrow> cond r \<Longrightarrow>
      find_free_loop (one_node sl n p r l0 l1) cond 0 = Some 12288"
    by (rule find_at_head [where l = l0 and n = "\<lparr>nd_next = n, nd_prev = p, nd_content = r\<rparr>"])
      (simp_all add: one_node_def arr_at_def get_node_def max_depth_21)
  assume l1: "m_head l1 = 12288" "m_tail l1 \<noteq> nullptr" "cond r"
  have "find_free_loop (one_node sl n p r empty_mll l1) cond (0 + 1) = Some 12288"
    using l1 by (intro find_at_head [where l = l1 and n = "\<lparr>nd_next = n, nd_prev = p, nd_content = r\<rparr>"])
      (simp_all add: one_node_def arr_at_def get_node_def max_depth_21)
  then show "find_free_loop (one_node sl n p r empty_mll l1) cond 0 = Some 12288"
    by (subst find_past_empty) (simp_all add: one_node_def arr_at_def max_depth_21)
qed

lemma insert_into_empty:
  "insert_node 0 12288 (one_node sl nullptr nullptr r empty_mll l1)
    = Some (one_node sl nullptr nullptr r \<lparr>m_head = 12288, m_tail = 12288, m_length = 1\<rparr> l1)"
  "insert_node 1 12288 (one_node sl nullptr nullptr r l0 empty_mll)
    = Some (one_node sl nullptr nullptr r l0 \<lparr>m_head = 12288, m_tail = 12288, m_length = 1\<rparr>)"
  using insert_node_eq [of 0 "one_node sl nullptr nullptr r empty_mll l1" "[]" 12288]
    insert_node_eq [of 1 "one_node sl nullptr nullptr r l0 empty_mll" "[]" 12288]
  by (simp_all add: one_node_def unlinked_def mll_insert_after_def Let_def) (simp_all add: empty_mll_def)

lemma create_first_node:
  assumes "slab_allocate page_node_size sl = Some (\<lparr>al_ptr = 12288, al_size = 16\<rparr>, sl')"
  shows "create_node q (one_node sl n p r l0 l1)
    = Some ((depth_from_page_length (rg_length q), 12288), one_node sl' nullptr nullptr q l0 l1)"
  using assms by (simp add: create_node_def one_node_def Let_def construct_at_def)

lemma three_pages_added:
  obtains sl where "pb_add \<lparr>rg_offset = 1024, rg_length = 3\<rparr> idle_backend
      = Some (one_node sl nullptr nullptr \<lparr>rg_offset = 1024, rg_length = 3\<rparr> empty_mll
          \<lparr>m_head = 12288, m_tail = 12288, m_length = 1\<rparr>)" "holds_slot sl 1"
proof -
  obtain sl where sl: "slab_allocate page_node_size (example_slab 0) = Some (\<lparr>al_ptr = 12288, al_size = 16\<rparr>, sl)" "holds_slot sl 1"
    using take_first_slot [OF example_slab_inv] .
  let ?r = "\<lparr>rg_offset = 1024, rg_length = 3\<rparr> :: region"
  have "replicate 21 empty_mll = empty_mll # empty_mll # replicate 19 empty_mll"
    by (simp add: numeral_eq_Suc)
  then have "create_node ?r idle_backend = Some ((1, 12288), one_node sl nullptr nullptr ?r empty_mll empty_mll)"
    by (simp add: create_node_def idle_backend_def one_node_def sl(1) Let_def construct_at_def depth_small)
  then show thesis
    using that sl(2) insert_into_empty(2) by (simp add: pb_add_def free_region_def region_bool_def)
qed

lemma three_pages_first:
  assumes "holds_slot sl 1"
  obtains b sl' where "pb_allocate 1 PALPage (one_node sl nullptr nullptr \<lparr>rg_offset = 1024, rg_length = 3\<rparr> empty_mll
      \<lparr>m_head = 12288, m_tail = 12288, m_length = 1\<rparr>)
    = Some (b, one_node sl' nullptr nullptr \<lparr>rg_offset = 1025, rg_length = 2\<rparr>
        \<lparr>m_head = 12288, m_tail = 12288, m_length = 1\<rparr> empty_mll)" "holds_slot sl' 1" "ba_ptr b = 0x400000"
proof -
  obtain sl1 where sl1: "slab_free page_node_size \<lparr>al_ptr = 12288, al_size = page_node_size\<rparr> sl = Some (16, sl1)" "holds_slot sl1 0"
    using give_first_slot [OF assms] by blast
  obtain sl2 where sl2: "slab_allocate page_node_size sl1 = Some (\<lparr>al_ptr = 12288, al_size = 16\<rparr>, sl2)" "holds_slot sl2 1"
    using take_first_slot [OF sl1(2)] .
  let ?r = "\<lparr>rg_offset = 1024, rg_length = 3\<rparr> :: region" and ?q = "\<lparr>rg_offset = 1025, rg_length = 2\<rparr> :: region"
  let ?l = "\<lparr>m_head = 12288, m_tail = 12288, m_length = 1\<rparr> :: mll"
  let ?s = "one_node sl nullptr nullptr ?r empty_mll ?l"
  have find: "find_free_pages 1 PALPage ?s = Some 12288"
    unfolding find_free_pages_def depth_small
    by (rule find_one_node(2)) (simp_all add: region_fits_def region_aligned_to_def)
  have remove: "remove_node 1 12288 ?s = Some (one_node sl1 nullptr nullptr ?r empty_mll empty_mll)"
    by (simp add: remove_node_def mll_remove_def node_dtor_def get_node_def arr_at_def arr_insert_def one_node_def
        Let_def sl1(1)) (simp add: empty_mll_def)
  have "region_halve ?r = (\<lparr>rg_offset = 1024, rg_length = 1\<rparr>, ?q)" by (simp add: region_halve_def)
  then have "trim_loop ?r 1 0 (one_node sl1 nullptr nullptr ?r empty_mll empty_mll)
      = Some ((\<lparr>rg_offset = 1024, rg_length = 1\<rparr>, 0), one_node sl2 nullptr nullptr ?q ?l empty_mll)"
    by (subst trim_loop.simps) (simp add: create_first_node [OF sl2(1)] insert_into_empty trim_none Let_def)
  moreover have "get_node (pb_heap ?s) 12288 = Some \<lparr>nd_next = nullptr, nd_prev = nullptr, nd_content = ?r\<rparr>"
    by (simp add: one_node_def get_node_def)
  ultimately show thesis
    using that [OF _ sl2(2)] find remove
    by (simp add: pb_allocate_def remove_and_trim_pages_def trim_aligned_region_def Let_def depth_small
        align_up_to_power_1 region_ptr_def PageSize_def)
qed

lemma three_pages_second:
  assumes "holds_slot sl 1"
  obtains b sl' where "pb_allocate 1 PALPage (one_node sl nullptr nullptr \<lparr>rg_offset = 1025, rg_length = 2\<rparr>
      \<lparr>m_head = 12288, m_tail = 12288, m_length = 1\<rparr> empty_mll)
    = Some (b, one_node sl' 12288 12288 \<lparr>rg_offset = 1026, rg_length = 1\<rparr>
        \<lparr>m_head = 12288, m_tail = 12288, m_length = 2\<rparr> \<lparr>m_head = nullptr, m_tail = nullptr, m_length = -1\<rparr>)"
    "holds_slot sl' 1" "ba_ptr b = 0x401000"
proof -
  obtain sl1 where sl1: "slab_free page_node_size \<lparr>al_ptr = 12288, al_size = page_node_size\<rparr> sl = Some (16, sl1)" "holds_slot sl1 0"
    using give_first_slot [OF assms] by blast
  obtain sl2 where sl2: "slab_allocate page_node_size sl1 = Some (\<lparr>al_ptr = 12288, al_size = 16\<rparr>, sl2)" "holds_slot sl2 1"
    using take_first_slot [OF sl1(2)] .
  let ?r = "\<lparr>rg_offset = 1025, rg_length = 2\<rparr> :: region" and ?q = "\<lparr>rg_offset = 1026, rg_length = 1\<rparr> :: region"
  let ?l = "\<lparr>m_head = 12288, m_tail = 12288, m_length = 1\<rparr> :: mll"
  let ?u = "\<lparr>m_head = nullptr, m_tail = nullptr, m_length = -1\<rparr> :: mll"
  let ?s = "one_node sl nullptr nullptr ?r ?l empty_mll"
  have find: "find_free_pages 1 PALPage ?s = Some 12288"
    unfolding find_free_pages_def depth_small
    by (rule find_one_node(1)) (simp_all add: region_fits_def region_aligned_to_def)
  have remove: "remove_node 1 12288 ?s = Some (one_node sl1 nullptr nullptr ?r ?l ?u)"
    by (simp add: remove_node_def mll_remove_def node_dtor_def get_node_def arr_at_def arr_insert_def one_node_def
        empty_mll_def Let_def sl1(1))
  have insert: "insert_node 0 12288 (one_node sl2 nullptr nullptr ?q ?l ?u)
      = Some (one_node sl2 12288 12288 ?q \<lparr>m_head = 12288, m_tail = 12288, m_length = 2\<rparr> ?u)"
    by (simp add: insert_node_def arr_at_def arr_insert_def one_node_def get_node_def single_list pi_deref_def
        mll_insert_after_def set_next_def set_prev_def Let_def)
  have "region_halve ?r = (\<lparr>rg_offset = 1025, rg_length = 1\<rparr>, ?q)" by (simp add: region_halve_def)
  then have "trim_loop ?r 1 0 (one_node sl1 nullptr nullptr ?r ?l ?u)
      = Some ((\<lparr>rg_offset = 1025, rg_length = 1\<rparr>, 0), one_node sl2 12288 12288 ?q \<lparr>m_head = 12288, m_tail = 12288, m_length = 2\<rparr> ?u)"
    by (subst trim_loop.simps) (simp add: create_first_node [OF sl2(1)] insert trim_none Let_def)
  moreover have "get_node (pb_heap ?s) 12288 = Some \<lparr>nd_next = nullptr, nd_prev = nullptr, nd_content = ?r\<rparr>"
    by (simp add: one_node_def get_node_def)
  ultimately show thesis
    using that [OF _ sl2(2)] find remove
    by (simp add: pb_allocate_def remove_and_trim_pages_def trim_aligned_region_def Let_def depth_small
        align_up_to_power_1 region_ptr_def PageSize_def)
qed

lemma three_pages_later:
  assumes "holds_slot sl w" and "w = 0 \<or> w = 1"
  obtains b sl' where "pb_allocate 1 PALPage (one_node sl 12288 12288 \<lparr>rg_offset = 1026, rg_length = 1\<rparr>
      \<lparr>m_head = 12288, m_tail = 12288, m_length = k\<rparr> l1)
    = Some (b, one_node sl' 12288 12288 \<lparr>rg_offset = 1026, rg_length = 1\<rparr>
        \<lparr>m_head = 12288, m_tail = 12288, m_length = k - 1\<rparr> l1)"
    "holds_slot sl' 0" "ba_ptr b = 0x402000"
proof -
  obtain sl1 where sl1: "slab_free page_node_size \<lparr>al_ptr = 12288, al_size = page_node_size\<rparr> sl = Some (16, sl1)" "holds_slot sl1 0"
    using give_first_slot [OF assms] by blast
  let ?r = "\<lparr>rg_offset = 1026, rg_length = 1\<rparr> :: region"
  let ?s = "one_node sl 12288 12288 ?r \<lparr>m_head = 12288, m_tail = 12288, m_length = k\<rparr> l1"
  have find: "find_free_pages 1 PALPage ?s = Some 12288"
    unfolding find_free_pages_def depth_small
    by (rule find_one_node(1)) (simp_all add: region_fits_def region_aligned_to_def)
  have remove: "remove_node 0 12288 ?s = Some (one_node sl1 12288 12288 ?r \<lparr>m_head = 12288, m_tail = 12288, m_length = k - 1\<rparr> l1)"
    by (simp add: remove_node_def mll_remove_def node_dtor_def get_node_def arr_at_def arr_insert_def one_node_def
        set_next_def set_prev_def Let_def sl1(1))
  have "get_node (pb_heap ?s) 12288 = Some \<lparr>nd_next = 12288, nd_prev = 12288, nd_content = ?r\<rparr>"
    by (simp add: one_node_def get_node_def)
  then show thesis
    using that [OF _ sl1(2)] find remove
    by (simp add: pb_allocate_def remove_and_trim_pages_def trim_aligned_region_def Let_def depth_small
        align_up_to_power_1 region_ptr_def PageSize_def trim_none)
qed

text \<open>
  C13. After a region of three pages has become free, allocating single pages hands out the third page of
  the region twice: the page allocator is only safe for regions of a power of two of pages.
\<close>
theorem three_pages_double_allocation:
  "\<exists>s. Option.bind (pb_add \<lparr>rg_offset = 1024, rg_length = 3\<rparr> idle_backend) (allocate_each [1, 1, 1, 1])
    = Some ([0x400000, 0x401000, 0x402000, 0x402000], s)"
proof -
  obtain sl0 where s0: "pb_add \<lparr>rg_offset = 1024, rg_length = 3\<rparr> idle_backend
      = Some (one_node sl0 nullptr nullptr \<lparr>rg_offset = 1024, rg_length = 3\<rparr> empty_mll
          \<lparr>m_head = 12288, m_tail = 12288, m_length = 1\<rparr>)" "holds_slot sl0 1"
    by (rule three_pages_added)
  obtain b1 sl1 where s1: "pb_allocate 1 PALPage (one_node sl0 nullptr nullptr \<lparr>rg_offset = 1024, rg_length = 3\<rparr> empty_mll
      \<lparr>m_head = 12288, m_tail = 12288, m_length = 1\<rparr>)
    = Some (b1, one_node sl1 nullptr nullptr \<lparr>rg_offset = 1025, rg_length = 2\<rparr>
        \<lparr>m_head = 12288, m_tail = 12288, m_length = 1\<rparr> empty_mll)" "holds_slot sl1 1" "ba_ptr b1 = 0x400000"
    by (rule three_pages_first [OF s0(2)])
  obtain b2 sl2 where s2: "pb_allocate 1 PALPage (one_node sl1 nullptr nullptr \<lparr>rg_offset = 1025, rg_length = 2\<rparr>
      \<lparr>m_head = 12288, m_tail = 12288, m_length = 1\<rparr> empty_mll)
    = Some (b2, one_node sl2 12288 12288 \<lparr>rg_offset = 1026, rg_length = 1\<rparr>
        \<lparr>m_head = 12288, m_tail = 12288, m_length = 2\<rparr> \<lparr>m_head = nullptr, m_tail = nullptr, m_length = -1\<rparr>)"
    "holds_slot sl2 1" "ba_ptr b2 = 0x401000"
    by (rule three_pages_second [OF s1(2)])
  obtain b3 sl3 where s3: "pb_allocate 1 PALPage (one_node sl2 12288 12288 \<lparr>rg_offset = 1026, rg_length = 1\<rparr>
      \<lparr>m_head = 12288, m_tail = 12288, m_length = 2\<rparr> \<lparr>m_head = nullptr, m_tail = nullptr, m_length = -1\<rparr>)
    = Some (b3, one_node sl3 12288 12288 \<lparr>rg_offset = 1026, rg_length = 1\<rparr>
        \<lparr>m_head = 12288, m_tail = 12288, m_length = 2 - 1\<rparr> \<lparr>m_head = nullptr, m_tail = nullptr, m_length = -1\<rparr>)"
    "holds_slot sl3 0" "ba_ptr b3 = 0x402000"
    by (rule three_pages_later [OF s2(2), of 2 "\<lparr>m_head = nullptr, m_tail = nullptr, m_length = -1\<rparr>"]) simp_all
  obtain b4 s4 where "pb_allocate 1 PALPage (one_node sl3 12288 12288 \<lparr>rg_offset = 1026, rg_length = 1\<rparr>
      \<lparr>m_head = 12288, m_tail = 12288, m_length = 2 - 1\<rparr> \<lparr>m_head = nullptr, m_tail = nullptr, m_length = -1\<rparr>)
    = Some (b4, s4)" "ba_ptr b4 = 0x402000"
    by (rule three_pages_later [OF s3(2), of "2 - 1" "\<lparr>m_head = nullptr, m_tail = nullptr, m_length = -1\<rparr>"]) blast
  then show ?thesis by (simp add: s0(1) s1 s2 s3)
qed

end
