(* ===== verification/Allocators.thy ===== *)
theory Allocators
  imports Free_List
begin

text \<open>
  The small allocators of pine/malloc.hpp and pine/malloc.cpp: \<open>FixedAllocation\<close>, one block that is
  either taken or not; \<open>HighWatermarkAllocator\<close>, a bump allocator; and \<open>FallbackAllocatorBinder\<close>,
  which feeds an allocator with memory from another one when it runs out. The binder is a template
  over both, so it takes their operations as arguments; the locale \<open>fallback_binder\<close> proves that it keeps
  the contract of an allocator when its parts do, and is interpreted on the combinations of the
  sources.
\<close>

section \<open>FixedAllocation\<close>

record fixed_allocation =
  fa_start :: ptr
  fa_size :: size_t
  fa_has_memory :: bool

definition fixed_allocation_new :: "ptr \<Rightarrow> size_t \<Rightarrow> fixed_allocation" where
  "fixed_allocation_new start n = \<lparr>fa_start = start, fa_size = n, fa_has_memory = True\<rparr>"

definition fa_preferred_size :: "size_t \<Rightarrow> size_t" where
  "fa_preferred_size requested_size = requested_size"

definition fa_allocate :: "size_t \<Rightarrow> fixed_allocation \<Rightarrow> (allocation \<times> fixed_allocation) option" where
  "fa_allocate amount s =
     (if \<not> fa_has_memory s \<or> fa_size s < amount then Some (\<lparr>al_ptr = nullptr, al_size = 0\<rparr>, s)
      else Some (\<lparr>al_ptr = fa_start s, al_size = fa_size s\<rparr>, s\<lparr>fa_has_memory := False\<rparr>))"

definition fa_free :: "allocation \<Rightarrow> fixed_allocation \<Rightarrow> (size_t \<times> fixed_allocation) option" where
  "fa_free alloc s = Some (fa_size s, s\<lparr>fa_has_memory := True\<rparr>)"

text \<open>Its memory is at a usable address (\<open>ok\<close>) and is live exactly when it was taken.\<close>

definition fa_live :: "(allocation \<Rightarrow> bool) \<Rightarrow> fixed_allocation \<Rightarrow> allocation set \<Rightarrow> bool" where
  "fa_live ok s A \<longleftrightarrow> fa_start s \<noteq> nullptr \<and> ok \<lparr>al_ptr = fa_start s, al_size = fa_size s\<rparr>
     \<and> A = (if fa_has_memory s then {} else {\<lparr>al_ptr = fa_start s, al_size = fa_size s\<rparr>})"

interpretation fa: allocator fa_allocate fa_free "fa_live ok" "\<lambda>_. True" for ok
  by unfold_locales
    (auto simp: fa_live_def fa_allocate_def fa_free_def no_allocation_def split: if_splits)

section \<open>HighWatermarkAllocator\<close>

record high_watermark =
  hw_start :: ptr
  hw_watermark :: ptr
  hw_end :: ptr

definition hw_empty :: high_watermark where
  "hw_empty = \<lparr>hw_start = 0, hw_watermark = 0, hw_end = 0\<rparr>"

definition hw_preferred_size :: "size_t \<Rightarrow> size_t" where
  "hw_preferred_size requested_size = requested_size"

definition hw_allocate :: "size_t \<Rightarrow> high_watermark \<Rightarrow> (allocation \<times> high_watermark) option" where
  "hw_allocate requested_size s =
     (let requested_size = align_up_two requested_size Alignment in
      if hw_watermark s = nullptr \<or> hw_end s < hw_watermark s + requested_size
      then Some (no_allocation, s)
      else Some (\<lparr>al_ptr = hw_watermark s, al_size = requested_size\<rparr>,
                 s\<lparr>hw_watermark := hw_watermark s + requested_size\<rparr>))"

definition hw_add :: "ptr \<Rightarrow> size_t \<Rightarrow> high_watermark \<Rightarrow> high_watermark option" where
  "hw_add p n s = Some \<lparr>hw_start = p, hw_watermark = p, hw_end = p + n\<rparr>"

definition hw_free :: "allocation \<Rightarrow> high_watermark \<Rightarrow> (size_t \<times> high_watermark) option" where
  "hw_free alloc s = Some (0, s)"

text \<open>
  The bound check of \<open>allocate\<close> is pointer arithmetic that can wrap around: memory below 2 GiB
  and requests of at most 2 GiB minus 8 bytes are within its limits (\<open>hw_allocate_wraps\<close> below is a
  request outside).
\<close>

definition hw_admissible :: "size_t \<Rightarrow> bool" where
  "hw_admissible n \<longleftrightarrow> unat n + 8 \<le> 2 ^ 31"

definition hw_rest :: "high_watermark \<Rightarrow> nat set" where
  "hw_rest s = {unat (hw_watermark s) ..< unat (hw_end s)}"

definition hw_live :: "high_watermark \<Rightarrow> allocation set \<Rightarrow> bool" where
  "hw_live s A \<longleftrightarrow> hw_watermark s \<le> hw_end s \<and> unat (hw_end s) < 2 ^ 31
     \<and> (\<forall>a\<in>A. memory_of a \<inter> hw_rest s = {})
     \<and> (\<forall>a\<in>A. \<forall>b\<in>A. a \<noteq> b \<longrightarrow> memory_of a \<inter> memory_of b = {})"

definition hw_managed :: "high_watermark \<Rightarrow> allocation set \<Rightarrow> nat set" where
  "hw_managed s A = (\<Union>a\<in>A. memory_of a) \<union> hw_rest s"

definition hw_region_ok :: "allocation \<Rightarrow> bool" where
  "hw_region_ok b \<longleftrightarrow> unat (al_ptr b) + unat (al_size b) < 2 ^ 31"

lemma align_up_8_bounds:
  assumes "hw_admissible n"
  shows "n \<le> align_up_two n Alignment" and "unat (align_up_two n Alignment) \<le> 2 ^ 31"
    and "0 < unat (align_up_two n Alignment)"
proof -
  have "unat (align_up_two n Alignment) = (if n = 0 then 8 else (unat n + 7) div 8 * 8)"
    using assms unat_align_up_two [of Alignment 3 n]
    by (auto simp: hw_admissible_def Alignment_def align_up_two_def)
  moreover have "n \<noteq> 0 \<Longrightarrow> 0 < unat n" by (simp add: unat_gt_0)
  ultimately show "n \<le> align_up_two n Alignment" "unat (align_up_two n Alignment) \<le> 2 ^ 31"
    "0 < unat (align_up_two n Alignment)"
    using assms by (auto simp: unat_word_le hw_admissible_def)
qed

lemma hw_allocate_cases:
  assumes "hw_live s A" and "hw_admissible n"
  shows "hw_allocate n s = Some (no_allocation, s) \<or>
    (\<exists>a s'. hw_allocate n s = Some (a, s') \<and> al_ptr a \<noteq> nullptr \<and> n \<le> al_size a
      \<and> memory_of a \<noteq> {} \<and> memory_of a \<subseteq> hw_rest s \<and> hw_rest s' = hw_rest s - memory_of a
      \<and> hw_watermark s' \<le> hw_end s' \<and> hw_end s' = hw_end s)"
proof -
  let ?n = "align_up_two n Alignment"
  note n = align_up_8_bounds [OF assms(2)]
  have w: "unat (hw_watermark s) \<le> unat (hw_end s)" "unat (hw_end s) < 2 ^ 31"
    using assms(1) by (simp_all add: hw_live_def unat_word_le)
  then have u: "unat (hw_watermark s + ?n) = unat (hw_watermark s) + unat ?n"
    using n(2) by (intro unat_add_lt) simp
  show ?thesis
  proof (cases "hw_watermark s = nullptr \<or> hw_end s < hw_watermark s + ?n")
    case True
    then show ?thesis by (auto simp: hw_allocate_def Let_def)
  next
    case False
    then have fit: "unat (hw_watermark s) + unat ?n \<le> unat (hw_end s)" using u by (simp add: unat_word_lt)
    let ?a = "\<lparr>al_ptr = hw_watermark s, al_size = ?n\<rparr>"
    let ?s = "s\<lparr>hw_watermark := hw_watermark s + ?n\<rparr>"
    have "hw_allocate n s = Some (?a, ?s)" using False by (simp add: hw_allocate_def Let_def)
    moreover have "memory_of ?a \<subseteq> hw_rest s" "memory_of ?a \<noteq> {}" "hw_rest ?s = hw_rest s - memory_of ?a"
      using fit u n(3) by (auto simp: memory_of_def hw_rest_def)
    moreover have "hw_watermark ?s \<le> hw_end ?s" using fit u by (simp add: unat_word_le)
    ultimately show ?thesis using n(1) False
      by (intro disjI2 exI [of _ ?a] exI [of _ ?s]) simp
  qed
qed

interpretation hw: growing_allocator hw_allocate hw_free hw_live hw_admissible hw_add hw_managed hw_region_ok
proof
  fix s A n assume live: "hw_live s A" and n: "hw_admissible n"
  show "(\<exists>s'. hw_allocate n s = Some (no_allocation, s') \<and> hw_live s' A) \<or>
      (\<exists>a s'. hw_allocate n s = Some (a, s') \<and> al_ptr a \<noteq> nullptr \<and> n \<le> al_size a
         \<and> a \<notin> A \<and> hw_live s' (insert a A))"
    using hw_allocate_cases [OF live n]
  proof (elim disjE exE conjE)
    assume "hw_allocate n s = Some (no_allocation, s)"
    then show ?thesis using live by blast
  next
    fix a s' assume r: "hw_allocate n s = Some (a, s')" "al_ptr a \<noteq> nullptr" "n \<le> al_size a"
      "memory_of a \<noteq> {}" "memory_of a \<subseteq> hw_rest s" "hw_rest s' = hw_rest s - memory_of a"
      "hw_watermark s' \<le> hw_end s'" "hw_end s' = hw_end s"
    have dis: "memory_of b \<inter> memory_of a = {}" if "b \<in> A" for b
      using live r(5) that unfolding hw_live_def by blast
    then have "a \<notin> A" using r(4) by blast
    moreover have "hw_live s' (insert a A)"
      using live dis r(6,7,8) unfolding hw_live_def by (auto simp: Int_commute)
    ultimately show ?thesis using r by blast
  qed
next
  fix s A b assume live: "hw_live s A" and b: "hw_region_ok b" "memory_of b \<inter> hw_managed s A = {}"
  let ?s = "\<lparr>hw_start = al_ptr b, hw_watermark = al_ptr b, hw_end = al_ptr b + al_size b\<rparr>"
  have u: "unat (al_ptr b + al_size b) = unat (al_ptr b) + unat (al_size b)"
    using b(1) by (intro unat_add_lt) (simp add: hw_region_ok_def)
  then have rest: "hw_rest ?s = memory_of b" by (simp add: hw_rest_def memory_of_def)
  have "hw_live ?s A"
    using live b u rest by (auto simp: hw_live_def hw_region_ok_def hw_managed_def unat_word_le)
  then show "\<exists>s'. hw_add (al_ptr b) (al_size b) s = Some s' \<and> hw_live s' A
      \<and> hw_managed s' A \<subseteq> hw_managed s A \<union> memory_of b"
    by (auto simp: hw_add_def hw_managed_def rest)
next
  fix s A n a s' assume live: "hw_live s A" "hw_admissible n" and r: "hw_allocate n s = Some (a, s')"
  from hw_allocate_cases [OF live]
  show "hw_managed s' (if al_ptr a = nullptr then A else insert a A) \<subseteq> hw_managed s A"
    using r by (elim disjE exE conjE) (auto simp: hw_managed_def no_allocation_def)
qed (auto simp: hw_live_def hw_free_def hw_managed_def)

text \<open>
  A request that wraps around passes the bound check: the watermark moves down and the allocation
  claims memory far beyond the end.
\<close>

lemma hw_allocate_wraps:
  "hw_allocate 4294967280 \<lparr>hw_start = 4096, hw_watermark = 8192, hw_end = 12288\<rparr> =
     Some (\<lparr>al_ptr = 8192, al_size = 4294967280\<rparr>, \<lparr>hw_start = 4096, hw_watermark = 8176, hw_end = 12288\<rparr>)"
  by (simp add: hw_allocate_def align_up_two_def Alignment_def)

section \<open>FallbackAllocatorBinder\<close>

type_synonym ('f, 'i) bound_state = "'f \<times> 'i"

definition binder_allocate ::
    "(size_t \<Rightarrow> 'f \<Rightarrow> (allocation \<times> 'f) option) \<Rightarrow> (size_t \<Rightarrow> 'i \<Rightarrow> (allocation \<times> 'i) option)
       \<Rightarrow> (ptr \<Rightarrow> size_t \<Rightarrow> 'i \<Rightarrow> 'i option) \<Rightarrow> (size_t \<Rightarrow> size_t)
       \<Rightarrow> size_t \<Rightarrow> ('f, 'i) bound_state \<Rightarrow> (allocation \<times> ('f, 'i) bound_state) option" where
  "binder_allocate fallback_allocate allocate add preferred_size requested_size = (\<lambda>(f, i). do {
     (allocation, i) \<leftarrow> allocate requested_size i;
     (if al_ptr allocation = nullptr then do {
        (chunk, f) \<leftarrow> fallback_allocate (preferred_size requested_size) f;
        (if al_ptr chunk = nullptr then Some (\<lparr>al_ptr = nullptr, al_size = 0\<rparr>, (f, i))
         else do {
           i \<leftarrow> add (al_ptr chunk) (al_size chunk) i;
           (allocation, i) \<leftarrow> allocate requested_size i;
           Some (\<lparr>al_ptr = al_ptr allocation, al_size = al_size allocation\<rparr>, (f, i))
         })
      }
      else Some (\<lparr>al_ptr = al_ptr allocation, al_size = al_size allocation\<rparr>, (f, i)))
   })"

definition binder_add ::
    "(ptr \<Rightarrow> size_t \<Rightarrow> 'i \<Rightarrow> 'i option) \<Rightarrow> ptr \<Rightarrow> size_t \<Rightarrow> ('f, 'i) bound_state \<Rightarrow> ('f, 'i) bound_state option" where
  "binder_add add p n = (\<lambda>(f, i). do { i \<leftarrow> add p n i; Some (f, i) })"

definition binder_free ::
    "(allocation \<Rightarrow> 'i \<Rightarrow> (size_t \<times> 'i) option) \<Rightarrow> allocation \<Rightarrow> ('f, 'i) bound_state
       \<Rightarrow> (size_t \<times> ('f, 'i) bound_state) option" where
  "binder_free free alloc = (\<lambda>(f, i). do { (n, i) \<leftarrow> free alloc i; Some (n, (f, i)) })"

text \<open>All memory the inner allocator manages was handed out by the fallback allocator.\<close>

definition binder_live ::
    "('f \<Rightarrow> allocation set \<Rightarrow> bool) \<Rightarrow> ('i \<Rightarrow> allocation set \<Rightarrow> bool)
       \<Rightarrow> ('i \<Rightarrow> allocation set \<Rightarrow> nat set) \<Rightarrow> ('f, 'i) bound_state \<Rightarrow> allocation set \<Rightarrow> bool" where
  "binder_live fallback_live live managed s A \<longleftrightarrow> live (snd s) A
     \<and> (\<exists>B. fallback_live (fst s) B \<and> managed (snd s) A \<subseteq> (\<Union>b\<in>B. memory_of b))"

locale fallback_binder =
  inner: growing_allocator allocate free live admissible add managed region_ok +
  fallback: allocator fallback_allocate fallback_free fallback_live fallback_admissible
  for allocate :: "size_t \<Rightarrow> 'i \<Rightarrow> (allocation \<times> 'i) option"
    and free :: "allocation \<Rightarrow> 'i \<Rightarrow> (size_t \<times> 'i) option"
    and live :: "'i \<Rightarrow> allocation set \<Rightarrow> bool"
    and admissible :: "size_t \<Rightarrow> bool"
    and add :: "ptr \<Rightarrow> size_t \<Rightarrow> 'i \<Rightarrow> 'i option"
    and managed :: "'i \<Rightarrow> allocation set \<Rightarrow> nat set"
    and region_ok :: "allocation \<Rightarrow> bool"
    and fallback_allocate :: "size_t \<Rightarrow> 'f \<Rightarrow> (allocation \<times> 'f) option"
    and fallback_free :: "allocation \<Rightarrow> 'f \<Rightarrow> (size_t \<times> 'f) option"
    and fallback_live :: "'f \<Rightarrow> allocation set \<Rightarrow> bool"
    and fallback_admissible :: "size_t \<Rightarrow> bool" +
  fixes preferred_size :: "size_t \<Rightarrow> size_t"
  assumes preferred_admissible: "admissible n \<Longrightarrow> fallback_admissible (preferred_size n)"
    and chunk_ok: "fallback_live f B \<Longrightarrow> b \<in> B \<Longrightarrow> region_ok b"
begin

abbreviation "allocate_bound \<equiv> binder_allocate fallback_allocate allocate add preferred_size"
abbreviation "bound_live \<equiv> binder_live fallback_live live managed"

lemma managed_mono:
  assumes "managed i A \<subseteq> (\<Union>b\<in>B. memory_of b)" and "managed i' A' \<subseteq> managed i A" and "B \<subseteq> B'"
  shows "managed i' A' \<subseteq> (\<Union>b\<in>B'. memory_of b)"
  using assms by blast

lemma inner_allocate:
  assumes "live i A" and "managed i A \<subseteq> (\<Union>b\<in>B. memory_of b)" and "fallback_live f B" and "admissible n"
  obtains (failed) i' where "allocate n i = Some (no_allocation, i')" "live i' A"
      "managed i' A \<subseteq> (\<Union>b\<in>B. memory_of b)" "bound_live (f, i') A"
    | (ok) a i' where "allocate n i = Some (a, i')" "al_ptr a \<noteq> nullptr" "n \<le> al_size a" "a \<notin> A"
      "bound_live (f, i') (insert a A)"
  using assms(1,4)
proof (cases rule: inner.allocate_cases)
  case (failed i')
  then have "managed i' A \<subseteq> managed i A"
    using inner.allocate_managed [OF assms(1,4) failed(1)] by (simp add: no_allocation_def)
  then have "managed i' A \<subseteq> (\<Union>b\<in>B. memory_of b)" using assms(2) by blast
  then show thesis using that(1) failed assms(3) by (auto simp: binder_live_def)
next
  case (ok a i')
  then have "managed i' (insert a A) \<subseteq> managed i A"
    using inner.allocate_managed [OF assms(1,4) ok(1)] by simp
  then have "managed i' (insert a A) \<subseteq> (\<Union>b\<in>B. memory_of b)" using assms(2) by blast
  then show thesis using that(2) ok assms(3) by (auto simp: binder_live_def)
qed

lemma bound_allocate_live:
  assumes "bound_live s A" and n: "admissible n"
  shows "(\<exists>s'. allocate_bound n s = Some (no_allocation, s') \<and> bound_live s' A) \<or>
      (\<exists>a s'. allocate_bound n s = Some (a, s') \<and> al_ptr a \<noteq> nullptr \<and> n \<le> al_size a
         \<and> a \<notin> A \<and> bound_live s' (insert a A))"
proof -
  obtain f i B where s: "s = (f, i)" and i: "live i A" and f: "fallback_live f B"
      and m: "managed i A \<subseteq> (\<Union>b\<in>B. memory_of b)"
    using assms(1) by (cases s) (auto simp: binder_live_def)
  have null: "al_ptr no_allocation = nullptr" "\<lparr>al_ptr = nullptr, al_size = 0\<rparr> = no_allocation"
    by (simp_all add: no_allocation_def)
  show ?thesis using i m f n
  proof (cases rule: inner_allocate)
    case (ok a i')
    then show ?thesis by (auto simp: binder_allocate_def s)
  next
    case (failed i')
    note first = failed
    show ?thesis using f preferred_admissible [OF n]
    proof (cases rule: fallback.allocate_cases)
      case (failed f')
      then have "bound_live (f', i') A" using first(2,3) by (auto simp: binder_live_def)
      then show ?thesis using first(1) failed(1) null by (auto simp: binder_allocate_def s)
    next
      case (ok b f')
      have ne: "memory_of b \<inter> memory_of c = {}" if "c \<in> B" for c
        using fallback.live_disjoint [OF ok(5), of b c] ok(4) that by blast
      then have dis: "memory_of b \<inter> managed i' A = {}" using first(3) by blast
      have "region_ok b" using chunk_ok [OF ok(5)] by blast
      then obtain i2 where add: "add (al_ptr b) (al_size b) i' = Some i2" "live i2 A"
          "managed i2 A \<subseteq> managed i' A \<union> memory_of b"
        using inner.add_live [OF first(2) _ dis] by blast
      have m2: "managed i2 A \<subseteq> (\<Union>c\<in>insert b B. memory_of c)" using add(3) first(3) by blast
      show ?thesis
        using first(1) ok(1,2) add(1) null
        by (cases rule: inner_allocate [OF add(2) m2 ok(5) n])
          (auto simp: binder_allocate_def s)
    qed
  qed
qed

end

sublocale fallback_binder \<subseteq> bound: allocator "binder_allocate fallback_allocate allocate add preferred_size"
  "binder_free free" "binder_live fallback_live live managed" admissible
proof
  fix s A n assume "binder_live fallback_live live managed s A" "admissible n"
  then show "(\<exists>s'. allocate_bound n s = Some (no_allocation, s') \<and> bound_live s' A) \<or>
      (\<exists>a s'. allocate_bound n s = Some (a, s') \<and> al_ptr a \<noteq> nullptr \<and> n \<le> al_size a
         \<and> a \<notin> A \<and> bound_live s' (insert a A))" by (rule bound_allocate_live)
next
  fix s A a assume live: "binder_live fallback_live live managed s A" and a: "a \<in> A"
  have "live (snd s) A" using live by (simp add: binder_live_def)
  then obtain k i' where f: "free a (snd s) = Some (k, i')" "live i' (A - {a})"
    using inner.free_live a by blast
  then have "managed i' (A - {a}) \<subseteq> managed (snd s) A"
    using inner.free_managed live a by (auto simp: binder_live_def)
  then have "bound_live (fst s, i') (A - {a})" using live f(2) by (auto simp: binder_live_def)
  then show "\<exists>k s'. binder_free free a s = Some (k, s') \<and> bound_live s' (A - {a})"
    using f(1) by (auto simp: binder_free_def split: prod.splits)
next
  fix s A a b assume "binder_live fallback_live live managed s A" "a \<in> A" "b \<in> A" "a \<noteq> b"
  then show "memory_of a \<inter> memory_of b = {}"
    using inner.live_disjoint unfolding binder_live_def by blast
next
  fix s :: "('f, 'i) bound_state" and a b :: allocation assume "al_ptr a = al_ptr b"
  then have "free a = free b" using inner.free_by_address by blast
  then show "binder_free free a s = binder_free free b s" by (simp add: binder_free_def)
qed

text \<open>
  The binders of the sources over a fixed block: the heap of a task (\<open>Heap\<close> of kernel/tasks.hpp)
  and the kernel's allocator of the AARCH64 build (kernel/kmalloc.hpp).
\<close>

interpretation heap: fallback_binder hw_allocate hw_free hw_live hw_admissible hw_add hw_managed hw_region_ok
  fa_allocate fa_free "fa_live hw_region_ok" "\<lambda>_. True" hw_preferred_size
  by unfold_locales (auto simp: fa_live_def split: if_splits)

interpretation kernel: fallback_binder fl_allocate fl_free fl_live "\<lambda>_. True" fl_add fl_managed fl_region_ok
  fa_allocate fa_free "fa_live fl_region_ok" "\<lambda>_. True" fl_preferred_size
  by unfold_locales (auto simp: fa_live_def split: if_splits)

section \<open>What the clients get\<close>



text \<open>
  The heap of a task (a bump allocator over one block) never hands out overlapping memory either,
  for requests that do not wrap its bound check.
\<close>

lemma heap_allocate_safe:
  assumes "binder_live (fa_live hw_region_ok) hw_live hw_managed s A" and "hw_admissible n"
  shows "\<exists>a s'. binder_allocate fa_allocate hw_allocate hw_add hw_preferred_size n s = Some (a, s')
    \<and> (if al_ptr a = nullptr then a = no_allocation \<and> binder_live (fa_live hw_region_ok) hw_live hw_managed s' A
       else n \<le> al_size a \<and> (\<forall>b\<in>A. memory_of a \<inter> memory_of b = {})
         \<and> binder_live (fa_live hw_region_ok) hw_live hw_managed s' (insert a A))"
  using assms
proof (cases rule: heap.bound.allocate_cases [where n = n])
  case (failed s')
  then show ?thesis by (simp add: no_allocation_def)
next
  case (ok a s')
  then show ?thesis using heap.bound.allocate_disjoint [OF assms ok(1,2)] by simp
qed

lemma fl_preferred_enough:
  assumes "unat n + 4120 \<le> 2 ^ 32"
  shows "unat n + 16 \<le> unat (fl_preferred_size n)"
proof -
  let ?n = "align_up_two n Alignment"
  have n: "unat ?n = (if n = 0 then 8 else (unat n + 7) div 8 * 8)"
    using assms unat_align_up_two [of Alignment 3 n] by (auto simp: Alignment_def align_up_two_def)
  have le: "unat n \<le> unat ?n" "unat ?n \<le> unat n + 8" unfolding n by auto
  have m: "unat (?n + 16) = unat ?n + 16" using le assms by (subst unat_add_lt) simp_all
  then have "?n + 16 \<noteq> 0" by (metis add_is_0 unat_0 zero_neq_numeral)
  then have "unat (align_up_two (?n + 16) PageSize) = (unat (?n + 16) + 4095) div 4096 * 4096"
    using unat_align_up_two [of PageSize 12 "?n + 16"] m le assms by (simp add: PageSize_def)
  then show ?thesis
    using m le by (simp add: fl_preferred_size_def min_allocation_size_def max_overhead_per_allocation_def
        header_node_size_def)
qed

text \<open>
  A refill suffices: once the binder has added a chunk of the preferred size of a request to the
  free list, the request succeeds.
\<close>

lemma fl_refill_serves:
  assumes inv: "fl_inv (h, l) xs A" and ok: "block_ok p (m - 16)" "16 \<le> m"
    and fresh: "{unat p ..< unat p + unat m} \<inter> fl_bytes (h, l) xs A = {}"
    and n: "unat n + 4120 \<le> 2 ^ 32" "fl_preferred_size n \<le> m"
  shows "\<exists>s1 a s2. fl_add p m (h, l) = Some s1 \<and> fl_allocate n s1 = Some (a, s2) \<and> al_ptr a \<noteq> nullptr
    \<and> n \<le> al_size a"
proof -
  obtain h' l' where f: "fl_add p m (h, l) = Some (h', l')" "fl_inv (h', l') (xs @ [p]) A"
      "hsz h' = (hsz h)(p := m - 16)"
    using fl_add_appends [OF inv ok fresh] by blast
  have "unat n + 16 \<le> unat m" using fl_preferred_enough [OF n(1)] n(2) by (simp add: unat_word_le)
  then have "n \<le> hsz h' p" using ok(2) by (simp add: f(3) unat_word_le unat_sub_le)
  then have "find (\<lambda>p. n \<le> hsz h' p) (xs @ [p]) \<noteq> None" by (auto simp: find_None_iff)
  then obtain q where q: "find (\<lambda>p. n \<le> hsz h' p) (xs @ [p]) = Some q" by blast
  then have "q \<in> set (xs @ [p])" by (auto dest: find_SomeD)
  then have "block_ok q (hsz h' q)" using fl_inv_block [OF f(2), of q] by simp
  then have "unat (q + 16) = unat q + 16" by (rule block_ok_end(1))
  then have "q + 16 \<noteq> nullptr" by (metis add_is_0 unat_0 zero_neq_numeral)
  then show ?thesis using f(1) fl_allocate_some [OF f(2) q] by fastforce
qed

text \<open>Witnesses: a kernel heap of one megabyte, and a small heap of a task.\<close>

lemma kernel_start:
  "binder_live (fa_live fl_region_ok) fl_live fl_managed
     (fixed_allocation_new 1048576 1048576, (Map.empty, empty_mll)) {}"
proof -
  have "fl_inv (Map.empty, empty_mll) [] ((\<lambda>a. al_ptr a - 16) ` {})" by (simp add: fl_inv_empty)
  from fl_managed_eq [OF this] show ?thesis
    using fl_inv_empty [of Map.empty]
    by (auto simp: binder_live_def fa_live_def fixed_allocation_new_def fl_region_ok_def block_ok_def
        fl_live_def fl_bytes_def cover_def)
qed

lemma heap_start:
  "binder_live (fa_live hw_region_ok) hw_live hw_managed (fixed_allocation_new 4096 8192, hw_empty) {}"
  by (auto simp: binder_live_def fa_live_def fixed_allocation_new_def hw_region_ok_def hw_live_def
      hw_managed_def hw_empty_def hw_rest_def)



end
