(* ===== verification/Int_Limits.thy ===== *)
theory Int_Limits
  imports TwoMath
begin

text \<open>
  The integer types of the build and what pine/limits.hpp says of them, and the range-checked
  conversions of pine/cast.hpp. A value of an integer type is the integer it denotes.
  On 32-bit ARM \<open>char\<close> is unsigned and \<open>long\<close> has 32 bits.
\<close>

datatype cint = CBool | CChar | CUChar | CSChar | CShort | CUShort | CInt | CUInt
  | CLong | CULong | CLLong | CULLong

fun cint_sizeof :: "cint \<Rightarrow> nat" where
  "cint_sizeof CBool = 1"
| "cint_sizeof CChar = 1"
| "cint_sizeof CUChar = 1"
| "cint_sizeof CSChar = 1"
| "cint_sizeof CShort = 2"
| "cint_sizeof CUShort = 2"
| "cint_sizeof CInt = 4"
| "cint_sizeof CUInt = 4"
| "cint_sizeof CLong = 4"
| "cint_sizeof CULong = 4"
| "cint_sizeof CLLong = 8"
| "cint_sizeof CULLong = 8"

definition is_signed :: "cint \<Rightarrow> bool" where
  "is_signed ty \<longleftrightarrow> ty \<in> {CSChar, CShort, CInt, CLong, CLLong}"

definition cint_min :: "cint \<Rightarrow> int" where
  "cint_min ty = (if is_signed ty then - (2 ^ (8 * cint_sizeof ty - 1)) else 0)"

definition cint_max :: "cint \<Rightarrow> int" where
  "cint_max ty =
     (if ty = CBool then 1
      else if is_signed ty then 2 ^ (8 * cint_sizeof ty - 1) - 1
      else 2 ^ (8 * cint_sizeof ty) - 1)"

text \<open>The twelve specialisations of \<open>pine::limits\<close>, with \<open>CHAR_BIT = 8\<close>.\<close>

record int_limits =
  lim_min :: int
  lim_max :: int
  lim_width :: nat
  lim_digits10 :: int
  lim_characters10 :: int
  lim_digits16 :: int

definition limits :: "cint \<Rightarrow> int_limits" where
  "limits ty =
     (let digits10 = (if ty = CBool then 1
                      else if ty \<in> {CSChar, CShort} then log (cint_max ty) + 2
                      else log (cint_max ty) + 1)
      in \<lparr> lim_min = cint_min ty,
           lim_max = cint_max ty,
           lim_width = cint_sizeof ty div 8,
           lim_digits10 = digits10,
           lim_characters10 = (if is_signed ty then digits10 + 1 else digits10),
           lim_digits16 = int (cint_sizeof ty) * 2 \<rparr>)"

definition in_range :: "cint \<Rightarrow> int \<Rightarrow> bool" where
  "in_range ty n \<longleftrightarrow> cint_min ty \<le> n \<and> n \<le> cint_max ty"

section \<open>Conversions (cast.hpp)\<close>

text \<open>
  \<open>PtrData\<close> has the word length of the architecture; \<open>sint\<close> is the \<open>bit_cast\<close> to \<open>ptrdiff_t\<close>.
  A bound of the target type is itself converted to \<open>ptrdiff_t\<close> or \<open>PtrData\<close> before the comparison.
\<close>

definition fits_within :: "cint \<Rightarrow> 'p::len word \<Rightarrow> bool" where
  "fits_within into from =
     (if is_signed into then
        if sint (of_int (lim_max (limits into)) :: 'p word) < sint from then False
        else if sint from < sint (of_int (lim_min (limits into)) :: 'p word) then False
        else True
      else if of_int (lim_max (limits into)) < from then False
      else if from < of_int (lim_min (limits into)) then False
      else True)"

text \<open>\<open>static_cast\<close> to a signed type keeps the low bits of the value.\<close>

definition cint_wrap :: "cint \<Rightarrow> int \<Rightarrow> int" where
  "cint_wrap ty n =
     (let b = 8 * cint_sizeof ty in
      if is_signed ty then signed_take_bit (b - 1) n else take_bit b n)"

definition to_signed_cast :: "cint \<Rightarrow> 'p::len word \<Rightarrow> int" where
  "to_signed_cast to from = cint_wrap to (sint from)"

definition from_signed_cast :: "int \<Rightarrow> 'p::len word" where
  "from_signed_cast from = of_int from"

section \<open>Facts\<close>

lemma cint_max_pos: "1 \<le> cint_max ty"
  by (cases ty) (simp_all add: cint_max_def is_signed_def)

lemma log_eqI: "10 ^ k \<le> num \<Longrightarrow> num < 10 ^ Suc k \<Longrightarrow> log num = int k"
proof -
  assume a: "10 ^ k \<le> num" "num < 10 ^ Suc k"
  have "(1::int) \<le> 10 ^ k" by simp
  with a have "1 \<le> num" by linarith
  then obtain j where j: "log num = int j" "10 ^ j \<le> num" "num < 10 ^ Suc j"
    by (rule log_bounds)
  from a j have "(10::int) ^ k < 10 ^ Suc j" "(10::int) ^ j < 10 ^ Suc k" by linarith+
  then have "k < Suc j" "j < Suc k" by (metis one_less_numeral_iff power_strict_increasing_iff semiring_norm(76))+
  with j(1) show ?thesis by simp
qed

lemma sint_of_int_small:
  "- (2 ^ (LENGTH('p::len) - 1)) \<le> k \<Longrightarrow> k < 2 ^ (LENGTH('p) - 1) \<Longrightarrow>
     sint (of_int k :: 'p word) = k"
  by (simp add: signed_of_int signed_take_bit_int_eq_self)

text \<open>
  \<open>fits_within\<close> accepts a register value exactly when the integer it denotes (signed for a
  signed target, unsigned otherwise) is in the range of the target type, for a target no wider than
  the register; a value it accepts survives the round trip through \<open>to_signed_cast\<close> and
  \<open>from_signed_cast\<close>.
\<close>

lemma fits_within_signed:
  fixes w :: "'p::len word"
  assumes "is_signed ty" and "8 * cint_sizeof ty \<le> LENGTH('p)"
  shows "(fits_within ty w \<longleftrightarrow> in_range ty (sint w))
    \<and> (fits_within ty w \<longrightarrow> from_signed_cast (to_signed_cast ty w) = w)"
proof -
  let ?b = "8 * cint_sizeof ty"
  have b: "0 < ?b" by (cases ty) auto
  have le: "(2::int) ^ (?b - 1) \<le> 2 ^ (LENGTH('p) - 1)"
    by (intro power_increasing diff_le_mono assms(2)) simp
  have pos: "0 < (2::int) ^ (?b - 1)" by simp
  have mx: "sint (of_int (2 ^ (?b - 1) - 1) :: 'p word) = 2 ^ (?b - 1) - 1"
    by (intro sint_of_int_small) (use le pos in linarith)+
  have mn: "sint (of_int (- (2 ^ (?b - 1))) :: 'p word) = - (2 ^ (?b - 1))"
    by (intro sint_of_int_small) (use le pos in linarith)+
  have ne: "ty \<noteq> CBool" using assms(1) by (auto simp: is_signed_def)
  have iff: "fits_within ty w \<longleftrightarrow> in_range ty (sint w)"
    using assms(1) ne mx mn
    by (auto simp: fits_within_def limits_def Let_def cint_max_def cint_min_def in_range_def)
  have "from_signed_cast (to_signed_cast ty w) = w" if "in_range ty (sint w)"
  proof -
    have "- (2 ^ (?b - 1)) \<le> sint w" "sint w < 2 ^ (?b - 1)"
      using that assms(1) ne by (auto simp: in_range_def cint_min_def cint_max_def)
    then have "signed_take_bit (?b - 1) (sint w) = sint w"
      by (simp add: signed_take_bit_int_eq_self)
    then show ?thesis
      using assms(1) by (simp add: from_signed_cast_def to_signed_cast_def cint_wrap_def Let_def)
  qed
  with iff show ?thesis by blast
qed

end
