(* ===== verification/C_Strings.thy ===== *)
theory C_Strings
  imports Int_Limits
begin

text \<open>
  Byte buffers, C strings and the number printers of pine/c_builtins.cpp, pine/c_string.cpp and
  pine/c_string.hpp, and \<open>StringView\<close>.

  A byte is a \<open>char\<close>. A buffer that is written is the list of all its bytes, and a pointer into it
  is the buffer with an offset. A C string that is only read is the list of bytes from the pointer
  to the end of the object it points into. An access outside the object is \<open>None\<close>.
\<close>

abbreviation NUL :: char where "NUL \<equiv> CHR 0x00"

definition put :: "char list \<Rightarrow> nat \<Rightarrow> char \<Rightarrow> char list option" where
  "put buf i c = (if i < length buf then Some (buf[i := c]) else None)"

section \<open>Memory (c\_builtins.cpp)\<close>

fun memset_loop :: "char list \<Rightarrow> nat \<Rightarrow> char \<Rightarrow> nat \<Rightarrow> char list option" where
  "memset_loop to off c 0 = Some to"
| "memset_loop to off c (Suc sz) = do {
     to' \<leftarrow> put to off c;
     memset_loop to' (off + 1) c sz
   }"

definition bzero :: "char list \<Rightarrow> nat \<Rightarrow> nat \<Rightarrow> char list option" where
  "bzero target off sz = memset_loop target off NUL sz"

definition memset :: "char list \<Rightarrow> nat \<Rightarrow> int \<Rightarrow> nat \<Rightarrow> char list option" where
  "memset to off c sz = memset_loop to off (char_of (nat (c mod 256))) sz"

fun memcpy :: "char list \<Rightarrow> nat \<Rightarrow> char list \<Rightarrow> nat \<Rightarrow> char list option" where
  "memcpy to off from 0 = Some to"
| "memcpy to off [] (Suc sz) = None"
| "memcpy to off (c # from) (Suc sz) = do {
     to' \<leftarrow> put to off c;
     memcpy to' (off + 1) from sz
   }"

section \<open>C strings (c\_string.cpp)\<close>

fun strcopy_loop :: "char list \<Rightarrow> nat \<Rightarrow> char list \<Rightarrow> nat \<Rightarrow> (char list \<times> nat) option" where
  "strcopy_loop to i [] copied = None"
| "strcopy_loop to i (c # from) copied =
     (if c \<noteq> NUL then do {
        to' \<leftarrow> put to i c;
        strcopy_loop to' (i + 1) from (copied + 1)
      }
      else do {
        to' \<leftarrow> put to i NUL;
        Some (to', copied)
      })"

definition strcopy :: "char list \<Rightarrow> nat \<Rightarrow> char list \<Rightarrow> (char list \<times> nat) option" where
  "strcopy to off from = strcopy_loop to off from 0"

text \<open>
  \<open>strbufcopy\<close> reads the source byte before it checks the room left, so a source that ends without
  a NUL is only a fault when the loop gets there.
\<close>

fun strbufcopy_loop ::
    "char list \<Rightarrow> nat \<Rightarrow> nat \<Rightarrow> char list \<Rightarrow> nat \<Rightarrow> (char list \<times> nat) option" where
  "strbufcopy_loop buf i bufsize [] copied = None"
| "strbufcopy_loop buf i bufsize (c # from) copied =
     (if c \<noteq> NUL \<and> copied + 1 < bufsize then do {
        buf' \<leftarrow> put buf i c;
        strbufcopy_loop buf' (i + 1) bufsize from (copied + 1)
      }
      else do {
        buf' \<leftarrow> put buf i NUL;
        Some (buf', copied)
      })"

definition strbufcopy :: "char list \<Rightarrow> nat \<Rightarrow> nat \<Rightarrow> char list \<Rightarrow> (char list \<times> nat) option" where
  "strbufcopy buf off bufsize from =
     (if bufsize = 0 then Some (buf, 0) else strbufcopy_loop buf off bufsize from 0)"

fun strlen_loop :: "char list \<Rightarrow> nat \<Rightarrow> nat option" where
  "strlen_loop [] offset = None"
| "strlen_loop (c # s) offset = (if c \<noteq> NUL then strlen_loop s (offset + 1) else Some offset)"

definition strlen :: "char list \<Rightarrow> nat option" where
  "strlen s = strlen_loop s 0"

fun strcmp :: "char list \<Rightarrow> char list \<Rightarrow> int option" where
  "strcmp (a # first) (b # second) =
     (if a \<noteq> NUL \<and> b \<noteq> NUL then
        (let diff = (of_char a :: int) - of_char b in
         if 0 < diff then Some 1
         else if diff < 0 then Some (- 1)
         else strcmp first second)
      else Some (if a \<noteq> b then 1 else 0))"
| "strcmp _ _ = None"

section \<open>Decimal and hexadecimal numbers (c\_string.hpp)\<close>

datatype toa_flag = Upper | Lower

definition cdiv :: "int \<Rightarrow> int \<Rightarrow> int" where
  \<comment> \<open>division of C: truncates towards zero\<close>
  "cdiv a b = sgn a * sgn b * (\<bar>a\<bar> div \<bar>b\<bar>)"

text \<open>
  \<open>pine::abs\<close> of a negative number: \<open>-num\<close> overflows for the least value of a type of the width
  of \<open>int\<close> or more, which is undefined; a narrower one is promoted and converted back.
\<close>

definition abs_c :: "cint \<Rightarrow> int \<Rightarrow> int option" where
  "abs_c ty num =
     (if 0 \<le> num then Some num
      else if - num \<le> cint_max ty then Some (- num)
      else if cint_sizeof ty < 4 then Some (cint_wrap ty (- num))
      else None)"

function digits_loop ::
    "char list \<Rightarrow> nat \<Rightarrow> nat \<Rightarrow> int \<Rightarrow> int \<Rightarrow> int \<Rightarrow> char list option" where
  "digits_loop buf off bufsize absnum len pos =
     (if pos < len \<and> pos < int bufsize then
        (let divisor = pow2 10 (nat (len - pos - 1));
             digit = cdiv absnum divisor
         in case put buf (off + nat pos) (char_of (nat ((48 + digit) mod 256))) of
              None \<Rightarrow> None
            | Some buf' \<Rightarrow> digits_loop buf' off bufsize (absnum - digit * divisor) len (pos + 1))
      else Some buf)"
  by pat_completeness auto
termination
  by (relation "measure (\<lambda>(buf, off, bufsize, absnum, len, pos). nat (len - pos))") auto

declare digits_loop.simps [simp del]

definition to_strbuf :: "cint \<Rightarrow> char list \<Rightarrow> nat \<Rightarrow> nat \<Rightarrow> int \<Rightarrow> char list option" where
  "to_strbuf ty buf off bufsize num =
     (if int bufsize < lim_characters10 (limits ty) + 1 then Some buf
      else do {
        (buf, off, bufsize, absnum) \<leftarrow>
          (if is_signed ty \<and> num < 0 then do {
             absnum \<leftarrow> abs_c ty num;
             buf' \<leftarrow> put buf off (CHR ''-'');
             Some (buf', off + 1, bufsize - 1, absnum)
           }
           else Some (buf, off, bufsize, num));
        let len = log absnum + 1;
        buf \<leftarrow> digits_loop buf off bufsize absnum len 0;
        put buf (off + nat len) NUL
      })"

fun hex_loop :: "char list \<Rightarrow> nat \<Rightarrow> nat \<Rightarrow> nat \<Rightarrow> toa_flag \<Rightarrow> char list option" where
  "hex_loop buf off 0 num flag = Some buf"
| "hex_loop buf off (Suc pos) num flag =
     (if num > 0 then
        (let hex_num = num mod 16;
             c = (if hex_num < 10 then char_of (hex_num + 48)
                  else char_of (hex_num - 10 + (if flag = Upper then 65 else 97)))
         in case put buf (off + pos) c of
              None \<Rightarrow> None
            | Some buf' \<Rightarrow> hex_loop buf' off pos (num div 16) flag)
      else Some buf)"

definition to_strbuf_hex ::
    "cint \<Rightarrow> char list \<Rightarrow> nat \<Rightarrow> nat \<Rightarrow> nat \<Rightarrow> toa_flag \<Rightarrow> char list option" where
  "to_strbuf_hex ty buf off bufsize num flag =
     (let len = nat (lim_digits16 (limits ty)) in
      if bufsize < len + 1 then Some buf
      else do {
        buf \<leftarrow> memset_loop buf off (CHR ''0'') len;
        buf \<leftarrow> put buf (off + len) NUL;
        hex_loop buf off len num flag
      })"

section \<open>Views (string\_view.hpp)\<close>

record string_view =
  sv_chars :: "char list"
  sv_length :: nat

definition string_view_of :: "char list \<Rightarrow> string_view option" where
  "string_view_of s = do { n \<leftarrow> strlen s; Some \<lparr>sv_chars = s, sv_length = n\<rparr> }"

definition string_view_eq :: "string_view \<Rightarrow> string_view \<Rightarrow> bool option" where
  "string_view_eq self other =
     (if sv_length self \<noteq> sv_length other then Some False
      else do { r \<leftarrow> strcmp (sv_chars self) (sv_chars other); Some (r = 0) })"

definition string_view_at :: "string_view \<Rightarrow> nat \<Rightarrow> char option" where
  "string_view_at self pos =
     (if sv_length self \<le> pos then Some NUL
      else if pos < length (sv_chars self) then Some (sv_chars self ! pos) else None)"

section \<open>Writing into buffers\<close>

text \<open>\<open>overwrite buf off xs\<close> is the buffer with \<open>xs\<close> stored from offset \<open>off\<close> on.\<close>

definition overwrite :: "'a list \<Rightarrow> nat \<Rightarrow> 'a list \<Rightarrow> 'a list" where
  "overwrite buf off xs = take off buf @ xs @ drop (off + length xs) buf"

lemma length_overwrite [simp]:
  "off + length xs \<le> length buf \<Longrightarrow> length (overwrite buf off xs) = length buf"
  by (simp add: overwrite_def)

lemma overwrite_Nil [simp]: "overwrite buf off [] = buf"
  by (simp add: overwrite_def)

lemma put_overwrite: "off < length buf \<Longrightarrow> put buf off c = Some (overwrite buf off [c])"
  by (simp add: put_def overwrite_def upd_conv_take_nth_drop)

lemma overwrite_overwrite:
  "off + length xs + length ys \<le> length buf \<Longrightarrow>
     overwrite (overwrite buf off xs) (off + length xs) ys = overwrite buf off (xs @ ys)"
  by (simp add: overwrite_def ac_simps)

lemma overwrite_Cons:
  "off + Suc (length ys) \<le> length buf \<Longrightarrow>
     overwrite (overwrite buf off [x]) (Suc off) ys = overwrite buf off (x # ys)"
  using overwrite_overwrite [of off "[x]" ys buf] by simp

lemma nth_overwrite:
  "off + length xs \<le> length buf \<Longrightarrow> i < length buf \<Longrightarrow>
     overwrite buf off xs ! i =
       (if off \<le> i \<and> i < off + length xs then xs ! (i - off) else buf ! i)"
  by (auto simp: overwrite_def nth_append min_def)

lemma drop_overwrite:
  "off + length xs \<le> length buf \<Longrightarrow>
     drop off (overwrite buf off xs) = xs @ drop (off + length xs) buf"
  by (simp add: overwrite_def)

lemma put_None_iff: "put buf off c = None \<longleftrightarrow> length buf \<le> off"
  by (auto simp: put_def)

section \<open>Facts about memory and C strings\<close>

abbreviation cstring :: "char list \<Rightarrow> char list" where
  "cstring s \<equiv> takeWhile (\<lambda>c. c \<noteq> NUL) s"

lemma memset_loop_eq:
  "off + n \<le> length to \<Longrightarrow> memset_loop to off c n = Some (overwrite to off (replicate n c))"
  by (induction to off c n rule: memset_loop.induct) (simp_all add: put_overwrite overwrite_Cons)

lemma memset_loop_fault: "length to < off + n \<Longrightarrow> 0 < n \<Longrightarrow> memset_loop to off c n = None"
proof (induction to off c n rule: memset_loop.induct)
  case (2 to off c n)
  show ?case
  proof (cases "off < length to")
    case True
    with "2.prems" have "0 < n" by linarith
    with 2 True show ?thesis by (simp add: put_overwrite)
  next
    case False
    then show ?thesis by (simp add: put_def)
  qed
qed simp

lemma memcpy_eq:
  "off + n \<le> length to \<Longrightarrow> n \<le> length from \<Longrightarrow>
     memcpy to off from n = Some (overwrite to off (take n from))"
  by (induction to off "from" n rule: memcpy.induct) (simp_all add: put_overwrite overwrite_Cons)

lemma strlen_loop_eq:
  "strlen_loop s n = (if NUL \<in> set s then Some (n + length (cstring s)) else None)"
  by (induction s n rule: strlen_loop.induct) auto

lemma strlen_eq: "strlen s = (if NUL \<in> set s then Some (length (cstring s)) else None)"
  by (simp add: strlen_def strlen_loop_eq)

lemma cstring_append [simp]: "NUL \<notin> set xs \<Longrightarrow> cstring (xs @ NUL # ys) = xs"
  by (subst takeWhile_append2) auto

lemma strcopy_loop_eq:
  "NUL \<in> set from \<Longrightarrow> i + length (cstring from) < length to \<Longrightarrow>
     strcopy_loop to i from n =
       Some (overwrite to i (cstring from @ [NUL]), n + length (cstring from))"
  by (induction to i "from" n rule: strcopy_loop.induct)
    (auto simp: put_overwrite overwrite_Cons)

lemma strcopy_eq:
  "NUL \<in> set from \<Longrightarrow> off + length (cstring from) < length to \<Longrightarrow>
     strcopy to off from = Some (overwrite to off (cstring from @ [NUL]), length (cstring from))"
  by (simp add: strcopy_def strcopy_loop_eq)

lemma strcopy_loop_full:
  "NUL \<in> set from \<Longrightarrow> length to = i + length (cstring from) \<Longrightarrow> strcopy_loop to i from n = None"
proof (induction to i "from" n rule: strcopy_loop.induct)
  case (2 to i c "from" copied)
  then show ?case
    by (cases "c = NUL") (auto simp: put_def overwrite_def)
qed simp

lemma strcopy_full:
  "NUL \<in> set from \<Longrightarrow> length to = off + length (cstring from) \<Longrightarrow> strcopy to off from = None"
  by (simp add: strcopy_def strcopy_loop_full)

lemma strbufcopy_loop_eq:
  "NUL \<in> set from \<Longrightarrow> copied < bufsize \<Longrightarrow> i + (bufsize - copied) \<le> length buf \<Longrightarrow>
     strbufcopy_loop buf i bufsize from copied =
       (let s = take (bufsize - copied - 1) (cstring from)
        in Some (overwrite buf i (s @ [NUL]), copied + length s))"
proof (induction buf i bufsize "from" copied rule: strbufcopy_loop.induct)
  case (2 buf i bufsize c "from" copied)
  show ?case
  proof (cases "c \<noteq> NUL \<and> copied + 1 < bufsize")
    case True
    let ?s = "take (bufsize - (copied + 1) - 1) (cstring from)"
    have p: "put buf i c = Some (overwrite buf i [c])"
      using "2.prems" by (intro put_overwrite) simp
    have "strbufcopy_loop (overwrite buf i [c]) (i + 1) bufsize from (copied + 1) =
        Some (overwrite (overwrite buf i [c]) (i + 1) (?s @ [NUL]), copied + 1 + length ?s)"
    proof -
      have "NUL \<in> set from" "copied + 1 < bufsize" using "2.prems"(1) True by auto
      moreover have "i + 1 + (bufsize - (copied + 1)) \<le> length (overwrite buf i [c])"
        using "2.prems"(2,3) True by (subst length_overwrite) auto
      ultimately show ?thesis using "2.IH" [OF True p] by (simp only: Let_def)
    qed
    moreover have "overwrite (overwrite buf i [c]) (i + 1) (?s @ [NUL]) =
        overwrite buf i (c # ?s @ [NUL])"
    proof -
      have "length ?s \<le> bufsize - (copied + 1) - 1" by simp
      moreover have "length (?s @ [NUL]) = length ?s + 1" by simp
      ultimately have "i + Suc (length (?s @ [NUL])) \<le> length buf"
        using "2.prems"(3) True by linarith
      then show ?thesis using overwrite_Cons [of i "?s @ [NUL]" buf c] by simp
    qed
    moreover have "take (bufsize - copied - 1) (cstring (c # from)) = c # ?s"
      using True by (simp add: take_Cons')
    ultimately show ?thesis using True p by (simp add: Let_def)
  next
    case False
    with "2.prems" have "take (bufsize - copied - 1) (cstring (c # from)) = []" by auto
    with False "2.prems" show ?thesis by (auto simp: put_overwrite Let_def)
  qed
qed simp

text \<open>
  C33. \<open>strbufcopy\<close> copies as much of the source string as fits with its terminator into the given
  number of bytes, writes only those bytes and the terminator, and returns the number copied; the
  buffer then holds the copied prefix as a C string.
\<close>

theorem strbufcopy_prefix:
  assumes "NUL \<in> set from" and "0 < bufsize" and "off + bufsize \<le> length buf"
  shows "\<exists>buf' n. strbufcopy buf off bufsize from = Some (buf', n)
    \<and> n = min (length (cstring from)) (bufsize - 1)
    \<and> cstring (drop off buf') = take n (cstring from)
    \<and> length buf' = length buf
    \<and> (\<forall>i < length buf. i < off \<or> off + n < i \<longrightarrow> buf' ! i = buf ! i)"
proof -
  let ?s = "take (bufsize - 1) (cstring from)"
  have eq: "strbufcopy buf off bufsize from = Some (overwrite buf off (?s @ [NUL]), length ?s)"
    using assms strbufcopy_loop_eq [OF assms(1), of 0 bufsize off buf]
    by (simp add: strbufcopy_def Let_def)
  have fits: "off + length (?s @ [NUL]) \<le> length buf" using assms(2,3) by simp
  have "NUL \<notin> set ?s" by (auto dest!: in_set_takeD set_takeWhileD)
  then have "cstring (drop off (overwrite buf off (?s @ [NUL]))) = ?s"
    unfolding drop_overwrite [OF fits] append_assoc append_Cons append_Nil
    by (rule cstring_append)
  moreover have "take (length ?s) (cstring from) = ?s" by (simp add: min_def)
  ultimately show ?thesis
    using eq fits by (auto simp: nth_overwrite min.commute)
qed

theorem strbufcopy_prefix_witness:
  "\<exists>buf'. strbufcopy ''xxxxxx'' 1 4 (''hello'' @ [NUL]) = Some (buf', 3)
    \<and> cstring (drop 1 buf') = ''hel''"
proof -
  have "NUL \<in> set (''hello'' @ [NUL])" "0 < (4::nat)" "1 + 4 \<le> length ''xxxxxx''" by auto
  from strbufcopy_prefix [OF this] show ?thesis by (auto simp: numeral_eq_Suc)
qed

lemma strcmp_nul:
  "NUL \<in> set a \<Longrightarrow> NUL \<in> set b \<Longrightarrow>
     \<exists>r. strcmp a b = Some r \<and> (r = 0 \<longleftrightarrow> cstring a = cstring b)"
proof (induction a b rule: strcmp.induct)
  case (1 a as b bs)
  have tri: "of_char a < (of_char b :: int) \<or> of_char b < (of_char a :: int) \<or> a = b"
    by (metis linorder_less_linear of_char_eq_iff)
  show ?case
  proof (cases "a \<noteq> NUL \<and> b \<noteq> NUL")
    case True
    from tri show ?thesis
    proof (elim disjE)
      assume "a = b"
      with 1 True show ?thesis by simp
    qed (use True in \<open>auto simp: Let_def\<close>)
  next
    case False
    then show ?thesis by auto
  qed
qed auto

text \<open>
  \<open>strcmp\<close> of two terminated strings returns 0 exactly when they are equal, and \<open>==\<close> of the
  views made of them decides equality.
\<close>

lemma strcmp_decides_equality:
  assumes "NUL \<in> set a" and "NUL \<in> set b"
  shows "(\<exists>r. strcmp a b = Some r \<and> (r = 0 \<longleftrightarrow> cstring a = cstring b))
    \<and> (\<exists>va vb. string_view_of a = Some va \<and> string_view_of b = Some vb
         \<and> string_view_eq va vb = Some (cstring a = cstring b))"
proof -
  obtain r where "strcmp a b = Some r" "r = 0 \<longleftrightarrow> cstring a = cstring b"
    using strcmp_nul [OF assms] by blast
  moreover have "length (cstring a) \<noteq> length (cstring b) \<Longrightarrow> cstring a \<noteq> cstring b" by auto
  ultimately show ?thesis
    using assms by (auto simp: string_view_of_def string_view_eq_def strlen_eq)
qed

text \<open>
  \<open>strcmp\<close> is not an order when one string is a proper prefix of the other: it returns 1 in both
  directions.
\<close>

lemma strcmp_prefix_not_antisymmetric:
  "strcmp (''ab'' @ [NUL]) (''abc'' @ [NUL]) = Some 1
    \<and> strcmp (''abc'' @ [NUL]) (''ab'' @ [NUL]) = Some 1"
  by simp

section \<open>Facts about the number printers\<close>

text \<open>The decimal digits of \<open>n\<close>, \<open>k\<close> of them, most significant first, and how they are read.\<close>

fun dec_digits :: "nat \<Rightarrow> nat \<Rightarrow> char list" where
  "dec_digits 0 n = []"
| "dec_digits (Suc k) n = char_of (48 + n div 10 ^ k) # dec_digits k (n mod 10 ^ k)"

definition parse_dec :: "char list \<Rightarrow> nat" where
  "parse_dec cs = foldl (\<lambda>a c. 10 * a + (of_char c - 48)) 0 cs"

lemma length_dec_digits [simp]: "length (dec_digits k n) = k"
  by (induction k arbitrary: n) auto

lemma foldl_dec_digits:
  "n < 10 ^ k \<Longrightarrow> foldl (\<lambda>a c. 10 * a + (of_char c - 48)) a (dec_digits k n) = a * 10 ^ k + n"
proof (induction k arbitrary: n a)
  case (Suc k)
  let ?d = "n div 10 ^ k"
  have d: "?d < 10" using Suc.prems by (simp add: less_mult_imp_div_less mult.commute)
  then have c: "of_char (char_of (48 + ?d) :: char) - 48 = ?d" by simp
  have "n mod 10 ^ k < 10 ^ k" by simp
  then have "foldl (\<lambda>a c. 10 * a + (of_char c - 48)) a (dec_digits (Suc k) n) =
      (10 * a + ?d) * 10 ^ k + n mod 10 ^ k"
    using Suc.IH c by simp
  also have "\<dots> = a * 10 ^ Suc k + n"
    using div_mult_mod_eq [of n "10 ^ k"] by (simp add: algebra_simps)
  finally show ?case .
qed simp

lemma parse_dec_digits: "n < 10 ^ k \<Longrightarrow> parse_dec (dec_digits k n) = n"
  using foldl_dec_digits [of n k 0] by (simp add: parse_dec_def)

lemma dec_digits_digit:
  "n < 10 ^ k \<Longrightarrow> c \<in> set (dec_digits k n) \<Longrightarrow> 48 \<le> (of_char c :: nat) \<and> of_char c < (58 :: nat)"
proof (induction k arbitrary: n)
  case (Suc k)
  have d: "n div 10 ^ k < 10" using Suc.prems by (simp add: less_mult_imp_div_less mult.commute)
  have m: "n mod 10 ^ k < 10 ^ k" by simp
  from Suc.prems(2) consider "c = char_of (48 + n div 10 ^ k)" | "c \<in> set (dec_digits k (n mod 10 ^ k))"
    by auto
  then show ?case
  proof cases
    case 1
    with d show ?thesis by simp
  next
    case 2
    with Suc.IH [OF m] show ?thesis by blast
  qed
qed simp

text \<open>
  What \<open>to\_strbuf\<close> is to print for \<open>n\<close>.
\<close>

definition decimal :: "int \<Rightarrow> char list" where
  "decimal n = (if n < 0 then [CHR ''-''] else []) @ dec_digits (nat (log \<bar>n\<bar>) + 1) (nat \<bar>n\<bar>)"

lemma num_digits:
  assumes "0 \<le> n"
  obtains k where "log n = int k" "n < 10 ^ Suc k" "k \<noteq> 0 \<Longrightarrow> 10 ^ k \<le> n"
proof (cases "n = 0")
  case True
  then show thesis using that [of 0] by (simp add: log_small)
next
  case False
  with assms show thesis using log_bounds [of n] that by (metis linorder_not_le zless_imp_add1_zle zero_less_one add_0 le_less)
qed

lemma log_mono:
  assumes "0 \<le> a" and "a \<le> b"
  shows "log a \<le> log b"
proof -
  obtain i where i: "log a = int i" "i \<noteq> 0 \<Longrightarrow> 10 ^ i \<le> a" using num_digits [OF assms(1)] by metis
  have "0 \<le> b" using assms by simp
  then obtain j where j: "log b = int j" "b < 10 ^ Suc j" using num_digits by metis
  show ?thesis
  proof (cases "i = 0")
    case False
    then have "(10::int) ^ i < 10 ^ Suc j" using i j assms(2) by fastforce
    then have "i < Suc j" by (rule power_less_imp_less_exp [rotated]) simp
    then show ?thesis using i j by simp
  qed (use i j in simp)
qed

lemma digits_loop_eq:
  assumes "0 \<le> n" and "n < 10 ^ nat (len - pos)" and "0 \<le> pos" and "pos \<le> len"
    and "len \<le> int bufsize" and "off + nat len \<le> length buf"
  shows "digits_loop buf off bufsize n len pos =
    Some (overwrite buf (off + nat pos) (dec_digits (nat (len - pos)) (nat n)))"
  using assms
proof (induction buf off bufsize n len pos rule: digits_loop.induct)
  case (1 buf off bufsize n len pos)
  show ?case
  proof (cases "pos < len")
    case False
    with "1.prems" show ?thesis by (simp add: digits_loop.simps)
  next
    case True
    with "1.prems"(5) have in_buf: "pos < len \<and> pos < int bufsize" by simp
    let ?k = "nat (len - pos - 1)"
    let ?div = "pow2 10 ?k :: int"
    let ?c = "char_of (48 + nat n div 10 ^ ?k)"
    have k: "nat (len - pos) = Suc ?k" using True by simp
    have dv: "?div = 10 ^ ?k" by (simp add: pow2_eq)
    have digit: "cdiv n ?div = n div 10 ^ ?k"
      using "1.prems"(1) by (cases "n = 0") (simp_all add: cdiv_def dv)
    have nd: "nat (n div 10 ^ ?k) = nat n div 10 ^ ?k"
      using "1.prems"(1) by (simp add: nat_div_distrib nat_power_eq)
    have "nat n < 10 ^ Suc ?k"
      using "1.prems"(1,2) unfolding k by (simp only: nat_less_iff of_nat_power of_nat_numeral)
    then have "nat n div 10 ^ ?k < 10" by (simp add: less_mult_imp_div_less mult.commute)
    moreover have "0 \<le> n div 10 ^ ?k" using "1.prems"(1) by (simp add: pos_imp_zdiv_nonneg_iff)
    ultimately have d: "0 \<le> n div 10 ^ ?k" "n div 10 ^ ?k < 10" using nd by linarith+
    have ch: "char_of (nat ((48 + cdiv n ?div) mod 256)) = (?c :: char)"
      using d nd by (simp add: digit nat_add_distrib)
    have rest: "n - cdiv n ?div * ?div = n mod 10 ^ ?k"
      unfolding digit unfolding dv by (rule minus_div_mult_eq_mod)
    have p: "put buf (off + nat pos) ?c = Some (overwrite buf (off + nat pos) [?c])"
      using "1.prems"(3,6) True by (intro put_overwrite) linarith
    have len': "length (overwrite buf (off + nat pos) [?c]) = length buf"
      using "1.prems"(3,6) True by (intro length_overwrite) (simp; linarith)
    have "digits_loop (overwrite buf (off + nat pos) [?c]) off bufsize (n mod 10 ^ ?k) len (pos + 1) =
        Some (overwrite (overwrite buf (off + nat pos) [?c]) (off + nat (pos + 1))
          (dec_digits (nat (len - (pos + 1))) (nat (n mod 10 ^ ?k))))"
    proof (rule "1.IH" [OF in_buf refl refl p [folded ch], unfolded rest ch])
      show "n mod 10 ^ ?k < 10 ^ nat (len - (pos + 1))" by (simp add: algebra_simps)
      show "off + nat len \<le> length (overwrite buf (off + nat pos) [?c])"
        using "1.prems"(6) len' by simp
    qed (use "1.prems" True in auto)
    moreover have "nat (n mod 10 ^ ?k) = nat n mod 10 ^ ?k"
      using "1.prems"(1) by (simp add: nat_mod_distrib nat_power_eq)
    moreover have "off + nat (pos + 1) = Suc (off + nat pos)" using "1.prems"(3) by simp
    moreover have "overwrite (overwrite buf (off + nat pos) [?c]) (Suc (off + nat pos))
        (dec_digits ?k (nat n mod 10 ^ ?k)) =
      overwrite buf (off + nat pos) (?c # dec_digits ?k (nat n mod 10 ^ ?k))"
      using "1.prems"(3,6) True by (intro overwrite_Cons) (simp; linarith)
    ultimately show ?thesis
      using in_buf p by (simp add: digits_loop.simps [of buf off bufsize n len pos] ch rest k
          diff_diff_eq [symmetric])
  qed
qed

lemma abs_in_range:
  assumes "in_range ty n" and "is_signed ty \<Longrightarrow> n \<noteq> cint_min ty"
  shows "\<bar>n\<bar> \<le> cint_max ty"
  using assms by (cases ty) (auto simp: in_range_def cint_min_def cint_max_def is_signed_def)

lemma log_digits10:
  assumes "\<bar>n\<bar> \<le> cint_max ty" and "ty \<noteq> CBool"
  shows "log \<bar>n\<bar> + 1 \<le> lim_digits10 (limits ty)"
proof -
  have "log \<bar>n\<bar> \<le> log (cint_max ty)" using assms(1) by (intro log_mono) auto
  with assms(2) show ?thesis by (auto simp: limits_def Let_def)
qed

lemma lim_characters10: "lim_characters10 (limits ty) = lim_digits10 (limits ty) + of_bool (is_signed ty)"
  by (simp add: limits_def Let_def)

lemma log_nonneg: "0 \<le> n \<Longrightarrow> 0 \<le> log n"
  using num_digits [of n] by (metis of_nat_0_le_iff)

lemma digits_eq:
  assumes "0 \<le> n" and "log n + 1 \<le> int bufsize" and "off + nat (log n + 1) < length buf"
  shows "do {
      buf \<leftarrow> digits_loop buf off bufsize n (log n + 1) 0;
      put buf (off + nat (log n + 1)) NUL
    } = Some (overwrite buf off (dec_digits (nat (log n) + 1) (nat n) @ [NUL]))"
proof -
  obtain k where k: "log n = int k" "n < 10 ^ Suc k" using num_digits [OF assms(1)] by metis
  have len: "nat (log n + 1) = Suc k" using k(1) by simp
  have "digits_loop buf off bufsize n (log n + 1) 0 =
      Some (overwrite buf off (dec_digits (Suc k) (nat n)))"
    using digits_loop_eq [OF assms(1), of "log n + 1" 0 bufsize off buf] assms k(2) len k(1) by simp
  moreover have "put (overwrite buf off (dec_digits (Suc k) (nat n))) (off + Suc k) NUL =
      Some (overwrite buf off (dec_digits (Suc k) (nat n) @ [NUL]))"
    using assms(3) overwrite_overwrite [of off "dec_digits (Suc k) (nat n)" "[NUL]" buf]
    by (subst put_overwrite) (simp_all add: len)
  ultimately show ?thesis using len k(1) by simp
qed

lemma strbuf_room:
  assumes "in_range ty n" and "ty \<noteq> CBool" and "is_signed ty \<Longrightarrow> n \<noteq> cint_min ty"
    and "lim_characters10 (limits ty) + 1 \<le> int bufsize"
  shows "nat (log \<bar>n\<bar>) + (if n < 0 then 3 else 2) \<le> bufsize"
proof -
  have "log \<bar>n\<bar> + 1 \<le> lim_digits10 (limits ty)"
    by (rule log_digits10 [OF abs_in_range [OF assms(1,3)] assms(2)])
  moreover have "n < 0 \<Longrightarrow> is_signed ty"
    using assms(1) by (auto simp: in_range_def cint_min_def split: if_splits)
  moreover have "0 \<le> log \<bar>n\<bar>" by (rule log_nonneg) simp
  ultimately show ?thesis
    using assms(4) lim_characters10 [of ty] by (cases "is_signed ty") auto
qed

lemma to_strbuf_eq:
  assumes "in_range ty n" and "ty \<noteq> CBool" and "is_signed ty \<Longrightarrow> n \<noteq> cint_min ty"
    and "lim_characters10 (limits ty) + 1 \<le> int bufsize" and "off + bufsize \<le> length buf"
  shows "to_strbuf ty buf off bufsize n = Some (overwrite buf off (decimal n @ [NUL]))"
proof -
  have le: "\<bar>n\<bar> \<le> cint_max ty" by (rule abs_in_range [OF assms(1,3)])
  note room = strbuf_room [OF assms(1-4)]
  have pos: "0 \<le> log \<bar>n\<bar>" by (rule log_nonneg) simp
  show ?thesis
  proof (cases "n < 0")
    case False
    then have fit: "log n + 1 \<le> int bufsize" "off + nat (log n + 1) < length buf"
      using room pos assms(5) by auto
    show ?thesis
      using digits_eq [of n bufsize off buf] fit False assms(4)
      by (simp add: to_strbuf_def decimal_def Let_def)
  next
    case True
    then have sg: "is_signed ty" using assms(1) by (auto simp: in_range_def cint_min_def split: if_splits)
    have ab: "abs_c ty n = Some \<bar>n\<bar>" using True le by (simp add: abs_c_def)
    have off: "off < length buf" using room assms(5) True by simp
    note p = put_overwrite [OF off, of "CHR ''-''"]
    let ?buf = "overwrite buf off [CHR ''-'']"
    have len: "length ?buf = length buf" using off by simp
    have fit: "log \<bar>n\<bar> + 1 \<le> int (bufsize - 1)" "off + 1 + nat (log \<bar>n\<bar> + 1) < length ?buf"
      using room pos assms(5) True unfolding len by auto
    let ?ds = "dec_digits (nat (log \<bar>n\<bar>) + 1) (nat \<bar>n\<bar>) @ [NUL]"
    have "overwrite ?buf (off + 1) ?ds = overwrite buf off (CHR ''-'' # ?ds)"
      using fit(2) len log_nonneg [of "\<bar>n\<bar>"] overwrite_Cons [of off ?ds buf "CHR ''-''"]
      by simp
    then show ?thesis
      using digits_eq [OF _ fit] True sg ab p assms(4)
      by (simp add: to_strbuf_def decimal_def Let_def)
  qed
qed

text \<open>
  C30. \<open>to_strbuf\<close> prints a number of any integer type except the least value of a signed one: into a
  buffer with room for \<open>limits<Int>::characters10\<close> characters and the terminator it writes the
  sign and the decimal digits, no more digits than needed, and reading them back gives the number.
\<close>

theorem to_strbuf_roundtrip:
  assumes "in_range ty n" and "ty \<noteq> CBool" and "is_signed ty \<Longrightarrow> n \<noteq> cint_min ty"
    and "lim_characters10 (limits ty) + 1 \<le> int bufsize" and "off + bufsize \<le> length buf"
  shows "\<exists>buf' ds. to_strbuf ty buf off bufsize n = Some buf'
    \<and> cstring (drop off buf') = (if n < 0 then CHR ''-'' # ds else ds)
    \<and> int (parse_dec ds) = \<bar>n\<bar> \<and> (1 < length ds \<longrightarrow> 10 ^ (length ds - 1) \<le> \<bar>n\<bar>)
    \<and> length buf' = length buf"
proof -
  obtain k where k: "log \<bar>n\<bar> = int k" "\<bar>n\<bar> < 10 ^ Suc k" "k \<noteq> 0 \<Longrightarrow> 10 ^ k \<le> \<bar>n\<bar>"
    using num_digits [OF abs_ge_zero [of n]] by metis
  let ?ds = "dec_digits (Suc k) (nat \<bar>n\<bar>)"
  have dec: "decimal n = (if n < 0 then CHR ''-'' # ?ds else ?ds)" by (simp add: decimal_def k(1))
  have nk: "nat \<bar>n\<bar> < 10 ^ Suc k"
    using k(2) by (simp only: nat_less_iff [OF abs_ge_zero] of_nat_power of_nat_numeral)
  have nonul: "NUL \<notin> set (decimal n)"
    unfolding dec using dec_digits_digit [OF nk, of NUL] by (auto simp del: dec_digits.simps)
  have fit: "off + length (decimal n @ [NUL]) \<le> length buf"
    using strbuf_room [OF assms(1-4)] assms(5) k(1) unfolding dec
    by (simp del: dec_digits.simps split: if_splits)
  have "cstring (drop off (overwrite buf off (decimal n @ [NUL]))) = decimal n"
    unfolding drop_overwrite [OF fit] append_assoc append_Cons append_Nil
    using nonul by (rule cstring_append)
  moreover have "int (parse_dec ?ds) = \<bar>n\<bar>"
    unfolding parse_dec_digits [OF nk] by simp
  ultimately show ?thesis
    using to_strbuf_eq [OF assms] dec k(3) length_overwrite [OF fit]
    by (intro exI [of _ "overwrite buf off (decimal n @ [NUL])"] exI [of _ ?ds])
      (simp del: dec_digits.simps)
qed

theorem to_strbuf_roundtrip_witness:
  "\<exists>buf'. to_strbuf CInt (replicate 12 NUL) 0 12 (- 345) = Some buf'"
proof -
  have "log 2147483647 = 9" by (simp add: log_def log_loop.simps)
  then have "lim_characters10 (limits CInt) + 1 \<le> int 12"
    by (simp add: limits_def is_signed_def cint_max_def)
  moreover have "in_range CInt (- 345)" "CInt \<noteq> CBool" "- 345 \<noteq> cint_min CInt"
      "0 + 12 \<le> length (replicate 12 NUL)"
    by (simp_all add: in_range_def cint_min_def cint_max_def is_signed_def)
  ultimately show ?thesis using to_strbuf_roundtrip [of CInt "- 345" 12 0 "replicate 12 NUL"] by blast
qed

text \<open>The least \<open>int\<close> cannot be printed: its absolute value overflows.\<close>

lemma to_strbuf_int_min:
  "off < length buf \<Longrightarrow> 11 < bufsize \<Longrightarrow> to_strbuf CInt buf off bufsize (cint_min CInt) = None"
proof -
  assume "off < length buf" "11 < bufsize"
  have "log 2147483647 = 9" by (simp add: log_def log_loop.simps)
  then have "lim_characters10 (limits CInt) = 11"
    by (simp add: limits_def is_signed_def cint_max_def)
  with \<open>11 < bufsize\<close> show ?thesis
    by (simp add: to_strbuf_def abs_c_def cint_min_def cint_max_def is_signed_def)
qed

end
