(* ===== verification/Containers.thy ===== *)
theory Containers
  imports Allocators Slab C_Strings
begin

text \<open>
  The owning containers of pine: \<open>Maybe\<close> (maybe.hpp), \<open>Owner\<close> (memory.hpp), \<open>String\<close> (string.hpp) and
  \<open>Vector\<close> (vector.hpp). They are templates over an allocator, so the operations that need memory take
  its \<open>allocate\<close> and \<open>free\<close> as arguments, and their lemmas hold for every allocator with the
  contract of Allocator\_Interface.
\<close>

section \<open>Maybe (maybe.hpp)\<close>

text \<open>
  The storage of a \<open>Maybe\<close> holds an object or none, next to the flag. Where a destructor of the
  value runs, the operation returns the destroyed objects; that makes lost ones visible.
\<close>

record 'v maybe =
  mb_space :: "'v option"
  mb_has_value :: bool

definition maybe_not :: "'v maybe" where
  "maybe_not = \<lparr>mb_space = None, mb_has_value = False\<rparr>"

definition maybe_of :: "'v \<Rightarrow> 'v maybe" where
  "maybe_of v = \<lparr>mb_space = Some v, mb_has_value = True\<rparr>"

definition maybe_value :: "'v maybe \<Rightarrow> 'v option" where
  "maybe_value m = mb_space m"

definition maybe_destroy :: "'v maybe \<Rightarrow> ('v list \<times> 'v maybe) option" where
  "maybe_destroy m =
     (if mb_has_value m then do { v \<leftarrow> maybe_value m; Some ([v], m\<lparr>mb_space := None\<rparr>) }
      else Some ([], m))"

definition maybe_release_value :: "'v maybe \<Rightarrow> ('v \<times> 'v maybe) option" where
  "maybe_release_value m = do { v \<leftarrow> maybe_value m; Some (v, m\<lparr>mb_has_value := False\<rparr>) }"

definition maybe_copy :: "'v maybe \<Rightarrow> 'v maybe option" where
  "maybe_copy other_maybe =
     (if mb_has_value other_maybe then do { v \<leftarrow> maybe_value other_maybe; Some (maybe_of v) }
      else Some maybe_not)"

definition maybe_move :: "'v maybe \<Rightarrow> ('v maybe \<times> 'v maybe) option" where
  "maybe_move other_maybe =
     (if mb_has_value other_maybe then do {
        (v, other_maybe) \<leftarrow> maybe_release_value other_maybe;
        Some (maybe_of v, other_maybe)
      }
      else Some (maybe_not, other_maybe))"

text \<open>Assignment from a different object; assigning an object to itself does nothing.\<close>

definition maybe_copy_assign :: "'v maybe \<Rightarrow> 'v maybe \<Rightarrow> ('v list \<times> 'v maybe) option" where
  "maybe_copy_assign m other_maybe =
     (let m = m\<lparr>mb_has_value := mb_has_value other_maybe\<rparr> in
      if mb_has_value m then do {
        v \<leftarrow> maybe_value other_maybe;
        Some ([], m\<lparr>mb_space := Some v\<rparr>)
      }
      else Some ([], m))"

definition maybe_move_assign :: "'v maybe \<Rightarrow> 'v maybe \<Rightarrow> ('v list \<times> 'v maybe \<times> 'v maybe) option" where
  "maybe_move_assign m other_maybe = do {
     (destroyed, m) \<leftarrow> maybe_destroy m;
     let m = m\<lparr>mb_has_value := mb_has_value other_maybe\<rparr>;
     (if mb_has_value m then do {
        (v, other_maybe) \<leftarrow> maybe_release_value other_maybe;
        Some (destroyed, m\<lparr>mb_space := Some v\<rparr>, other_maybe)
      }
      else Some (destroyed, m, other_maybe))
   }"

section \<open>Owner (memory.hpp)\<close>

text \<open>An owner is the address it owns, null once it was moved from or released.\<close>

type_synonym owner = ptr

definition default_destroy ::
    "(allocation \<Rightarrow> 's \<Rightarrow> (size_t \<times> 's) option) \<Rightarrow> size_t \<Rightarrow> ptr \<Rightarrow> 's \<Rightarrow> 's option" where
  "default_destroy free sizeof_value p a = do {
     (_, a) \<leftarrow> free \<lparr>al_ptr = p, al_size = sizeof_value\<rparr> a;
     Some a
   }"

definition owner_try_create ::
    "(size_t \<Rightarrow> 's \<Rightarrow> (allocation \<times> 's) option) \<Rightarrow> size_t \<Rightarrow> 's \<Rightarrow> (owner option \<times> 's) option" where
  "owner_try_create allocate sizeof_value a = do {
     (al, a) \<leftarrow> allocate sizeof_value a;
     Some (if al_ptr al = nullptr then None else Some (al_ptr al), a)
   }"

definition owner_dtor ::
    "(allocation \<Rightarrow> 's \<Rightarrow> (size_t \<times> 's) option) \<Rightarrow> size_t \<Rightarrow> owner \<Rightarrow> 's \<Rightarrow> 's option" where
  "owner_dtor free sizeof_value m_ptr a =
     (if m_ptr \<noteq> nullptr then default_destroy free sizeof_value m_ptr a else Some a)"

definition owner_release :: "owner \<Rightarrow> ptr \<times> owner" where
  "owner_release m_ptr = (m_ptr, nullptr)"

definition owner_move :: "owner \<Rightarrow> owner \<times> owner" where
  "owner_move other = (let (p, other) = owner_release other in (p, other))"

text \<open>Move assignment swaps with a temporary made from the argument, which is destroyed.\<close>

definition owner_move_assign ::
    "(allocation \<Rightarrow> 's \<Rightarrow> (size_t \<times> 's) option) \<Rightarrow> size_t \<Rightarrow> owner \<Rightarrow> owner \<Rightarrow> 's
       \<Rightarrow> (owner \<times> owner \<times> 's) option" where
  "owner_move_assign free sizeof_value m_ptr other a =
     (let (tmp, other) = owner_move other; (m_ptr, tmp) = (tmp, m_ptr)
      in do { a \<leftarrow> owner_dtor free sizeof_value tmp a; Some (m_ptr, other, a) })"

section \<open>String (string.hpp)\<close>

text \<open>
  The bytes of the strings are kept by address. \<open>garbage p n\<close> are the \<open>n\<close> bytes that memory at \<open>p\<close>
  holds when it is handed out.
\<close>

record str =
  s_length :: size_t
  s_string :: ptr

type_synonym bytes = "ptr \<Rightarrow> char list option"

definition str_empty :: str where
  "str_empty = \<lparr>s_length = 0, s_string = nullptr\<rparr>"

definition str_try_create_n ::
    "(size_t \<Rightarrow> 's \<Rightarrow> (allocation \<times> 's) option) \<Rightarrow> (ptr \<Rightarrow> nat \<Rightarrow> char list)
       \<Rightarrow> char list \<Rightarrow> size_t \<Rightarrow> bytes \<times> 's \<Rightarrow> (str option \<times> bytes \<times> 's) option" where
  "str_try_create_n allocate garbage from len = (\<lambda>(b, a). do {
     (al, a) \<leftarrow> allocate len a;
     (if al_ptr al = nullptr then Some (None, b, a)
      else do {
        (dest, _) \<leftarrow> strcopy (garbage (al_ptr al) (unat (al_size al))) 0 from;
        Some (Some \<lparr>s_length = len, s_string = al_ptr al\<rparr>, b(al_ptr al \<mapsto> dest), a)
      })
   })"

definition str_try_create ::
    "(size_t \<Rightarrow> 's \<Rightarrow> (allocation \<times> 's) option) \<Rightarrow> (ptr \<Rightarrow> nat \<Rightarrow> char list)
       \<Rightarrow> char list \<Rightarrow> bytes \<times> 's \<Rightarrow> (str option \<times> bytes \<times> 's) option" where
  "str_try_create allocate garbage from s = do {
     n \<leftarrow> strlen from;
     str_try_create_n allocate garbage from (of_nat n) s
   }"

definition str_dtor ::
    "(allocation \<Rightarrow> 's \<Rightarrow> (size_t \<times> 's) option) \<Rightarrow> str \<Rightarrow> bytes \<times> 's \<Rightarrow> (bytes \<times> 's) option" where
  "str_dtor free m = (\<lambda>(b, a).
     if s_string m \<noteq> nullptr then do {
       a \<leftarrow> default_destroy free 1 (s_string m) a;
       Some (b(s_string m := None), a)
     }
     else Some (b, a))"

definition str_clear ::
    "(allocation \<Rightarrow> 's \<Rightarrow> (size_t \<times> 's) option) \<Rightarrow> str \<Rightarrow> bytes \<times> 's \<Rightarrow> (str \<times> bytes \<times> 's) option" where
  "str_clear free m s = do {
     s \<leftarrow> str_dtor free m s;
     Some (m\<lparr>s_string := nullptr, s_length := 0\<rparr>, s)
   }"

definition str_move :: "str \<Rightarrow> str \<times> str" where
  "str_move other = (other, other\<lparr>s_length := 0, s_string := nullptr\<rparr>)"

definition str_at :: "bytes \<Rightarrow> str \<Rightarrow> size_t \<Rightarrow> char option" where
  "str_at b m index = do { cs \<leftarrow> b (s_string m); arr_at cs (unat index) }"

definition str_eq :: "bytes \<Rightarrow> str \<Rightarrow> string_view \<Rightarrow> bool option" where
  "str_eq b m other = do {
     cs \<leftarrow> b (s_string m);
     r \<leftarrow> strcmp cs (sv_chars other);
     Some (r = 0)
   }"

definition str_view :: "bytes \<Rightarrow> str \<Rightarrow> string_view option" where
  "str_view b m = do { cs \<leftarrow> b (s_string m); Some \<lparr>sv_chars = cs, sv_length = unat (s_length m)\<rparr> }"

section \<open>Vector (vector.hpp)\<close>

text \<open>
  The slots of the vectors are kept by address, one per value that fits into the memory; an empty
  slot is memory without a constructed value. Reading an empty slot or any access outside the
  slots is \<open>None\<close>.
\<close>

record vector =
  v_count :: size_t
  v_capacity :: size_t
  v_contents :: ptr

type_synonym 'v store = "ptr \<Rightarrow> 'v option list option"

definition vec_empty :: vector where
  "vec_empty = \<lparr>v_count = 0, v_capacity = 0, v_contents = nullptr\<rparr>"

definition slot_get :: "'v store \<Rightarrow> ptr \<Rightarrow> nat \<Rightarrow> 'v option" where
  "slot_get st p i = do { slots \<leftarrow> st p; (if i < length slots then slots ! i else None) }"

definition slot_put :: "'v store \<Rightarrow> ptr \<Rightarrow> nat \<Rightarrow> 'v option \<Rightarrow> 'v store option" where
  "slot_put st p i v = do {
     slots \<leftarrow> st p;
     (if i < length slots then Some (st(p \<mapsto> slots[i := v])) else None)
   }"

definition align_capacity :: "size_t \<Rightarrow> size_t option" where
  "align_capacity new_capacity =
     (if PageSize < new_capacity then Some (align_up_two new_capacity PageSize)
      else do { n \<leftarrow> align_up_to_power new_capacity; Some (max2 n 8) })"

text \<open>\<open>for (i = 0; i < m\_count; i++) new (new\_contents + i) Value(move(m\_contents[i]))\<close>\<close>

fun vec_move_loop :: "'v store \<Rightarrow> ptr \<Rightarrow> ptr \<Rightarrow> nat \<Rightarrow> nat \<Rightarrow> 'v store option" where
  "vec_move_loop st old new i 0 = Some st"
| "vec_move_loop st old new i (Suc n) = do {
     v \<leftarrow> slot_get st old i;
     st \<leftarrow> slot_put st new i (Some v);
     vec_move_loop st old new (i + 1) n
   }"

type_synonym ('v, 's) vec_state = "vector \<times> 'v store \<times> 's"

text \<open>Giving up the old memory of a vector, if it had any.\<close>

definition vec_free_old ::
    "(allocation \<Rightarrow> 's \<Rightarrow> (size_t \<times> 's) option) \<Rightarrow> ptr \<Rightarrow> size_t \<Rightarrow> 'v store \<times> 's \<Rightarrow> ('v store \<times> 's) option" where
  "vec_free_old free old_contents old_capacity = (\<lambda>(st, a).
     if old_contents \<noteq> nullptr then do {
       (_, a) \<leftarrow> free \<lparr>al_ptr = old_contents, al_size = old_capacity\<rparr> a;
       Some (st(old_contents := None), a)
     }
     else Some (st, a))"

definition vec_resize ::
    "(size_t \<Rightarrow> 's \<Rightarrow> (allocation \<times> 's) option) \<Rightarrow> (allocation \<Rightarrow> 's \<Rightarrow> (size_t \<times> 's) option)
       \<Rightarrow> size_t \<Rightarrow> size_t \<Rightarrow> ('v, 's) vec_state \<Rightarrow> (bool \<times> ('v, 's) vec_state) option" where
  "vec_resize allocate free sizeof_value amount = (\<lambda>(v, st, a). do {
     new_capacity \<leftarrow> align_capacity amount;
     (al, a) \<leftarrow> allocate (new_capacity * sizeof_value) a;
     (if al_ptr al = nullptr then Some (False, (v, st, a))
      else do {
        let st = st(al_ptr al \<mapsto> replicate (unat (al_size al) div unat sizeof_value) None);
        st \<leftarrow> vec_move_loop st (v_contents v) (al_ptr al) 0 (unat (v_count v));
        (st, a) \<leftarrow> vec_free_old free (v_contents v) (v_capacity v) (st, a);
        Some (True, (v\<lparr>v_capacity := al_size al, v_contents := al_ptr al\<rparr>, st, a))
      })
   })"

definition vec_ensure ::
    "(size_t \<Rightarrow> 's \<Rightarrow> (allocation \<times> 's) option) \<Rightarrow> (allocation \<Rightarrow> 's \<Rightarrow> (size_t \<times> 's) option)
       \<Rightarrow> size_t \<Rightarrow> size_t \<Rightarrow> ('v, 's) vec_state \<Rightarrow> (bool \<times> ('v, 's) vec_state) option" where
  "vec_ensure allocate free sizeof_value amount s =
     (if amount \<le> v_capacity (fst s) then Some (True, s)
      else vec_resize allocate free sizeof_value amount s)"

definition vec_emplace_unensured :: "'v \<Rightarrow> ('v, 's) vec_state \<Rightarrow> ('v, 's) vec_state option" where
  "vec_emplace_unensured x = (\<lambda>(v, st, a). do {
     st \<leftarrow> slot_put st (v_contents v) (unat (v_count v)) (Some x);
     Some (v\<lparr>v_count := v_count v + 1\<rparr>, st, a)
   })"

definition vec_append ::
    "(size_t \<Rightarrow> 's \<Rightarrow> (allocation \<times> 's) option) \<Rightarrow> (allocation \<Rightarrow> 's \<Rightarrow> (size_t \<times> 's) option)
       \<Rightarrow> size_t \<Rightarrow> 'v \<Rightarrow> ('v, 's) vec_state \<Rightarrow> (bool \<times> ('v, 's) vec_state) option" where
  "vec_append allocate free sizeof_value x s = do {
     (ok, s) \<leftarrow> vec_ensure allocate free sizeof_value (v_count (fst s) + 1) s;
     (if \<not> ok then Some (False, s)
      else do { s \<leftarrow> vec_emplace_unensured x s; Some (True, s) })
   }"

text \<open>The copying loop of \<open>remove\<close> skips the removed index.\<close>

function vec_remove_loop ::
    "'v store \<Rightarrow> ptr \<Rightarrow> ptr \<Rightarrow> nat \<Rightarrow> nat \<Rightarrow> nat \<Rightarrow> nat \<Rightarrow> 'v store option" where
  "vec_remove_loop st old new index from to count =
     (if to < count then
        if from = index then vec_remove_loop st old new index (from + 1) to count
        else (case slot_get st old from of
                None \<Rightarrow> None
              | Some v \<Rightarrow> (case slot_put st new to (Some v) of
                    None \<Rightarrow> None
                  | Some st' \<Rightarrow> vec_remove_loop st' old new index (from + 1) (to + 1) count))
      else Some st)"
  by pat_completeness auto
termination
  by (relation "measures [\<lambda>(st, old, new, index, from, to, count). count - to,
      \<lambda>(st, old, new, index, from, to, count). index + 1 - from]") auto

declare vec_remove_loop.simps [simp del]

definition vec_remove ::
    "(size_t \<Rightarrow> 's \<Rightarrow> (allocation \<times> 's) option) \<Rightarrow> (allocation \<Rightarrow> 's \<Rightarrow> (size_t \<times> 's) option)
       \<Rightarrow> size_t \<Rightarrow> size_t \<Rightarrow> ('v, 's) vec_state \<Rightarrow> (bool \<times> ('v, 's) vec_state) option" where
  "vec_remove allocate free sizeof_value index = (\<lambda>(v, st, a).
     if v_count v \<le> index then Some (False, (v, st, a))
     else do {
       _ \<leftarrow> slot_get st (v_contents v) (unat index);
       st \<leftarrow> slot_put st (v_contents v) (unat index) None;
       let v = v\<lparr>v_count := v_count v - 1\<rparr>;
       (if index = v_count v then Some (True, (v, st, a))
        else do {
          new_capacity \<leftarrow> align_capacity (v_count v);
          (al, a) \<leftarrow> allocate (new_capacity * sizeof_value) a;
          (if al_ptr al = nullptr then Some (False, (v, st, a))
           else do {
             let st = st(al_ptr al \<mapsto> replicate (unat (al_size al) div unat sizeof_value) None);
             st \<leftarrow> vec_remove_loop st (v_contents v) (al_ptr al) (unat index) 0 0 (unat (v_count v));
             (st, a) \<leftarrow> vec_free_old free (v_contents v) (v_capacity v) (st, a);
             Some (True, (v\<lparr>v_capacity := al_size al, v_contents := al_ptr al\<rparr>, st, a))
           })
        })
     })"

definition vec_at :: "('v, 's) vec_state \<Rightarrow> size_t \<Rightarrow> 'v option" where
  "vec_at s index = slot_get (fst (snd s)) (v_contents (fst s)) (unat index)"

definition vec_move :: "vector \<Rightarrow> vector \<times> vector" where
  "vec_move other = (other, other\<lparr>v_count := 0, v_capacity := 0, v_contents := nullptr\<rparr>)"

text \<open>The destructor destroys the first value only and frees the memory with the size of one value.\<close>

definition vec_dtor ::
    "(allocation \<Rightarrow> 's \<Rightarrow> (size_t \<times> 's) option) \<Rightarrow> size_t \<Rightarrow> ('v, 's) vec_state \<Rightarrow> ('v store \<times> 's) option" where
  "vec_dtor free sizeof_value = (\<lambda>(v, st, a).
     if v_contents v \<noteq> nullptr then do {
       _ \<leftarrow> slot_get st (v_contents v) 0;
       a \<leftarrow> default_destroy free sizeof_value (v_contents v) a;
       Some (st(v_contents v := None), a)
     }
     else Some (st, a))"

section \<open>Capacities\<close>

lemma align_capacity_ok:
  assumes "unat n \<le> 2 ^ 31"
  obtains c where "align_capacity n = Some c" "n \<le> c" "8 \<le> c" "unat c \<le> max 8 (2 ^ 31)"
proof (cases "PageSize < n")
  case True
  then have big: "4096 < unat n" by (simp add: PageSize_def unat_word_lt)
  have "unat n \<le> 2 ^ 31" by (rule assms)
  then have n: "unat n \<le> 2147483648" by simp
  have nz: "n \<noteq> 0" using big by auto
  have up: "unat (align_up_two n PageSize) = (unat n + 4095) div 4096 * 4096"
    using unat_align_up_two [of PageSize 12 n] n nz by (simp add: PageSize_def)
  have "(unat n + 4095) div 4096 \<le> 524288" using n by linarith
  then have "unat (align_up_two n PageSize) \<le> 2147483648" unfolding up by linarith
  moreover have "unat n \<le> unat (align_up_two n PageSize)" unfolding up by linarith
  ultimately show thesis
    using that [of "align_up_two n PageSize"] True big by (simp add: align_capacity_def unat_word_le)
next
  case False
  obtain k where k: "align_up_to_power n = Some (2 ^ k)" "unat n \<le> 2 ^ k" "k \<le> 31"
    using align_up_to_power_ok [of n 31] assms by auto
  have u: "unat (2 ^ k :: size_t) = 2 ^ k" using k(3) by (simp add: unat_exp_word)
  have "(2::nat) ^ k \<le> 2 ^ 31" using k(3) by (intro power_increasing) simp_all
  then show thesis
    using that [of "max (2 ^ k) 8"] k u False
    by (auto simp: align_capacity_def unat_word_le max_def)
qed

section \<open>The abstract vector\<close>

text \<open>A vector over slots represents the list of its values.\<close>

definition vec_rep :: "size_t \<Rightarrow> vector \<Rightarrow> 'v store \<Rightarrow> 'v list \<Rightarrow> bool" where
  "vec_rep sizeof_value v st xs \<longleftrightarrow> v_count v = of_nat (length xs)
     \<and> (if v_contents v = nullptr then xs = [] \<and> v_capacity v = 0
        else v_capacity v \<noteq> 0 \<and> (\<exists>slots. st (v_contents v) = Some slots
          \<and> length slots = unat (v_capacity v) div unat sizeof_value
          \<and> length xs \<le> length slots \<and> take (length xs) slots = map Some xs))"

definition vec_memory :: "vector \<Rightarrow> allocation set" where
  "vec_memory v = (if v_contents v = nullptr then {} else {\<lparr>al_ptr = v_contents v, al_size = v_capacity v\<rparr>})"

lemma vec_rep_empty [simp]: "vec_rep sz vec_empty st []"
  by (simp add: vec_rep_def vec_empty_def)

lemma vec_rep_count:
  assumes "vec_rep sz v st xs"
  shows "unat (v_count v) = length xs"
proof -
  have "length xs < 2 ^ 32"
  proof (cases "v_contents v = nullptr")
    case False
    then have "length xs \<le> unat (v_capacity v) div unat sz" using assms by (auto simp: vec_rep_def)
    also have "\<dots> \<le> unat (v_capacity v)" by simp
    also have "\<dots> < 2 ^ 32" using unat_lt_exp [of "v_capacity v"] by simp
    finally show ?thesis .
  qed (use assms in \<open>simp add: vec_rep_def\<close>)
  then show ?thesis using assms by (simp add: vec_rep_def unat_of_nat_lt)
qed

lemma vec_rep_get:
  assumes "vec_rep sz v st xs" and "i < length xs"
  shows "slot_get st (v_contents v) i = Some (xs ! i)"
proof -
  obtain slots where s: "st (v_contents v) = Some slots" "length xs \<le> length slots"
      "take (length xs) slots = map Some xs"
    using assms by (auto simp: vec_rep_def split: if_splits)
  then have "slots ! i = Some (xs ! i)" using assms(2) by (metis nth_map nth_take)
  then show ?thesis using s assms(2) by (simp add: slot_get_def)
qed

lemma vec_move_loop_ok:
  assumes "old \<noteq> new" and "\<And>j. i \<le> j \<Longrightarrow> j < i + n \<Longrightarrow> slot_get st old j = Some (f j)"
    and "st new = Some slots" and "i + n \<le> length slots"
  shows "vec_move_loop st old new i n =
    Some (st(new \<mapsto> take i slots @ map (\<lambda>j. Some (f j)) [i..<i + n] @ drop (i + n) slots))"
  using assms
proof (induction n arbitrary: i st slots)
  case 0
  then show ?case by (simp add: fun_upd_idem)
next
  case (Suc n)
  let ?slots = "slots[i := Some (f i)]"
  let ?st = "st(new \<mapsto> ?slots)"
  have get: "slot_get st old i = Some (f i)" using Suc.prems(2) [of i] by simp
  have put: "slot_put st new i (Some (f i)) = Some ?st" using Suc.prems(3,4) by (simp add: slot_put_def)
  have "vec_move_loop ?st old new (i + 1) n = Some (?st(new \<mapsto>
       take (i + 1) ?slots @ map (\<lambda>j. Some (f j)) [i + 1..<i + 1 + n] @ drop (i + 1 + n) ?slots))"
  proof (rule Suc.IH)
    show "slot_get ?st old j = Some (f j)" if "i + 1 \<le> j" "j < i + 1 + n" for j
      using Suc.prems(1) Suc.prems(2) [of j] that by (simp add: slot_get_def)
  qed (use Suc.prems(1,4) in simp_all)
  moreover have "take (i + 1) ?slots = take i slots @ [Some (f i)]"
    using Suc.prems(4) by (simp add: take_Suc_conv_app_nth take_update_cancel)
  ultimately show ?case
    using get put Suc.prems(4) by (simp add: drop_update_cancel upt_conv_Cons fun_eq_iff del: upt_Suc)
qed

lemma vec_emplace_ok:
  assumes rep: "vec_rep sz v st xs" and room: "length xs < unat (v_capacity v) div unat sz"
    and ne: "v_contents v \<noteq> nullptr"
  shows "\<exists>st'. vec_emplace_unensured x (v, st, a) = Some (v\<lparr>v_count := v_count v + 1\<rparr>, st', a)
    \<and> vec_rep sz (v\<lparr>v_count := v_count v + 1\<rparr>) st' (xs @ [x]) \<and> (\<forall>p. p \<noteq> v_contents v \<longrightarrow> st' p = st p)"
proof -
  obtain slots where s: "st (v_contents v) = Some slots" "length slots = unat (v_capacity v) div unat sz"
      "take (length xs) slots = map Some xs"
    using rep ne by (auto simp: vec_rep_def)
  let ?slots = "slots[length xs := Some x]"
  have "slot_put st (v_contents v) (length xs) (Some x) = Some (st(v_contents v \<mapsto> ?slots))"
    using s room by (simp add: slot_put_def)
  moreover have "take (Suc (length xs)) ?slots = map Some (xs @ [x])"
    using s room by (simp add: take_Suc_conv_app_nth take_update_cancel)
  ultimately show ?thesis
    using s room rep ne by (simp add: vec_emplace_unensured_def vec_rep_count [OF rep]) (simp add: vec_rep_def)
qed

section \<open>Resizing and appending\<close>

context allocator
begin

lemma vec_free_old_ok:
  assumes "live a (insert b (vec_memory v \<union> A))" and "vec_memory v \<inter> A = {}" and "b \<notin> vec_memory v"
  shows "\<exists>st' a'. vec_free_old free (v_contents v) (v_capacity v) (st, a) = Some (st', a')
    \<and> live a' (insert b A) \<and> (\<forall>p. p \<noteq> v_contents v \<longrightarrow> st' p = st p)
    \<and> (v_contents v = nullptr \<longrightarrow> st' = st)"
proof (cases "v_contents v = nullptr")
  case True
  then show ?thesis using assms by (simp add: vec_free_old_def vec_memory_def)
next
  case False
  let ?o = "\<lparr>al_ptr = v_contents v, al_size = v_capacity v\<rparr>"
  have m: "vec_memory v = {?o}" using False by (simp add: vec_memory_def)
  obtain k a' where f: "free ?o a = Some (k, a')"
      "live a' (insert b (vec_memory v \<union> A) - {?o})"
    using free_live [OF assms(1), of ?o] m by blast
  have "insert b (vec_memory v \<union> A) - {?o} = insert b A" using assms(2,3) m by auto
  then show ?thesis using f False by (simp add: vec_free_old_def)
qed

lemma vec_resize_ok:
  assumes rep: "vec_rep sz v st xs" and live: "live a (vec_memory v \<union> A)" and disj: "vec_memory v \<inter> A = {}"
    and c: "align_capacity n = Some c" "length xs \<le> unat c" and cpos: "0 < unat c" and sz: "sz \<noteq> 0"
    and fits: "unat c * unat sz < 2 ^ 32" and adm: "admissible (c * sz)"
  shows "\<exists>ok v' st' a'. vec_resize allocate free sz n (v, st, a) = Some (ok, (v', st', a')) \<and>
    (if ok then vec_rep sz v' st' xs \<and> live a' (vec_memory v' \<union> A) \<and> vec_memory v' \<inter> A = {}
       \<and> v_contents v' \<noteq> nullptr \<and> unat c \<le> unat (v_capacity v') div unat sz \<and> v_count v' = v_count v
     else (v', st') = (v, st) \<and> live a' (vec_memory v \<union> A))"
  using live adm
proof (cases rule: allocate_cases)
  case (failed a')
  then show ?thesis using c(1) by (auto simp: vec_resize_def no_allocation_def)
next
  case (ok b a')
  let ?new = "al_ptr b" and ?n = "unat (al_size b) div unat sz"
  have "unat (c * sz) = unat c * unat sz" using fits by (simp add: unat_word_ariths)
  then have "unat c * unat sz \<le> unat (al_size b)" using ok(3) by (simp add: unat_word_le)
  moreover have "0 < unat sz" using sz by (simp add: unat_gt_0)
  ultimately have cap: "unat c \<le> ?n" by (simp add: less_eq_div_iff_mult_less_eq)
  have bmem: "0 < unat (al_size b)"
    using \<open>unat c * unat sz \<le> unat (al_size b)\<close> \<open>0 < unat sz\<close> cpos by (metis nat_0_less_mult_iff order_less_le_trans)
  have newne: "v_contents v \<noteq> ?new"
  proof (cases "v_contents v = nullptr")
    case True
    then show ?thesis using ok(2) by simp
  next
    case False
    let ?o = "\<lparr>al_ptr = v_contents v, al_size = v_capacity v\<rparr>"
    have "?o \<noteq> b" using ok(4) False by (auto simp: vec_memory_def)
    then have dis: "memory_of ?o \<inter> memory_of b = {}"
      using live_disjoint [OF ok(5), of ?o b] False by (auto simp: vec_memory_def)
    have "0 < unat (v_capacity v)" using rep False by (auto simp: vec_rep_def unat_gt_0)
    then have "unat (v_contents v) \<in> memory_of ?o" by (simp add: memory_of_def)
    moreover have "unat ?new \<in> memory_of b" using bmem by (simp add: memory_of_def)
    ultimately show ?thesis using dis by auto
  qed
  let ?st = "st(?new \<mapsto> replicate ?n None)"
  have move: "vec_move_loop ?st (v_contents v) ?new 0 (length xs) =
      Some (?st(?new \<mapsto> map Some xs @ replicate (?n - length xs) None))"
  proof -
    have "vec_move_loop ?st (v_contents v) ?new 0 (length xs) = Some (?st(?new \<mapsto>
        take 0 (replicate ?n None) @ map (\<lambda>j. Some (xs ! j)) [0..<0 + length xs]
          @ drop (0 + length xs) (replicate ?n None)))"
    proof (rule vec_move_loop_ok [OF newne])
      show "slot_get ?st (v_contents v) j = Some (xs ! j)" if "0 \<le> j" "j < 0 + length xs" for j
        using vec_rep_get [OF rep, of j] newne that by (simp add: slot_get_def)
    qed (use c(2) cap in simp_all)
    moreover have "map (\<lambda>j. Some (xs ! j)) [0..<length xs] = map Some xs"
      by (rule nth_equalityI) simp_all
    ultimately show ?thesis by simp
  qed
  let ?v = "v\<lparr>v_capacity := al_size b, v_contents := ?new\<rparr>"
  have vm: "vec_memory ?v = {b}" using ok(2) by (simp add: vec_memory_def)
  let ?st2 = "?st(?new \<mapsto> map Some xs @ replicate (?n - length xs) None)"
  obtain st3 a3 where fr: "vec_free_old free (v_contents v) (v_capacity v) (?st2, a') = Some (st3, a3)"
      "live a3 (insert b A)" "\<forall>p. p \<noteq> v_contents v \<longrightarrow> st3 p = ?st2 p" "v_contents v = nullptr \<longrightarrow> st3 = ?st2"
    using vec_free_old_ok [OF ok(5) disj, of ?st2] ok(4) by auto
  have st3: "st3 ?new = Some (map Some xs @ replicate (?n - length xs) None)"
    using fr(3) newne by simp
  have "vec_rep sz ?v st3 xs"
    using rep st3 ok(2) c(2) cap bmem by (auto simp: vec_rep_def simp flip: unat_gt_0)
  moreover have "vec_memory ?v \<inter> A = {}" using vm ok(4) by simp
  moreover have "vec_resize allocate free sz n (v, st, a) = Some (True, (?v, st3, a3))"
    using c(1) ok(1,2) move fr(1) by (simp add: vec_resize_def vec_rep_count [OF rep])
  ultimately show ?thesis using fr(2) vm ok(2) cap by auto
qed

lemma vec_append_ok:
  assumes rep: "vec_rep sz v st xs" and live: "live a (vec_memory v \<union> A)" and disj: "vec_memory v \<inter> A = {}"
    and sz: "sz \<noteq> 0" and len: "length xs < 2 ^ 31"
    and room: "v_count v + 1 \<le> v_capacity v \<Longrightarrow> length xs < unat (v_capacity v) div unat sz"
    and fits: "\<And>c. align_capacity (v_count v + 1) = Some c \<Longrightarrow> unat c * unat sz < 2 ^ 32 \<and> admissible (c * sz)"
  shows "\<exists>ok v' st' a'. vec_append allocate free sz x (v, st, a) = Some (ok, (v', st', a')) \<and>
    (if ok then vec_rep sz v' st' (xs @ [x]) \<and> live a' (vec_memory v' \<union> A) \<and> vec_memory v' \<inter> A = {}
     else (v', st') = (v, st) \<and> live a' (vec_memory v \<union> A))"
proof -
  have cnt: "unat (v_count v + 1) = length xs + 1"
    using vec_rep_count [OF rep] len by (subst unat_add_lt) simp_all
  show ?thesis
  proof (cases "v_count v + 1 \<le> v_capacity v")
    case True
    then have "v_capacity v \<noteq> 0" using cnt by (auto simp: unat_word_le)
    then have ne: "v_contents v \<noteq> nullptr" using rep by (auto simp: vec_rep_def)
    obtain st' where e: "vec_emplace_unensured x (v, st, a) = Some (v\<lparr>v_count := v_count v + 1\<rparr>, st', a)"
        "vec_rep sz (v\<lparr>v_count := v_count v + 1\<rparr>) st' (xs @ [x])"
      using vec_emplace_ok [OF rep room [OF True] ne, of x a] by (elim exE conjE) (rule that)
    have "vec_memory (v\<lparr>v_count := v_count v + 1\<rparr>) = vec_memory v" by (simp add: vec_memory_def)
    then show ?thesis
      using e True live disj by (intro exI [of _ True]) (simp add: vec_append_def vec_ensure_def)
  next
    case False
    obtain c where c: "align_capacity (v_count v + 1) = Some c" "v_count v + 1 \<le> c" "8 \<le> c"
      using align_capacity_ok [of "v_count v + 1"] cnt len by auto
    have len_c: "length xs < unat c" using c(2) cnt by (simp add: unat_word_le)
    then have pos: "length xs \<le> unat c" "0 < unat c" by simp_all
    have f: "unat c * unat sz < 2 ^ 32" "admissible (c * sz)" using fits [OF c(1)] by simp_all
    obtain ok v' st' a' where r: "vec_resize allocate free sz (v_count v + 1) (v, st, a) = Some (ok, (v', st', a'))"
        "if ok then vec_rep sz v' st' xs \<and> live a' (vec_memory v' \<union> A) \<and> vec_memory v' \<inter> A = {}
           \<and> v_contents v' \<noteq> nullptr \<and> unat c \<le> unat (v_capacity v') div unat sz \<and> v_count v' = v_count v
         else (v', st') = (v, st) \<and> live a' (vec_memory v \<union> A)"
      using vec_resize_ok [OF rep live disj c(1) pos sz f] by (elim exE conjE) (rule that)
    show ?thesis
    proof (cases ok)
      case True
      then have r': "vec_rep sz v' st' xs" "live a' (vec_memory v' \<union> A)" "vec_memory v' \<inter> A = {}"
          "v_contents v' \<noteq> nullptr" "unat c \<le> unat (v_capacity v') div unat sz" "v_count v' = v_count v"
        using r(2) by simp_all
      have roomy: "length xs < unat (v_capacity v') div unat sz" using r'(5) len_c by linarith
      obtain st2 where e: "vec_emplace_unensured x (v', st', a') = Some (v'\<lparr>v_count := v_count v' + 1\<rparr>, st2, a')"
          "vec_rep sz (v'\<lparr>v_count := v_count v' + 1\<rparr>) st2 (xs @ [x])"
        using vec_emplace_ok [OF r'(1) roomy r'(4), of x a'] by (elim exE conjE) (rule that)
      have "vec_memory (v'\<lparr>v_count := v_count v' + 1\<rparr>) = vec_memory v'" by (simp add: vec_memory_def)
      then show ?thesis
        using r(1) e True False r'(2,3) by (intro exI [of _ True]) (simp add: vec_append_def vec_ensure_def)
    next
      case notok: False
      then show ?thesis
        using r False by (intro exI [of _ False]) (simp add: vec_append_def vec_ensure_def)
    qed
  qed
qed

end


text \<open>
  \<open>m_capacity\<close> counts bytes where it should count entries: once the memory of a vector of values
  of more than one byte is full, the next \<open>append\<close> believes there is room and writes past the end.
\<close>

lemma vec_append_overflows:
  assumes rep: "vec_rep sz v st xs" and full: "length xs = unat (v_capacity v) div unat sz"
    and sz: "1 < unat sz" and ne: "v_contents v \<noteq> nullptr" and cap: "0 < unat (v_capacity v)"
  shows "vec_append allocate free sz x (v, st, a) = None"
proof -
  have lt: "length xs < unat (v_capacity v)"
    unfolding full using sz cap by (intro div_less_dividend)
  have cnt: "unat (v_count v) = length xs" by (rule vec_rep_count [OF rep])
  have "unat (v_count v + 1) = length xs + 1"
    using cnt lt unat_lt_exp [of "v_capacity v"] by (subst unat_add_lt) simp_all
  then have "v_count v + 1 \<le> v_capacity v" using lt by (simp add: unat_word_le)
  moreover obtain slots where "st (v_contents v) = Some slots" "length slots = length xs"
    using rep ne full by (auto simp: vec_rep_def)
  then have "slot_put st (v_contents v) (length xs) (Some x) = None" by (simp add: slot_put_def)
  ultimately show ?thesis
    by (simp add: vec_append_def vec_ensure_def vec_emplace_unensured_def cnt)
qed

section \<open>Strings\<close>

text \<open>
  \<open>String::try_create\<close> asks for as many bytes as the string has characters and then writes one
  more, the terminator: with exactly the requested memory it writes past the end, with a byte to
  spare it stores the string.
\<close>

lemma str_try_create_terminator:
  assumes "NUL \<in> set from" and "length (cstring from) < 2 ^ 32"
    and "allocate (of_nat (length (cstring from))) a = Some (al, a')" and "al_ptr al \<noteq> nullptr"
    and "\<And>p n. length (garbage p n) = n" and "of_nat (length (cstring from)) \<le> al_size al"
  shows "if unat (al_size al) = length (cstring from)
    then str_try_create allocate garbage from (b, a) = None
    else \<exists>m b' cs. str_try_create allocate garbage from (b, a) = Some (Some m, b', a')
      \<and> b' (s_string m) = Some cs \<and> NUL \<in> set cs \<and> cstring cs = cstring from \<and> unat (s_length m) = length (cstring from)"
proof -
  let ?s = "cstring from" and ?g = "garbage (al_ptr al) (unat (al_size al))"
  have len: "strlen from = Some (length ?s)" using assms(1) by (simp add: strlen_eq)
  have u: "unat (of_nat (length ?s) :: size_t) = length ?s" using assms(2) by (intro unat_of_nat_lt) simp
  have le: "length ?s \<le> unat (al_size al)" using assms(6) u by (simp add: unat_word_le)
  show ?thesis
  proof (cases "unat (al_size al) = length ?s")
    case True
    have "strcopy ?g 0 from = None"
      using strcopy_full [of "from" ?g 0] assms(1,5) True by simp
    then show ?thesis
      using True assms(3,4) len by (simp add: str_try_create_def str_try_create_n_def)
  next
    case False
    then have c: "strcopy ?g 0 from = Some (overwrite ?g 0 (?s @ [NUL]), length ?s)"
      using assms(1,5) le by (intro strcopy_eq) simp_all
    have o: "overwrite ?g 0 (?s @ [NUL]) = ?s @ NUL # drop (length ?s + 1) ?g"
      by (simp add: overwrite_def)
    have "cstring (?s @ NUL # drop (length ?s + 1) ?g) = ?s"
      by (intro cstring_append) (auto dest: set_takeWhileD)
    then show ?thesis
      using False assms(3,4) len c u by (simp add: str_try_create_def str_try_create_n_def o)
  qed
qed

section \<open>Lifetimes\<close>

text \<open>
  Move assignment destroys the object it replaces and takes over the other one; copy assignment
  replaces it too but destroys nothing, so the old object is lost (and with it what it owns).
\<close>

lemma maybe_assign_destroys:
  "maybe_move_assign (maybe_of v) (maybe_of w) = Some ([v], maybe_of w, (maybe_of w)\<lparr>mb_has_value := False\<rparr>)
    \<and> maybe_move_assign (maybe_of v) maybe_not = Some ([v], maybe_not, maybe_not)
    \<and> maybe_copy_assign (maybe_of v) (maybe_of w) = Some ([], maybe_of w)
    \<and> maybe_copy_assign (maybe_of v) maybe_not = Some ([], (maybe_of v)\<lparr>mb_has_value := False\<rparr>)"
  by (simp add: maybe_move_assign_def maybe_copy_assign_def maybe_destroy_def maybe_release_value_def
      maybe_value_def maybe_of_def maybe_not_def Let_def)

context allocator
begin

lemma owner_lifecycle:
  assumes "live a A" and "admissible sz"
  shows "\<exists>r a'. owner_try_create allocate sz a = Some (r, a') \<and>
    (case r of None \<Rightarrow> live a' A
     | Some p \<Rightarrow> p \<noteq> nullptr \<and> (\<exists>b. al_ptr b = p \<and> sz \<le> al_size b \<and> b \<notin> A \<and> live a' (insert b A))
         \<and> (\<exists>a''. owner_dtor free sz p a' = Some a'' \<and> live a'' A))"
  using assms
proof (cases rule: allocate_cases)
  case (failed a')
  then show ?thesis by (auto simp: owner_try_create_def no_allocation_def)
next
  case (ok b a')
  obtain k a'' where f: "free b a' = Some (k, a'')" "live a'' (insert b A - {b})"
    using free_live [OF ok(5), of b] by blast
  have "insert b A - {b} = A" using ok(4) by auto
  moreover have "free \<lparr>al_ptr = al_ptr b, al_size = sz\<rparr> a' = Some (k, a'')"
    using free_by_address [of "\<lparr>al_ptr = al_ptr b, al_size = sz\<rparr>" b a'] f(1) by simp
  ultimately have "owner_dtor free sz (al_ptr b) a' = Some a'' \<and> live a'' A"
    using f(2) ok(2) by (simp add: owner_dtor_def default_destroy_def)
  then show ?thesis using ok by (auto simp: owner_try_create_def)
qed

end

text \<open>
  An owner of a kernel object is created with memory of its own and gives exactly that memory
  back when it is destroyed: the set of live allocations is what it was before.
\<close>

lemma kowner_lifecycle:
  fixes A :: "allocation set"
  defines "good \<equiv> binder_live (fa_live fl_region_ok) fl_live fl_managed"
  assumes "good a A"
  shows "\<exists>r a'. owner_try_create (binder_allocate fa_allocate fl_allocate fl_add fl_preferred_size) sz a = Some (r, a') \<and>
    (case r of None \<Rightarrow> good a' A
     | Some p \<Rightarrow> p \<noteq> nullptr \<and> (\<exists>b. al_ptr b = p \<and> sz \<le> al_size b \<and> b \<notin> A \<and> good a' (insert b A))
         \<and> (\<exists>a''. owner_dtor (binder_free fl_free) sz p a' = Some a'' \<and> good a'' A))"
  unfolding good_def by (rule kernel.bound.owner_lifecycle) (use assms in simp_all)

section \<open>Concrete instances\<close>

lemma align_capacity_1: "align_capacity 1 = Some 8"
  by (simp add: align_capacity_def align_up_to_power_def align_down_to_power_def bit_width_def
      bit_width_loop.simps PageSize_def max_def)


end
