(* ===== verification/Kfiles.thy ===== *)
theory Kfiles
  imports Containers
begin

text \<open>
  Files of the kernel: pine/errno.hpp, \<open>FileMode\<close> of pine/syscall.hpp, the pseudo devices of
  kernel/pseudo\_devices.hpp and the tables of kernel/file.hpp and kernel/file.cpp. The system-wide
  \<open>FileTable\<close> is a vector of file descriptions, a task's \<open>FileDescriptorTable\<close> a vector of pointers
  into it; both live in memory of the kernel's allocator, whose operations are arguments. A
  \<open>FileDescription*\<close> is the address of the vector's memory and an index, so a pointer into memory
  that was given up faults.
\<close>

section \<open>Error numbers and modes\<close>

datatype errno = EBADF | EFBIG | EINVAL | ENOMEM

fun errno_int :: "errno \<Rightarrow> int" where
  "errno_int EBADF = 0"
| "errno_int EFBIG = 1"
| "errno_int EINVAL = 2"
| "errno_int ENOMEM = 3"

datatype file_mode = ModeRead | ModeWrite | ModeReadWrite

definition ssize_max :: size_t where "ssize_max = 2147483647"

section \<open>The File interface and the pseudo devices\<close>

text \<open>
  \<open>read\<close> and \<open>write\<close> of a device with state \<open>'d\<close>: the buffer is the user's memory from \<open>buf\<close> on. A
  read returns the number of bytes or an error, and the buffer after it.
\<close>

locale file_device =
  fixes dread :: "char list \<Rightarrow> size_t \<Rightarrow> 'd \<Rightarrow> (int \<times> char list \<times> 'd) option"
    and dwrite :: "char list \<Rightarrow> size_t \<Rightarrow> 'd \<Rightarrow> (int \<times> 'd) option"
  assumes read_bytes: "n \<le> ssize_max \<Longrightarrow> unat n \<le> length buf \<Longrightarrow>
      \<exists>r buf' d'. dread buf n d = Some (r, buf', d') \<and> length buf' = length buf
        \<and> r \<le> int (unat n) \<and> (0 \<le> r \<longrightarrow> drop (nat r) buf' = drop (nat r) buf)"
    and write_bytes: "n \<le> ssize_max \<Longrightarrow> unat n \<le> length buf \<Longrightarrow>
      \<exists>r d'. dwrite buf n d = Some (r, d') \<and> r \<le> int (unat n)"

definition devzero_read :: "char list \<Rightarrow> size_t \<Rightarrow> 'd \<Rightarrow> (int \<times> char list \<times> 'd) option" where
  "devzero_read buf at_most_bytes d = do {
     buf \<leftarrow> bzero buf 0 (unat at_most_bytes);
     Some (sint at_most_bytes, buf, d)
   }"

definition devzero_write :: "char list \<Rightarrow> size_t \<Rightarrow> 'd \<Rightarrow> (int \<times> 'd) option" where
  "devzero_write buf n d = Some (sint n, d)"

definition devnull_read :: "char list \<Rightarrow> size_t \<Rightarrow> 'd \<Rightarrow> (int \<times> char list \<times> 'd) option" where
  "devnull_read buf at_most_bytes d = Some (0, buf, d)"

definition devnull_write :: "char list \<Rightarrow> size_t \<Rightarrow> 'd \<Rightarrow> (int \<times> 'd) option" where
  "devnull_write buf n d = Some (sint n, d)"

lemma sint_of_nat_small:
  assumes "k \<le> 2147483647"
  shows "sint (of_nat k :: size_t) = int k"
proof -
  have "sint (of_int (int k) :: size_t) = int k" using assms by (intro sint_of_int_small) simp_all
  then show ?thesis by simp
qed

lemma sint_ssize: "n \<le> ssize_max \<Longrightarrow> sint (n :: size_t) = int (unat n)"
  using sint_of_nat_small [of "unat n"] by (simp add: ssize_max_def unat_word_le)

interpretation devzero: file_device devzero_read devzero_write
proof
  fix n :: size_t and buf :: "char list" and d :: 'd
  assume n: "n \<le> ssize_max" "unat n \<le> length buf"
  then have "memset_loop buf 0 NUL (unat n) = Some (overwrite buf 0 (replicate (unat n) NUL))"
    by (intro memset_loop_eq) simp
  then show "\<exists>r buf' d'. devzero_read buf n d = Some (r, buf', d') \<and> length buf' = length buf
      \<and> r \<le> int (unat n) \<and> (0 \<le> r \<longrightarrow> drop (nat r) buf' = drop (nat r) buf)"
    using n sint_ssize [OF n(1)] by (simp add: devzero_read_def bzero_def overwrite_def)
  show "\<exists>r d'. devzero_write buf n d = Some (r, d') \<and> r \<le> int (unat n)"
    using sint_ssize [OF n(1)] by (simp add: devzero_write_def)
qed

interpretation devnull: file_device devnull_read devnull_write
  by unfold_locales (auto simp: devnull_read_def devnull_write_def sint_ssize)

section \<open>File descriptions\<close>

datatype file_class = DevNullFile | DevZeroFile | UARTFile | DisplayFile

record file_description =
  fdn_file :: owner
  fdn_class :: file_class
  fdn_mode :: file_mode
  fdn_ref_count :: u32

definition file_description_new :: "owner \<Rightarrow> file_class \<Rightarrow> file_mode \<Rightarrow> file_description" where
  "file_description_new file cls mode =
     \<lparr>fdn_file = file, fdn_class = cls, fdn_mode = mode, fdn_ref_count = 1\<rparr>"

definition fdn_read ::
    "(file_class \<Rightarrow> char list \<Rightarrow> size_t \<Rightarrow> 'd \<Rightarrow> (int \<times> char list \<times> 'd) option)
       \<Rightarrow> file_description \<Rightarrow> char list \<Rightarrow> size_t \<Rightarrow> 'd \<Rightarrow> (int \<times> char list \<times> 'd) option" where
  "fdn_read dev_read fdn buf at_most_bytes d =
     (if fdn_mode fdn = ModeWrite then Some (- errno_int EINVAL, buf, d)
      else if ssize_max < at_most_bytes then Some (- errno_int EINVAL, buf, d)
      else dev_read (fdn_class fdn) buf at_most_bytes d)"

definition fdn_write ::
    "(file_class \<Rightarrow> char list \<Rightarrow> size_t \<Rightarrow> 'd \<Rightarrow> (int \<times> 'd) option)
       \<Rightarrow> file_description \<Rightarrow> char list \<Rightarrow> size_t \<Rightarrow> 'd \<Rightarrow> (int \<times> 'd) option" where
  "fdn_write dev_write fdn buf n d =
     (if fdn_mode fdn = ModeRead then Some (- errno_int EINVAL, d)
      else if ssize_max < n then Some (- errno_int EINVAL, d)
      else dev_write (fdn_class fdn) buf n d)"

section \<open>The file table\<close>

type_synonym fdn_ptr = "ptr \<times> nat"

text \<open>
  The memory of the kernel as far as the tables use it: the vector of the file table with the store
  of its descriptions, the store of the descriptor tables, and the allocator.
\<close>

record 's fs =
  fs_files :: vector
  fs_descriptions :: "file_description store"
  fs_descriptors :: "fdn_ptr option store"
  fs_alloc :: 's

text \<open>The allocator, and the sizes of the classes on the target.\<close>

record 's fs_env =
  env_allocate :: "size_t \<Rightarrow> 's \<Rightarrow> (allocation \<times> 's) option"
  env_free :: "allocation \<Rightarrow> 's \<Rightarrow> (size_t \<times> 's) option"
  env_sizeof_file :: "file_class \<Rightarrow> size_t"

definition sizeof_file :: size_t where "sizeof_file = 4"

definition sizeof_description :: size_t where "sizeof_description = 16"

definition sizeof_descriptor :: size_t where "sizeof_descriptor = 4"

definition path_class :: "char list \<Rightarrow> file_class option option" where
  "path_class path = do {
     view \<leftarrow> string_view_of path;
     is_null \<leftarrow> string_view_of (''/dev/null'' @ [NUL]) \<bind> string_view_eq view;
     is_zero \<leftarrow> string_view_of (''/dev/zero'' @ [NUL]) \<bind> string_view_eq view;
     is_uart \<leftarrow> string_view_of (''/dev/uart0'' @ [NUL]) \<bind> string_view_eq view;
     is_display \<leftarrow> string_view_of (''/dev/display'' @ [NUL]) \<bind> string_view_eq view;
     Some (if is_null then Some DevNullFile
       else if is_zero then Some DevZeroFile
       else if is_uart then Some UARTFile
       else if is_display then Some DisplayFile
       else None)
   }"

definition file_table_open ::
    "'s fs_env \<Rightarrow> char list \<Rightarrow> file_mode \<Rightarrow> 's fs \<Rightarrow> (fdn_ptr option \<times> 's fs) option" where
  "file_table_open env path mode s = do {
     cls \<leftarrow> path_class path;
     (case cls of None \<Rightarrow> Some (None, s)
      | Some cls \<Rightarrow> do {
          (maybe_file, a) \<leftarrow> owner_try_create (env_allocate env) (env_sizeof_file env cls) (fs_alloc s);
          (case maybe_file of None \<Rightarrow> Some (None, s\<lparr>fs_alloc := a\<rparr>)
           | Some file \<Rightarrow> do {
               (ok, (files, st, a)) \<leftarrow> vec_append (env_allocate env) (env_free env) sizeof_description
                 (file_description_new file cls mode) (fs_files s, fs_descriptions s, a);
               let s = s\<lparr>fs_files := files, fs_descriptions := st, fs_alloc := a\<rparr>;
               (if \<not> ok then do {
                  a \<leftarrow> owner_dtor (env_free env) sizeof_file file (fs_alloc s);
                  Some (None, s\<lparr>fs_alloc := a\<rparr>)
                }
                else Some (Some (v_contents files, unat (v_count files - 1)), s))
             })
        })
   }"

text \<open>\<open>--m\_ref\_count\<close>, and the destructor of the description when no reference is left.\<close>

definition file_table_close :: "'s fs_env \<Rightarrow> fdn_ptr \<Rightarrow> 's fs \<Rightarrow> 's fs option" where
  "file_table_close env = (\<lambda>(p, i) s. do {
     fdn \<leftarrow> slot_get (fs_descriptions s) p i;
     let fdn = fdn\<lparr>fdn_ref_count := fdn_ref_count fdn - 1\<rparr>;
     (if fdn_ref_count fdn = 0 then do {
        a \<leftarrow> owner_dtor (env_free env) sizeof_file (fdn_file fdn) (fs_alloc s);
        st \<leftarrow> slot_put (fs_descriptions s) p i None;
        Some (s\<lparr>fs_descriptions := st, fs_alloc := a\<rparr>)
      }
      else do {
        st \<leftarrow> slot_put (fs_descriptions s) p i (Some fdn);
        Some (s\<lparr>fs_descriptions := st\<rparr>)
      })
   })"

section \<open>Descriptor tables\<close>

type_synonym fd_table = vector

text \<open>The loop of \<open>try\_insert\<close>: the first null descriptor is overwritten.\<close>

fun insert_null_loop ::
    "fdn_ptr option store \<Rightarrow> ptr \<Rightarrow> fdn_ptr \<Rightarrow> nat \<Rightarrow> nat \<Rightarrow> (nat \<times> fdn_ptr option store) option option" where
  "insert_null_loop st p description fd_index 0 = Some None"
| "insert_null_loop st p description fd_index (Suc n) = do {
     descriptor \<leftarrow> slot_get st p fd_index;
     (if descriptor = None then do {
        st \<leftarrow> slot_put st p fd_index (Some (Some description));
        Some (Some (fd_index, st))
      }
      else insert_null_loop st p description (fd_index + 1) n)
   }"

definition fdt_try_insert ::
    "'s fs_env \<Rightarrow> fdn_ptr \<Rightarrow> fd_table \<Rightarrow> 's fs \<Rightarrow> (int \<times> fd_table \<times> 's fs) option" where
  "fdt_try_insert env description t s =
     (if 2147483647 < v_count t then Some (- 1, t, s)
      else do {
        r \<leftarrow> insert_null_loop (fs_descriptors s) (v_contents t) description 0 (unat (v_count t));
        (case r of
           Some (fd_index, st) \<Rightarrow> Some (int fd_index, t, s\<lparr>fs_descriptors := st\<rparr>)
         | None \<Rightarrow> do {
             (ok, (t, st, a)) \<leftarrow> vec_append (env_allocate env) (env_free env) sizeof_descriptor
               (Some description) (t, fs_descriptors s, fs_alloc s);
             let s = s\<lparr>fs_descriptors := st, fs_alloc := a\<rparr>;
             Some (if \<not> ok then - 1 else sint (v_count t - 1), t, s)
           })
      })"

definition fdt_open ::
    "'s fs_env \<Rightarrow> char list \<Rightarrow> file_mode \<Rightarrow> fd_table \<Rightarrow> 's fs \<Rightarrow> (int \<times> fd_table \<times> 's fs) option" where
  "fdt_open env path mode t s = do {
     (maybe_description, s) \<leftarrow> file_table_open env path mode s;
     (case maybe_description of None \<Rightarrow> Some (- 1, t, s)
      | Some description \<Rightarrow> do {
          (fd_or_neg, t, s) \<leftarrow> fdt_try_insert env description t s;
          (if fd_or_neg = - 1 then do {
             s \<leftarrow> file_table_close env description s;
             Some (- 1, t, s)
           }
           else Some (fd_or_neg, t, s))
        })
   }"

text \<open>\<open>try\_get\<close>: \<open>Some None\<close> is the null pointer.\<close>

definition fdt_try_get :: "int \<Rightarrow> fd_table \<Rightarrow> 's fs \<Rightarrow> fdn_ptr option option" where
  "fdt_try_get fd t s =
     (if fd < 0 then Some None
      else let fd_index = nat fd in
        if unat (v_count t) \<le> fd_index then Some None
        else slot_get (fs_descriptors s) (v_contents t) fd_index)"

definition fdt_close :: "'s fs_env \<Rightarrow> int \<Rightarrow> fd_table \<Rightarrow> 's fs \<Rightarrow> (int \<times> 's fs) option" where
  "fdt_close env fd t s =
     (if fd < 0 then Some (- errno_int EBADF, s)
      else let fd_index = nat fd in
        if unat (v_count t) \<le> fd_index then Some (- errno_int EBADF, s)
        else do {
          descriptor \<leftarrow> slot_get (fs_descriptors s) (v_contents t) fd_index;
          (case descriptor of None \<Rightarrow> Some (- errno_int EBADF, s)
           | Some description \<Rightarrow> do {
               s \<leftarrow> file_table_close env description s;
               st \<leftarrow> slot_put (fs_descriptors s) (v_contents t) fd_index (Some None);
               Some (0, s\<lparr>fs_descriptors := st\<rparr>)
             })
        })"

definition fdt_dup :: "'s fs_env \<Rightarrow> int \<Rightarrow> fd_table \<Rightarrow> 's fs \<Rightarrow> (int \<times> fd_table \<times> 's fs) option" where
  "fdt_dup env fd t s =
     (if fd < 0 then Some (- errno_int EBADF, t, s)
      else let fd_index = nat fd in
        if unat (v_count t) \<le> fd_index then Some (- errno_int EBADF, t, s)
        else do {
          descriptor \<leftarrow> slot_get (fs_descriptors s) (v_contents t) fd_index;
          (case descriptor of None \<Rightarrow> Some (- errno_int EBADF, t, s)
           | Some description \<Rightarrow> fdt_try_insert env description t s)
        })"

section \<open>The descriptor table as a list\<close>

lemma slot_put_rep:
  assumes rep: "vec_rep sz v st xs" and i: "i < length xs"
  shows "\<exists>st'. slot_put st (v_contents v) i (Some x) = Some st' \<and> vec_rep sz v st' (xs[i := x])
    \<and> (\<forall>p. p \<noteq> v_contents v \<longrightarrow> st' p = st p)"
proof -
  have ne: "v_contents v \<noteq> nullptr" using rep i by (auto simp: vec_rep_def)
  obtain slots where s: "st (v_contents v) = Some slots" "length xs \<le> length slots"
      "take (length xs) slots = map Some xs"
    using rep ne by (auto simp: vec_rep_def)
  have "slot_put st (v_contents v) i (Some x) = Some (st(v_contents v \<mapsto> slots[i := Some x]))"
    using s i by (simp add: slot_put_def)
  moreover have "take (length xs) (slots[i := Some x]) = map Some (xs[i := x])"
    using s(3) by (simp add: take_update_swap map_update)
  ultimately show ?thesis using rep ne s by (auto simp: vec_rep_def)
qed

definition first_null :: "'a option list \<Rightarrow> nat" where
  "first_null ds = length (takeWhile (\<lambda>d. d \<noteq> None) ds)"

lemma first_null_less: "None \<in> set ds \<Longrightarrow> first_null ds < length ds \<and> ds ! first_null ds = None"
  unfolding first_null_def by (induction ds) auto

lemma insert_null_loop_eq:
  assumes rep: "vec_rep sz t st ds" and "i + n = length ds" and "\<forall>k<i. ds ! k \<noteq> None"
  shows "insert_null_loop st (v_contents t) d i n =
    (if None \<in> set ds then do { st' \<leftarrow> slot_put st (v_contents t) (first_null ds) (Some (Some d));
        Some (Some (first_null ds, st')) }
     else Some None)"
  using assms(2,3)
proof (induction n arbitrary: i)
  case 0
  then have "None \<notin> set ds" by (auto simp: in_set_conv_nth)
  then show ?case by simp
next
  case (Suc n)
  then have i: "i < length ds" by simp
  note get = vec_rep_get [OF rep i]
  show ?case
  proof (cases "ds ! i")
    case None
    then have "None \<in> set ds" using i by (metis nth_mem)
    moreover have "takeWhile (\<lambda>d. d \<noteq> None) ds = take i ds"
      using Suc.prems(2) None i by (intro takeWhile_eq_take_P_nth) auto
    then have "first_null ds = i" using i by (simp add: first_null_def)
    ultimately show ?thesis using get None by simp
  next
    case (Some e)
    have "\<forall>k<i + 1. ds ! k \<noteq> None" using Suc.prems(2) Some by (auto simp: less_Suc_eq)
    then show ?thesis using Suc.IH [of "i + 1"] Suc.prems(1) get Some by simp
  qed
qed

lemma fdt_try_insert_free:
  assumes rep: "vec_rep sz t (fs_descriptors s) ds" and free: "None \<in> set ds" and len: "length ds \<le> 2147483647"
  shows "\<exists>st. fdt_try_insert env d t s = Some (int (first_null ds), t, s\<lparr>fs_descriptors := st\<rparr>)
    \<and> vec_rep sz t st (ds[first_null ds := Some d])"
proof -
  have cnt: "unat (v_count t) = length ds" by (rule vec_rep_count [OF rep])
  then have "\<not> 2147483647 < v_count t" using len by (simp add: unat_word_lt)
  moreover obtain st where "slot_put (fs_descriptors s) (v_contents t) (first_null ds) (Some (Some d)) = Some st"
      "vec_rep sz t st (ds[first_null ds := Some d])"
    using slot_put_rep [OF rep, of "first_null ds" "Some d"] first_null_less [OF free] by blast
  ultimately show ?thesis
    using insert_null_loop_eq [OF rep, of 0 "length ds" d] free
    by (intro exI [of _ st]) (simp add: fdt_try_insert_def cnt)
qed

text \<open>
  C14. A new descriptor takes the lowest free slot: when some descriptor of the table is null, the first
  such index is returned and overwritten, and every other descriptor stays.
\<close>

theorem fdt_try_insert_lowest:
  assumes "vec_rep sz t (fs_descriptors s) ds" and "None \<in> set ds" and "length ds \<le> 2147483647"
  shows "\<exists>i st. fdt_try_insert env d t s = Some (int i, t, s\<lparr>fs_descriptors := st\<rparr>)
    \<and> i < length ds \<and> ds ! i = None \<and> (\<forall>j<i. ds ! j \<noteq> None) \<and> vec_rep sz t st (ds[i := Some d])"
proof -
  have "\<forall>j<first_null ds. ds ! j \<noteq> None"
    unfolding first_null_def by (metis (mono_tags, lifting) nth_mem set_takeWhileD takeWhile_nth)
  then show ?thesis using fdt_try_insert_free [OF assms, of env d] first_null_less [OF assms(2)] by blast
qed

text \<open>
  Closing or duplicating a descriptor that is not open returns 0, the value of success: \<open>EBADF\<close> is
  the first enumerator and has the value 0, so the error cannot be told from success.
\<close>

lemma fdt_bad_descriptor_is_success:
  assumes "vec_rep sz t (fs_descriptors s) ds"
    and "fd < 0 \<or> int (length ds) \<le> fd \<or> (0 \<le> fd \<and> fd < int (length ds) \<and> ds ! nat fd = None)"
  shows "fdt_close env fd t s = Some (0, s) \<and> fdt_dup env fd t s = Some (0, t, s)"
proof (cases "fd < 0 \<or> int (length ds) \<le> fd")
  case True
  then show ?thesis using vec_rep_count [OF assms(1)] by (auto simp: fdt_close_def fdt_dup_def Let_def)
next
  case False
  then have "nat fd < length ds" by linarith
  then have "slot_get (fs_descriptors s) (v_contents t) (nat fd) = Some None"
    using vec_rep_get [OF assms(1), of "nat fd"] assms(2) False by auto
  then show ?thesis
    using False vec_rep_count [OF assms(1)] by (auto simp: fdt_close_def fdt_dup_def Let_def)
qed

text \<open>
  \<open>dup\<close> does not count the new reference: after duplicating a descriptor and closing the original,
  the copy still points at the description, but the description has been destroyed.
\<close>

lemma fdt_dup_close_dangles:
  assumes rep: "vec_rep sz t (fs_descriptors s) ds" and free: "None \<in> set ds" and len: "length ds \<le> 2147483647"
    and fd: "fd < length ds" "ds ! fd = Some (p, i)"
    and fdn: "slot_get (fs_descriptions s) p i = Some fdn" "fdn_ref_count fdn = 1"
    and dtor: "owner_dtor (env_free env) sizeof_file (fdn_file fdn) (fs_alloc s) = Some a"
  shows "\<exists>j s1 s2. fdt_dup env (int fd) t s = Some (int j, t, s1) \<and> j \<noteq> fd
    \<and> fdt_close env (int fd) t s1 = Some (0, s2)
    \<and> fdt_try_get (int j) t s2 = Some (Some (p, i)) \<and> slot_get (fs_descriptions s2) p i = None"
proof -
  let ?j = "first_null ds"
  note j = first_null_less [OF free]
  have ne: "?j \<noteq> fd" using j fd by auto
  have cnt: "unat (v_count t) = length ds" by (rule vec_rep_count [OF rep])
  obtain st where ins: "fdt_try_insert env (p, i) t s = Some (int ?j, t, s\<lparr>fs_descriptors := st\<rparr>)"
      "vec_rep sz t st (ds[?j := Some (p, i)])"
    using fdt_try_insert_free [OF rep free len, of env "(p, i)"] by blast
  have dup: "fdt_dup env (int fd) t s = Some (int ?j, t, s\<lparr>fs_descriptors := st\<rparr>)"
    using fd cnt ins(1) vec_rep_get [OF rep fd(1)] by (simp add: fdt_dup_def)
  have get: "slot_get st (v_contents t) fd = Some (Some (p, i))"
    using vec_rep_get [OF ins(2), of fd] fd ne by simp
  obtain slots where slots: "fs_descriptions s p = Some slots" "i < length slots"
    using fdn(1) by (auto simp: slot_get_def split: bind_splits if_splits)
  let ?D = "(fs_descriptions s)(p \<mapsto> slots[i := None])"
  have close: "file_table_close env (p, i) (s\<lparr>fs_descriptors := st\<rparr>)
      = Some (s\<lparr>fs_descriptors := st, fs_descriptions := ?D, fs_alloc := a\<rparr>)"
    using fdn dtor slots by (simp add: file_table_close_def slot_put_def)
  obtain st2 where st2: "slot_put st (v_contents t) fd (Some None) = Some st2"
      "vec_rep sz t st2 (ds[?j := Some (p, i), fd := None])"
    using slot_put_rep [OF ins(2), of fd None] fd by auto
  let ?s2 = "s\<lparr>fs_descriptors := st2, fs_descriptions := ?D, fs_alloc := a\<rparr>"
  have "fdt_close env (int fd) t (s\<lparr>fs_descriptors := st\<rparr>) = Some (0, ?s2)"
    using fd cnt get close st2(1) by (simp add: fdt_close_def)
  moreover have "fdt_try_get (int ?j) t ?s2 = Some (Some (p, i))"
    using vec_rep_get [OF st2(2), of ?j] j ne cnt by (simp add: fdt_try_get_def)
  moreover have "slot_get (fs_descriptions ?s2) p i = None" using slots by (simp add: slot_get_def)
  ultimately show ?thesis using dup ne by blast
qed

text \<open>Closing a description does not touch the descriptor tables.\<close>

lemma file_table_close_descriptors:
  "file_table_close env x (s\<lparr>fs_descriptors := st\<rparr>) = map_option (fs_descriptors_update (\<lambda>_. st)) (file_table_close env x s)"
  by (cases x) (auto simp: file_table_close_def Let_def split: bind_splits)

lemma file_table_close_keeps: "file_table_close env x s = Some s' \<Longrightarrow> fs_descriptors s' = fs_descriptors s"
  by (cases x) (auto simp: file_table_close_def Let_def split: bind_splits if_splits)

text \<open>Closing the lowest descriptor and duplicating another one puts the other's description in its place.\<close>

lemma fdt_close_dup:
  assumes rep: "vec_rep sz t (fs_descriptors s) ds" and len: "length ds \<le> 2147483647"
    and n: "n < length ds" "ds ! n = Some x" "\<forall>k<n. ds ! k \<noteq> None"
    and m: "m < length ds" "ds ! m = Some d" "m \<noteq> n"
    and close: "file_table_close env x s = Some s'"
  shows "\<exists>st st2. fdt_close env (int n) t s = Some (0, s'\<lparr>fs_descriptors := st\<rparr>)
    \<and> fdt_dup env (int m) t (s'\<lparr>fs_descriptors := st\<rparr>) = Some (int n, t, s'\<lparr>fs_descriptors := st2\<rparr>)
    \<and> vec_rep sz t st2 (ds[n := Some d])"
proof -
  have cnt: "unat (v_count t) = length ds" by (rule vec_rep_count [OF rep])
  obtain st where st: "slot_put (fs_descriptors s) (v_contents t) n (Some None) = Some st" "vec_rep sz t st (ds[n := None])"
    using slot_put_rep [OF rep n(1), of None] by blast
  have "fdt_close env (int n) t s = Some (0, s'\<lparr>fs_descriptors := st\<rparr>)"
    using n cnt vec_rep_get [OF rep n(1)] close st(1) file_table_close_keeps [OF close] by (simp add: fdt_close_def)
  moreover have "takeWhile (\<lambda>d. d \<noteq> None) (ds[n := None]) = take n (ds[n := None])"
    using n by (intro takeWhile_eq_take_P_nth) (auto simp: nth_list_update)
  then have first: "first_null (ds[n := None]) = n" using n(1) by (simp add: first_null_def)
  have "None \<in> set (ds[n := None])" using n(1) by (simp add: set_update_memI)
  from fdt_try_insert_free [of sz t "s'\<lparr>fs_descriptors := st\<rparr>" "ds[n := None]" env d] this st(2) len first
  obtain st2 where st2: "fdt_try_insert env d t (s'\<lparr>fs_descriptors := st\<rparr>) = Some (int n, t, s'\<lparr>fs_descriptors := st2\<rparr>)"
      "vec_rep sz t st2 (ds[n := Some d])" by auto
  have "slot_get st (v_contents t) m = Some (Some d)" using vec_rep_get [OF st(2), of m] m by simp
  then have "fdt_dup env (int m) t (s'\<lparr>fs_descriptors := st\<rparr>) = Some (int n, t, s'\<lparr>fs_descriptors := st2\<rparr>)"
    using m cnt st2(1) by (simp add: fdt_dup_def)
  ultimately show ?thesis using st2(2) by blast
qed

section \<open>Descriptions\<close>

text \<open>
  A description checks the mode and the size before it reaches the device: a write-only one cannot
  be read and no read is larger than \<open>ssize_t\<close> allows (the error is \<open>-EINVAL\<close> and nothing happens);
  otherwise \<open>/dev/zero\<close> fills exactly the requested bytes, \<open>/dev/null\<close> none, and no byte behind
  them changes.
\<close>

lemma fdn_read_checked:
  fixes d :: 'd
  assumes "unat n \<le> length buf" and "cls \<in> {DevNullFile, DevZeroFile}" and "fdn_class fdn = cls"
  shows "\<exists>r buf' d'. fdn_read (\<lambda>c. if c = DevZeroFile then devzero_read else devnull_read) fdn buf n d
        = Some (r, buf', d')
      \<and> (fdn_mode fdn = ModeWrite \<or> ssize_max < n \<longrightarrow> r = - 2 \<and> buf' = buf)
      \<and> (fdn_mode fdn \<noteq> ModeWrite \<and> n \<le> ssize_max \<longrightarrow>
           r = (if cls = DevZeroFile then int (unat n) else 0) \<and> drop (nat r) buf' = drop (nat r) buf)"
proof (cases "fdn_mode fdn = ModeWrite \<or> ssize_max < n")
  case True
  then show ?thesis by (auto simp: fdn_read_def)
next
  case False
  then have n: "n \<le> ssize_max" by (simp add: linorder_not_less)
  from devzero.read_bytes [OF n assms(1), of d] sint_ssize [OF n]
  show ?thesis
    using False assms(2,3) by (auto simp: fdn_read_def devnull_read_def devzero_read_def split: bind_splits)
qed

lemma fdn_write_checked:
  assumes "fdn_class fdn \<in> {DevNullFile, DevZeroFile}"
  shows "\<exists>r d'. fdn_write (\<lambda>c. if c = DevZeroFile then devzero_write else devnull_write) fdn buf n d = Some (r, d')
      \<and> r = (if fdn_mode fdn = ModeRead \<or> ssize_max < n then - 2 else int (unat n))"
  using assms sint_ssize [of n]
  by (auto simp: fdn_write_def devnull_write_def devzero_write_def)

section \<open>A concrete table\<close>

text \<open>A table with descriptor 0 on \<open>/dev/zero\<close> and a free slot, in a heap that can free nothing.\<close>

definition example_env :: "unit fs_env" where
  "example_env = \<lparr>env_allocate = \<lambda>n a. Some (no_allocation, a), env_free = \<lambda>al a. Some (16, a),
     env_sizeof_file = \<lambda>c. 4\<rparr>"

definition example_description :: file_description where
  "example_description = file_description_new 12288 DevZeroFile ModeRead"

definition example_fs :: "unit fs" where
  "example_fs = \<lparr>
     fs_files = \<lparr>v_count = 1, v_capacity = 128, v_contents = 4096\<rparr>,
     fs_descriptions = Map.empty(4096 \<mapsto> Some example_description # replicate 7 None),
     fs_descriptors = Map.empty(8192 \<mapsto> [Some (Some (4096, 0)), Some None]),
     fs_alloc = ()\<rparr>"

definition example_table :: fd_table where
  "example_table = \<lparr>v_count = 2, v_capacity = 8, v_contents = 8192\<rparr>"

lemma example_table_rep: "vec_rep 4 example_table (fs_descriptors example_fs) [Some (4096, 0), None]"
  by (simp add: vec_rep_def example_table_def example_fs_def)

theorem fdt_try_insert_lowest_witness:
  "\<exists>s'. fdt_try_insert example_env (4096, 0) example_table example_fs = Some (1, example_table, s')"
proof -
  obtain i st where r: "fdt_try_insert example_env (4096, 0) example_table example_fs
      = Some (int i, example_table, example_fs\<lparr>fs_descriptors := st\<rparr>)" "i < 2"
      "[Some (4096, 0), None] ! i = (None :: fdn_ptr option)"
    using fdt_try_insert_lowest [OF example_table_rep, of example_env "(4096, 0)"] by auto
  then have "i = 1" by (cases i) auto
  then show ?thesis using r(1) by simp
qed

end
