(* ===== verification/Timer.thy ===== *)
theory Timer
  imports Prelude
begin

unbundle bit_operations_syntax

text \<open>
  The system timer of the BCM2835: kernel/device/bcm2835/timer.hpp and timer.cpp. The registers are
  words of memory, except the counter \<open>lower_bits\<close>, which the hardware advances: its n-th reading
  is \<open>clock n\<close>, and the state counts the readings. Memory barriers have no effect here. A panic
  is \<open>None\<close>.
\<close>

section \<open>Model\<close>

definition TIMER_HZ :: u32 where "TIMER_HZ = 1000000"

definition SYS_HZ :: u32 where "SYS_HZ = 8"

definition SYS_HZ_BITS :: nat where "SYS_HZ_BITS = 3"

definition FALLBACK_SYS_HZ_SCALER :: u32 where "FALLBACK_SYS_HZ_SCALER = 32"

definition FALLBACK_SYS_HZ_SCALER_BITS :: nat where "FALLBACK_SYS_HZ_SCALER_BITS = 5"

record system_timer =
  st_control :: u32
  st_compare1 :: u32
  st_compare3 :: u32
  st_clock :: "nat \<Rightarrow> u32"
  st_readings :: nat
  jiffies_since_boot :: u32
  timer_counter_match :: u32

definition read_lower_bits :: "system_timer \<Rightarrow> u32 \<times> system_timer" where
  "read_lower_bits t = (st_clock t (st_readings t), t\<lparr>st_readings := st_readings t + 1\<rparr>)"

definition clear_match :: "system_timer \<Rightarrow> system_timer" where
  "clear_match t = t\<lparr>st_control := st_control t OR push_bit 1 1\<rparr>"

definition timer_init :: "system_timer \<Rightarrow> system_timer" where
  "timer_init t =
     (let t = t\<lparr>timer_counter_match := drop_bit SYS_HZ_BITS TIMER_HZ\<rparr>;
          (now, t) = read_lower_bits t;
          t = t\<lparr>st_compare1 := now + timer_counter_match t\<rparr>;
          (now, t) = read_lower_bits t;
          t = t\<lparr>st_compare3 := now + push_bit FALLBACK_SYS_HZ_SCALER_BITS (timer_counter_match t)\<rparr>;
          t = clear_match t
      in t\<lparr>jiffies_since_boot := 0\<rparr>)"

partial_function (option) reinit_loop :: "system_timer \<Rightarrow> system_timer option" where
  "reinit_loop t =
     (let (now, t) = read_lower_bits t
      in if st_compare1 t < now
         then reinit_loop (t\<lparr>st_compare1 := st_compare1 t + timer_counter_match t\<rparr>)
         else Some t)"

declare reinit_loop.simps [code]

definition timer_reinit :: "system_timer \<Rightarrow> system_timer option" where
  "timer_reinit t = do {
     t \<leftarrow> reinit_loop t;
     let (now, t) = read_lower_bits t;
     let t = t\<lparr>st_compare3 := now + push_bit FALLBACK_SYS_HZ_SCALER_BITS (timer_counter_match t)\<rparr>;
     Some (clear_match t)
   }"

definition jiffies_since_last_match :: "system_timer \<Rightarrow> u32 \<times> system_timer" where
  "jiffies_since_last_match t =
     (let (now, t) = read_lower_bits t
      in (if st_compare3 t < now then FALLBACK_SYS_HZ_SCALER else 1, t))"

definition timer_matched :: "system_timer \<Rightarrow> bool" where
  "timer_matched t \<longleftrightarrow> 0 < st_control t AND 3"

definition timer_handle_irq :: "system_timer \<Rightarrow> system_timer option" where
  "timer_handle_irq t =
     (if \<not> timer_matched t then None
      else do {
        let (jif_diff, t) = jiffies_since_last_match t;
        t \<leftarrow> timer_reinit t;
        Some (t\<lparr>jiffies_since_boot := jiffies_since_boot t + jif_diff\<rparr>)
      })"

definition jiffies :: "system_timer \<Rightarrow> u32" where
  "jiffies t = jiffies_since_boot t"

section \<open>Programming the next interrupt\<close>

lemma counter_match_value: "timer_counter_match (timer_init t) = 125000"
  by (simp add: timer_init_def read_lower_bits_def clear_match_def Let_def TIMER_HZ_def SYS_HZ_BITS_def drop_bit_eq_div)

text \<open>
  While every reading stays below \<open>B\<close> and a period more does not wrap, the loop of \<open>reinit\<close> ends:
  it adds whole periods to \<open>compare1\<close> until the last reading is reached, and overshoots by at most
  one period.
\<close>

lemma reinit_loop_ends:
  assumes m: "0 < timer_counter_match t"
    and clock: "\<And>n. unat (st_clock t n) \<le> B"
    and room: "B + unat (timer_counter_match t) < 2 ^ 32"
  shows "\<exists>k r c. reinit_loop t = Some (t\<lparr>st_compare1 := c, st_readings := r + 1\<rparr>)
     \<and> st_readings t \<le> r \<and> unat c = unat (st_compare1 t) + k * unat (timer_counter_match t)
     \<and> st_clock t r \<le> c \<and> (k = 0 \<or> unat c < B + unat (timer_counter_match t))"
  using assms
proof (induction "B - unat (st_compare1 t)" arbitrary: t rule: less_induct)
  case less
  let ?now = "st_clock t (st_readings t)"
  let ?m = "unat (timer_counter_match t)"
  have mpos: "0 < ?m" using less.prems(1) by (simp add: unat_gt_0)
  show ?case
  proof (cases "st_compare1 t < ?now")
    case True
    let ?t = "t\<lparr>st_readings := st_readings t + 1, st_compare1 := st_compare1 t + timer_counter_match t\<rparr>"
    have lt: "unat (st_compare1 t) < B"
      using True less.prems(2) [of "st_readings t"] by (simp add: word_less_nat_alt)
    have c1: "unat (st_compare1 t + timer_counter_match t) = unat (st_compare1 t) + ?m"
      using lt less.prems(3) by (intro unat_add_lt) simp
    have step: "reinit_loop t = reinit_loop ?t"
      by (subst reinit_loop.simps) (simp add: read_lower_bits_def True)
    have "B - unat (st_compare1 ?t) < B - unat (st_compare1 t)" using lt c1 mpos by simp
    from less.hyps [OF this] less.prems
    have "\<exists>k r c. reinit_loop ?t = Some (?t\<lparr>st_compare1 := c, st_readings := r + 1\<rparr>)
        \<and> st_readings ?t \<le> r \<and> unat c = unat (st_compare1 ?t) + k * ?m
        \<and> st_clock t r \<le> c \<and> (k = 0 \<or> unat c < B + ?m)" by simp
    then obtain k r c where r: "reinit_loop ?t = Some (?t\<lparr>st_compare1 := c, st_readings := r + 1\<rparr>)"
        "st_readings ?t \<le> r" "unat c = unat (st_compare1 ?t) + k * ?m" "st_clock t r \<le> c"
        "k = 0 \<or> unat c < B + ?m" by (elim exE conjE) (rule that)
    have "unat c < B + ?m" using r(3,5) c1 lt by auto
    then show ?thesis using step r c1
      by (intro exI [of _ "Suc k"] exI [of _ r] exI [of _ c]) simp
  next
    case False
    then have "reinit_loop t = Some (t\<lparr>st_compare1 := st_compare1 t, st_readings := st_readings t + 1\<rparr>)"
      by (subst reinit_loop.simps) (simp add: read_lower_bits_def)
    then show ?thesis using False
      by (intro exI [of _ 0] exI [of _ "st_readings t"] exI [of _ "st_compare1 t"]) simp
  qed
qed

lemma reinit_loop_keeps:
  assumes "reinit_loop t = Some u"
  shows "timer_counter_match u = timer_counter_match t"
proof (rule reinit_loop.raw_induct [OF _ assms, of "\<lambda>t u. timer_counter_match u = timer_counter_match t"])
  fix f :: "system_timer \<Rightarrow> system_timer option" and t u
  assume "\<And>t u. f t = Some u \<Longrightarrow> timer_counter_match u = timer_counter_match t"
    and "(let (now, t) = read_lower_bits t
      in if st_compare1 t < now then f (t\<lparr>st_compare1 := st_compare1 t + timer_counter_match t\<rparr>)
         else Some t) = Some u"
  then show "timer_counter_match u = timer_counter_match t"
    by (fastforce simp: read_lower_bits_def split: if_splits)
qed

section \<open>Handling the interrupt\<close>

lemma timer_handle_irq_ok:
  assumes "timer_matched t" and "0 < timer_counter_match t"
    and "\<And>n. unat (st_clock t n) \<le> B" and "B + unat (timer_counter_match t) < 2 ^ 32"
  shows "\<exists>t' k r. timer_handle_irq t = Some t'
     \<and> jiffies t' = jiffies t + (if st_compare3 t < st_clock t (st_readings t) then 32 else 1)
     \<and> unat (st_compare1 t') = unat (st_compare1 t) + k * unat (timer_counter_match t)
     \<and> st_readings t < r \<and> st_clock t r \<le> st_compare1 t'
     \<and> (k = 0 \<or> unat (st_compare1 t') < B + unat (timer_counter_match t))
     \<and> st_compare3 t' = st_clock t (r + 1) + 32 * timer_counter_match t
     \<and> bit (st_control t') 1"
proof -
  let ?u = "t\<lparr>st_readings := st_readings t + 1\<rparr>"
  have p: "0 < timer_counter_match ?u" "\<And>n. unat (st_clock ?u n) \<le> B"
      "B + unat (timer_counter_match ?u) < 2 ^ 32" using assms(2-4) by simp_all
  obtain k r c where r: "reinit_loop ?u = Some (?u\<lparr>st_compare1 := c, st_readings := r + 1\<rparr>)"
      "st_readings ?u \<le> r" "unat c = unat (st_compare1 ?u) + k * unat (timer_counter_match ?u)"
      "st_clock ?u r \<le> c" "k = 0 \<or> unat c < B + unat (timer_counter_match ?u)"
    using reinit_loop_ends [OF p] by (elim exE conjE) (rule that)
  let ?t' = "?u\<lparr>st_compare1 := c, st_readings := r + 2,
      st_compare3 := st_clock t (r + 1) + 32 * timer_counter_match t,
      st_control := st_control t OR 2,
      jiffies_since_boot := jiffies t + (if st_compare3 t < st_clock t (st_readings t) then 32 else 1)\<rparr>"
  have "timer_handle_irq t = Some ?t'"
    using r(1) assms(1)
    by (simp add: timer_handle_irq_def jiffies_since_last_match_def read_lower_bits_def timer_reinit_def
      clear_match_def jiffies_def FALLBACK_SYS_HZ_SCALER_def FALLBACK_SYS_HZ_SCALER_BITS_def push_bit_eq_mult)
  moreover have "bit (2 :: u32) 1" by (simp add: bit_simps)
  ultimately show ?thesis using r(2-5)
    by (intro exI [of _ ?t'] exI [of _ k] exI [of _ r]) (simp add: jiffies_def bit_or_iff)
qed

text \<open>
  C27. Handling a timer interrupt, with the counter far enough from its wrap: the loop of \<open>reinit\<close> ends,
  the jiffies grow by 1, or by 32 when the fallback period had passed, the next match is a whole number
  of periods after the old one and not before a counter value read on the way, so the timer fires again,
  and the fallback match is 32 periods after the last reading.
\<close>

theorem timer_handle_irq_rearms:
  assumes "timer_matched t" and "0 < timer_counter_match t"
    and "\<And>n. unat (st_clock t n) \<le> B" and "B + unat (timer_counter_match t) < 2 ^ 32"
  shows "\<exists>t' k r. timer_handle_irq t = Some t'
     \<and> jiffies t' = jiffies t + (if st_compare3 t < st_clock t (st_readings t) then 32 else 1)
     \<and> unat (st_compare1 t') = unat (st_compare1 t) + k * unat (timer_counter_match t)
     \<and> st_readings t < r \<and> st_clock t r \<le> st_compare1 t'
     \<and> (k = 0 \<or> unat (st_compare1 t') < B + unat (timer_counter_match t))
     \<and> st_compare3 t' = st_clock t (r + 1) + 32 * timer_counter_match t
     \<and> bit (st_control t') 1"
  using assms by (rule timer_handle_irq_ok)

text \<open>
  The fallback match does not help the handler: match 3 is bit 3 of the control register, but
  \<open>matched\<close> tests bits 0 and 1, so an interrupt with only match 3 set panics.
\<close>

lemma timer_fallback_panics:
  "timer_handle_irq (t\<lparr>st_control := push_bit 3 1\<rparr>) = None"
  by (simp add: timer_handle_irq_def timer_matched_def)

text \<open>
  The comparison with the fallback match forgets the wrap of the counter: when it was set less than
  32 periods before the wrap, it is below every later counter value up to the wrap, and each interrupt
  there counts 32 jiffies.
\<close>

lemma timer_wrap_overcounts:
  assumes "timer_reinit t = Some t'" and "st_clock t' (st_readings t' - 1) = c"
    and "2 ^ 32 \<le> unat c + 32 * unat (timer_counter_match t)" and "32 * unat (timer_counter_match t) < 2 ^ 32"
    and "c \<le> st_clock t' (st_readings t')"
  shows "fst (jiffies_since_last_match t') = 32"
proof -
  obtain u where u: "reinit_loop t = Some u" using assms(1) by (auto simp: timer_reinit_def split: bind_splits)
  have keep: "timer_counter_match u = timer_counter_match t" by (rule reinit_loop_keeps [OF u])
  let ?m = "32 * timer_counter_match t"
  have t': "st_compare3 t' = c + ?m"
    using assms(1,2) u keep
    by (auto simp: timer_reinit_def read_lower_bits_def clear_match_def FALLBACK_SYS_HZ_SCALER_BITS_def push_bit_eq_mult)
  have m: "unat ?m = 32 * unat (timer_counter_match t)"
    using assms(4) by (subst unat_mult_lem [THEN iffD1]) simp_all
  have "st_compare3 t' < c"
    unfolding t' using m assms(3) assms(4) unat_lt_exp [of c]
    by (simp add: word_less_nat_alt unat_word_ariths le_mod_geq)
  then have "st_compare3 t' < st_clock t' (st_readings t')" using assms(5) by simp
  then show ?thesis
    by (simp add: jiffies_since_last_match_def read_lower_bits_def FALLBACK_SYS_HZ_SCALER_def)
qed

section \<open>A concrete timer\<close>

definition example_timer :: system_timer where
  "example_timer = timer_init \<lparr>st_control = 2, st_compare1 = 0, st_compare3 = 0,
     st_clock = \<lambda>n. if n < 3 then 100 else 200000, st_readings = 0, jiffies_since_boot = 7, timer_counter_match = 0\<rparr>"

lemma example_timer_facts:
  "timer_matched example_timer" "unat (st_clock example_timer n) \<le> 1000000"
  "timer_counter_match example_timer = 125000" "jiffies example_timer = 0"
  "\<not> st_compare3 example_timer < st_clock example_timer (st_readings example_timer)"
  by (simp_all add: example_timer_def timer_matched_def timer_init_def read_lower_bits_def clear_match_def Let_def
    jiffies_def FALLBACK_SYS_HZ_SCALER_BITS_def TIMER_HZ_def SYS_HZ_BITS_def drop_bit_eq_div)

theorem timer_handle_irq_rearms_witness:
  "\<exists>t'. timer_handle_irq example_timer = Some t' \<and> jiffies t' = 1 \<and> bit (st_control t') 1"
  using timer_handle_irq_rearms [of example_timer 1000000] example_timer_facts by auto

text \<open>A timer 67,296 ticks before the counter wraps.\<close>

definition late_timer :: system_timer where
  "late_timer = \<lparr>st_control = 2, st_compare1 = 4294950000, st_compare3 = 0,
     st_clock = \<lambda>n. 4294900000, st_readings = 0, jiffies_since_boot = 0, timer_counter_match = 125000\<rparr>"

end
