(* ===== verification/Formatting.thy ===== *)
theory Formatting
  imports C_Strings Prelude
begin

text \<open>
  Formatted printing, pine/print.hpp and pine/print.cpp: the \<open>printf\<close>-like formatter \<open>vfnprintf\<close> over any
  function that takes the pieces of text, its use with a buffer (\<open>vsbufprintf\<close>), and printing with a
  \<open>Printer\<close>.

  A variadic argument is a string or a 32-bit word (\<open>int\<close>, \<open>unsigned\<close>, \<open>long\<close>, \<open>size\_t\<close> and pointers
  all have 32 bits on the target). Taking an argument of the other kind, or more arguments than there
  are, is undefined and \<open>None\<close>. What the formatter writes to is a state that is passed along; the
  format string is consumed from the front, and reading behind its end gives the NUL that
  \<open>StringView\<close> returns there.
\<close>

section \<open>vfnprintf\<close>

datatype flag_modifiers = FlagNone | AlternativeForm

datatype arg_modifiers = ArgNone | ArgLong | ArgSizeT

datatype va_arg = VaString "char list" | VaWord u32

fun va_string :: "va_arg list \<Rightarrow> (char list \<times> va_arg list) option" where
  "va_string (VaString s # rest) = Some (s, rest)"
| "va_string _ = None"

fun va_word :: "va_arg list \<Rightarrow> (u32 \<times> va_arg list) option" where
  "va_word (VaWord w # rest) = Some (w, rest)"
| "va_word _ = None"

definition peek :: "char list \<Rightarrow> char" where
  "peek fmt = (case fmt of [] \<Rightarrow> NUL | c # _ \<Rightarrow> c)"

definition zeroed :: "nat \<Rightarrow> char list" where "zeroed bufsize = replicate bufsize NUL"

definition characters10 :: "cint \<Rightarrow> nat" where "characters10 ty = nat (lim_characters10 (limits ty))"

definition digits16 :: "cint \<Rightarrow> nat" where "digits16 ty = nat (lim_digits16 (limits ty))"

definition unsigned_type :: "arg_modifiers \<Rightarrow> cint" where
  "unsigned_type m = (case m of ArgLong \<Rightarrow> CULong | ArgSizeT \<Rightarrow> CULong | ArgNone \<Rightarrow> CUInt)"

definition signed_type :: "arg_modifiers \<Rightarrow> cint" where
  "signed_type m = (case m of ArgLong \<Rightarrow> CLong | ArgSizeT \<Rightarrow> CLong | ArgNone \<Rightarrow> CInt)"

text \<open>The text of one conversion; \<open>Some None\<close> is an unknown conversion, where \<open>vfnprintf\<close> gives up.\<close>

definition convert ::
    "flag_modifiers \<Rightarrow> arg_modifiers \<Rightarrow> char \<Rightarrow> va_arg list \<Rightarrow> (char list \<times> va_arg list) option option" where
  "convert flag m type_ch args =
     (if type_ch = CHR ''s'' then do { (s, args) \<leftarrow> va_string args; Some (Some (s, args)) }
      else if type_ch = CHR ''%'' then Some (Some ([CHR ''%'', NUL], args))
      else if type_ch = CHR ''c'' then do {
        (w, args) \<leftarrow> va_word args;
        Some (Some ([char_of (unat (take_bit 8 w)), NUL], args))
      }
      else if type_ch = CHR ''u'' then do {
        let bufsize = characters10 CULong + 1;
        (w, args) \<leftarrow> va_word args;
        digits \<leftarrow> to_strbuf (unsigned_type m) (zeroed bufsize) 0 bufsize (uint w);
        Some (Some (digits, args))
      }
      else if type_ch = CHR ''d'' then do {
        let bufsize = characters10 CLong + 1;
        (w, args) \<leftarrow> va_word args;
        digits \<leftarrow> to_strbuf (signed_type m) (zeroed bufsize) 0 bufsize (sint w);
        Some (Some (digits, args))
      }
      else if type_ch = CHR ''x'' then do {
        let bufsize = digits16 CULong + 3;
        let (hex, start, hex_bufsize) =
          (if flag = AlternativeForm then ((zeroed bufsize)[0 := CHR ''0'', 1 := CHR ''x''], 2, bufsize - 2)
           else (zeroed bufsize, 0, bufsize));
        (w, args) \<leftarrow> va_word args;
        hex \<leftarrow> to_strbuf_hex (unsigned_type m) hex start hex_bufsize (unat w) Lower;
        Some (Some (hex, args))
      }
      else if type_ch = CHR ''p'' then do {
        (w, args) \<leftarrow> va_word args;
        let bufsize = digits16 CULong + 3;
        let hex = (zeroed bufsize)[0 := CHR ''0'', 1 := CHR ''x''];
        hex \<leftarrow> to_strbuf_hex CULong hex 2 (bufsize - 2) (unat w) Lower;
        Some (Some (hex, args))
      }
      else Some None)"

text \<open>The flag and the length modifier after a percent sign, and what follows them.\<close>

definition parse_flag :: "char list \<Rightarrow> flag_modifiers \<times> char list" where
  "parse_flag fmt = (if peek fmt = CHR ''#'' then (AlternativeForm, tl fmt) else (FlagNone, fmt))"

definition parse_modifier :: "char list \<Rightarrow> arg_modifiers \<times> char list" where
  "parse_modifier fmt =
     (if peek fmt = CHR ''l'' then (ArgLong, tl fmt)
      else if peek fmt = CHR ''z'' then (ArgSizeT, tl fmt)
      else (ArgNone, fmt))"

lemma parse_length: "length (tl (snd (parse_modifier (snd (parse_flag fmt))))) \<le> length fmt"
  by (simp add: parse_flag_def parse_modifier_def le_diff_conv)

text \<open>The result of adding a literal character is ignored.\<close>

function vfnprintf_loop ::
    "(char list \<Rightarrow> 's \<Rightarrow> (bool \<times> 's) option) \<Rightarrow> char list \<Rightarrow> va_arg list \<Rightarrow> 's \<Rightarrow> (bool \<times> 's) option" where
  "vfnprintf_loop try_add_string [] args s = Some (True, s)"
| "vfnprintf_loop try_add_string (ch # fmt) args s =
     (if ch \<noteq> CHR ''%'' then
        Option.bind (try_add_string [ch, NUL] s) (\<lambda>(_, s). vfnprintf_loop try_add_string fmt args s)
      else
        Option.bind (convert (fst (parse_flag fmt)) (fst (parse_modifier (snd (parse_flag fmt))))
            (peek (snd (parse_modifier (snd (parse_flag fmt))))) args) (\<lambda>c.
          case c of
            None \<Rightarrow> Some (False, s)
          | Some (str, args) \<Rightarrow> Option.bind (try_add_string str s) (\<lambda>(ok, s).
              if \<not> ok then Some (False, s)
              else vfnprintf_loop try_add_string (tl (snd (parse_modifier (snd (parse_flag fmt))))) args s)))"
  by pat_completeness auto
termination
  by (relation "measure (\<lambda>(f, fmt, args, s). length fmt)") (simp_all add: le_imp_less_Suc parse_length del: length_tl)

definition vfnprintf ::
    "(char list \<Rightarrow> 's \<Rightarrow> (bool \<times> 's) option) \<Rightarrow> char list \<Rightarrow> va_arg list \<Rightarrow> 's \<Rightarrow> (bool \<times> 's) option" where
  "vfnprintf try_add_string fmt rest s = do {
     v \<leftarrow> string_view_of fmt;
     vfnprintf_loop try_add_string (take (sv_length v) (sv_chars v)) rest s
   }"

section \<open>Into a buffer (print.cpp)\<close>

definition try_add_wrapper ::
    "nat \<Rightarrow> char list \<Rightarrow> char list \<times> nat \<Rightarrow> (bool \<times> char list \<times> nat) option" where
  "try_add_wrapper bufsize message = (\<lambda>(buf, buf_pos). do {
     message_size \<leftarrow> strlen message;
     (buf, copied) \<leftarrow> strbufcopy buf buf_pos (bufsize - buf_pos) message;
     Some (copied = message_size, buf, buf_pos + copied)
   })"

definition vsbufprintf :: "char list \<Rightarrow> nat \<Rightarrow> char list \<Rightarrow> va_arg list \<Rightarrow> (nat \<times> char list) option" where
  "vsbufprintf buf bufsize fmt args =
     (if bufsize = 0 then Some (0, buf)
      else do {
        (_, buf, buf_pos) \<leftarrow> vfnprintf (try_add_wrapper bufsize) fmt args (buf, 0);
        Some (buf_pos, buf)
      })"

definition sbufprintf :: "char list \<Rightarrow> nat \<Rightarrow> char list \<Rightarrow> va_arg list \<Rightarrow> (nat \<times> char list) option" where
  "sbufprintf buf bufsize fmt args = vsbufprintf buf bufsize fmt args"

section \<open>Printers\<close>

text \<open>\<open>Printer::print\<close>: what a printer does with a view.\<close>

type_synonym 's printer = "string_view \<Rightarrow> 's \<Rightarrow> 's option"

definition print_with_view :: "'s printer \<Rightarrow> string_view \<Rightarrow> 's \<Rightarrow> 's option" where
  "print_with_view print string = print string"

definition print_with_string :: "'s printer \<Rightarrow> char list \<Rightarrow> 's \<Rightarrow> 's option" where
  "print_with_string print s st = do { v \<leftarrow> string_view_of s; print_with_view print v st }"

definition print_with_int :: "'s printer \<Rightarrow> cint \<Rightarrow> int \<Rightarrow> 's \<Rightarrow> 's option" where
  "print_with_int print ty num st = do {
     let bufsize = characters10 ty + 1;
     buf \<leftarrow> to_strbuf ty (zeroed bufsize) 0 bufsize num;
     print_with_string print buf st
   }"

definition print_with_ptr :: "'s printer \<Rightarrow> ptr \<Rightarrow> 's \<Rightarrow> 's option" where
  "print_with_ptr print p st = do {
     let bufsize = digits16 CULong + 3;
     let buf = (zeroed bufsize)[0 := CHR ''0'', 1 := CHR ''x''];
     buf \<leftarrow> to_strbuf_hex CULong buf 2 bufsize (unat p) Lower;
     print_with_string print buf st
   }"

text \<open>The arguments of the variadic functions, each with its own \<open>print\_with\<close>.\<close>

fun print_each_with :: "('s \<Rightarrow> 's option) list \<Rightarrow> 's \<Rightarrow> 's option" where
  "print_each_with [] st = Some st"
| "print_each_with (p # ps) st = do { st \<leftarrow> p st; print_each_with ps st }"

fun print_each_with_spacing :: "'s printer \<Rightarrow> ('s \<Rightarrow> 's option) list \<Rightarrow> 's \<Rightarrow> 's option" where
  "print_each_with_spacing print [] st = Some st"
| "print_each_with_spacing print [p] st = p st"
| "print_each_with_spacing print (p # q # ps) st = do {
     st \<leftarrow> p st;
     st \<leftarrow> print_with_string print [CHR '' '', NUL] st;
     print_each_with_spacing print (q # ps) st
   }"

section \<open>Truncation\<close>

text \<open>The formatter with a string that never fills up: the text of a format and its arguments.\<close>

definition collect :: "char list \<Rightarrow> char list \<Rightarrow> (bool \<times> char list) option" where
  "collect message out = do { n \<leftarrow> strlen message; Some (True, out @ take n message) }"

lemma collect_eq: "NUL \<in> set message \<Longrightarrow> collect message out = Some (True, out @ cstring message)"
  using takeWhile_eq_take [of "\<lambda>c. c \<noteq> NUL" message] by (simp add: collect_def strlen_eq)

lemma collect_SomeD:
  "collect message out = Some (ok, out') \<Longrightarrow> NUL \<in> set message \<and> ok \<and> out' = out @ cstring message"
  by (cases "NUL \<in> set message") (auto simp: collect_eq, simp add: collect_def strlen_eq)

lemma collect_extends:
  "vfnprintf_loop collect fmt args out = Some (ok, out') \<Longrightarrow> \<exists>zs. out' = out @ zs"
proof (induction collect fmt args out arbitrary: ok out' rule: vfnprintf_loop.induct)
  case (2 ch fmt args out)
  show ?case
  proof (cases "ch \<noteq> CHR ''%''")
    case True
    then obtain out1 where "collect [ch, NUL] out = Some (True, out1)" "out1 = out @ cstring [ch, NUL]"
        "vfnprintf_loop collect fmt args out1 = Some (ok, out')"
      using "2.prems" by (simp add: collect_eq)
    then show ?thesis using "2.hyps"(1) [OF True, of "(True, out1)" True out1] by auto
  next
    case False
    let ?f = "fst (parse_flag fmt)" and ?r = "snd (parse_flag fmt)"
    obtain c where c: "convert ?f (fst (parse_modifier ?r)) (peek (snd (parse_modifier ?r))) args = Some c"
      using "2.prems" False by (auto elim!: bind_eq_SomeE)
    show ?thesis
    proof (cases c)
      case None
      then show ?thesis using "2.prems" False c by simp
    next
      case (Some x)
      obtain str args' where x: "x = (str, args')" by fastforce
      obtain ok1 out1 where o1: "collect str out = Some (ok1, out1)"
        using "2.prems" False c Some x by (auto elim!: bind_eq_SomeE)
      then have "ok1" "out1 = out @ cstring str" by (auto dest: collect_SomeD)
      then show ?thesis
        using "2.prems" "2.hyps"(2) [OF False c Some x [symmetric] o1, of ok1 out1] False c Some x o1 by auto
    qed
  qed
qed simp

text \<open>
  A function that takes every piece of the text makes \<open>vfnprintf\<close> write what \<open>collect\<close> collects. It only
  has to take the pieces of this text.
\<close>

lemma vfnprintf_loop_sim_within:
  assumes "vfnprintf_loop collect fmt args out = Some (ok, out')" and "R out s"
    and "\<And>str out s zs. NUL \<in> set str \<Longrightarrow> R out s \<Longrightarrow> out' = out @ cstring str @ zs \<Longrightarrow>
      \<exists>s'. f str s = Some (True, s') \<and> R (out @ cstring str) s'"
  shows "\<exists>s'. vfnprintf_loop f fmt args s = Some (ok, s') \<and> R out' s'"
  using assms
proof (induction collect fmt args out arbitrary: ok s rule: vfnprintf_loop.induct)
  case (1 args out)
  then show ?case by auto
next
  case (2 ch fmt args out)
  show ?case
  proof (cases "ch \<noteq> CHR ''%''")
    case True
    obtain out1 where out1: "collect [ch, NUL] out = Some (True, out1)" "out1 = out @ cstring [ch, NUL]"
        "vfnprintf_loop collect fmt args out1 = Some (ok, out')"
      using True "2.prems"(1) by (simp add: collect_eq)
    obtain zs where "out' = out1 @ zs" using collect_extends [OF out1(3)] by blast
    then have "out' = out @ cstring [ch, NUL] @ zs" using out1(2) by simp
    then obtain s1 where s1: "f [ch, NUL] s = Some (True, s1)" "R out1 s1"
      using "2.prems"(3) [of "[ch, NUL]" out s zs] "2.prems"(2) out1(2) by auto
    show ?thesis using "2.hyps"(1) [OF True out1(1) refl out1(3) s1(2) "2.prems"(3)] True s1(1) by simp
  next
    case False
    let ?f = "fst (parse_flag fmt)" and ?r = "snd (parse_flag fmt)"
    obtain c where c: "convert ?f (fst (parse_modifier ?r)) (peek (snd (parse_modifier ?r))) args = Some c"
      using "2.prems"(1) False by (auto elim!: bind_eq_SomeE)
    show ?thesis
    proof (cases c)
      case None
      then show ?thesis using "2.prems" False c by auto
    next
      case (Some x)
      obtain str args' where x: "x = (str, args')" by fastforce
      obtain ok1 out1 where o1: "collect str out = Some (ok1, out1)"
        using "2.prems"(1) False c Some x by (auto elim!: bind_eq_SomeE)
      then have str: "NUL \<in> set str" "ok1" "out1 = out @ cstring str" by (auto dest: collect_SomeD)
      have rest: "vfnprintf_loop collect (tl (snd (parse_modifier ?r))) args' out1 = Some (ok, out')"
        using "2.prems"(1) False c Some x o1 str(2) by simp
      obtain zs where "out' = out1 @ zs" using collect_extends [OF rest] by blast
      then have "out' = out @ cstring str @ zs" using str(3) by simp
      then obtain s1 where s1: "f str s = Some (True, s1)" "R out1 s1"
        using "2.prems"(3) [OF str(1) "2.prems"(2)] str(3) by auto
      have "\<not> \<not> ok1" using str(2) by simp
      from "2.hyps"(2) [OF False c Some x [symmetric] o1 refl this rest s1(2) "2.prems"(3)]
      show ?thesis using False c Some x s1(1) by simp
    qed
  qed
qed

lemma vfnprintf_sim_within:
  assumes "vfnprintf collect fmt args [] = Some (ok, out')" and "R [] s"
    and "\<And>str out s zs. NUL \<in> set str \<Longrightarrow> R out s \<Longrightarrow> out' = out @ cstring str @ zs \<Longrightarrow>
      \<exists>s'. f str s = Some (True, s') \<and> R (out @ cstring str) s'"
  shows "\<exists>s'. vfnprintf f fmt args s = Some (ok, s') \<and> R out' s'"
  using assms(1) vfnprintf_loop_sim_within [OF _ assms(2,3)]
  by (auto simp: vfnprintf_def elim!: bind_eq_SomeE)

lemma vfnprintf_sim:
  assumes "vfnprintf collect fmt args [] = Some (ok, out)" and "R [] s"
    and "\<And>str out s. NUL \<in> set str \<Longrightarrow> R out s \<Longrightarrow> \<exists>s'. f str s = Some (True, s') \<and> R (out @ cstring str) s'"
  shows "\<exists>s'. vfnprintf f fmt args s = Some (ok, s') \<and> R out s'"
  using vfnprintf_sim_within [OF assms(1), of R s f] assms(2,3) by blast

definition holds_text :: "char list \<Rightarrow> nat \<Rightarrow> char list \<Rightarrow> char list \<times> nat \<Rightarrow> bool" where
  "holds_text buf0 bufsize out = (\<lambda>(buf, buf_pos). buf_pos = length (take (bufsize - 1) out) \<and>
     (buf = overwrite buf0 0 (take (bufsize - 1) out @ [NUL]) \<or> (out = [] \<and> buf = buf0)))"

lemma overwrite_after_nul:
  assumes "length (xs @ ys @ [NUL]) \<le> length buf"
  shows "overwrite (overwrite buf 0 (xs @ [NUL])) (length xs) (ys @ [NUL]) = overwrite buf 0 (xs @ ys @ [NUL])"
  using assms by (simp add: overwrite_def) (cases ys; simp add: add.commute)

lemma strbufcopy_eq:
  "NUL \<in> set from \<Longrightarrow> 0 < bufsize \<Longrightarrow> off + bufsize \<le> length buf \<Longrightarrow>
    strbufcopy buf off bufsize from = Some (overwrite buf off (take (bufsize - 1) (cstring from) @ [NUL]),
      length (take (bufsize - 1) (cstring from)))"
  using strbufcopy_loop_eq [of "from" 0 bufsize off buf] by (simp add: strbufcopy_def Let_def)

lemma try_add_ok:
  assumes rep: "holds_text buf0 bufsize out (buf, pos)" and room: "0 < bufsize" "bufsize \<le> length buf0"
    and nul: "NUL \<in> set message"
  shows "\<exists>st. try_add_wrapper bufsize message (buf, pos) = Some (length (out @ cstring message) \<le> bufsize - 1 \<or> cstring message = [], st)
    \<and> holds_text buf0 bufsize (out @ cstring message) st"
proof -
  let ?B = "bufsize - 1" and ?m = "cstring message"
  have pos: "pos = min (length out) ?B" using rep by (auto simp: holds_text_def min.commute)
  have len: "length buf = length buf0" using rep room by (auto simp: holds_text_def)
  have "pos < bufsize" using pos room by auto
  then have copy: "strbufcopy buf pos (bufsize - pos) message
      = Some (overwrite buf pos (take (?B - pos) ?m @ [NUL]), length (take (?B - pos) ?m))"
    using strbufcopy_eq [OF nul, of "bufsize - pos" pos buf] room len by simp
  have take: "take ?B (out @ ?m) = take ?B out @ take (?B - pos) ?m" using pos by (auto simp: min_def)
  have "overwrite buf pos (take (?B - pos) ?m @ [NUL]) = overwrite buf0 0 (take ?B (out @ ?m) @ [NUL])"
  proof (cases "out = [] \<and> buf = buf0")
    case True
    then show ?thesis using pos by simp
  next
    case False
    then have buf: "buf = overwrite buf0 0 (take ?B out @ [NUL])" using rep by (auto simp: holds_text_def)
    have "length (take ?B out @ take (?B - pos) ?m @ [NUL]) \<le> length buf0"
      using room pos by auto
    moreover have "pos = length (take ?B out)" using pos by (simp add: min.commute)
    ultimately show ?thesis unfolding buf take append_assoc by (simp only: overwrite_after_nul)
  qed
  then have "holds_text buf0 bufsize (out @ ?m) (overwrite buf pos (take (?B - pos) ?m @ [NUL]), pos + length (take (?B - pos) ?m))"
    using pos take by (simp add: holds_text_def)
  moreover have "(length (take (?B - pos) ?m) = length ?m) \<longleftrightarrow> (length (out @ ?m) \<le> ?B \<or> ?m = [])"
    using pos by (auto simp: min_def)
  ultimately show ?thesis
    using nul by (simp add: try_add_wrapper_def strlen_eq copy)
qed

lemma holds_text_full:
  assumes "holds_text buf0 bufsize out st" and "bufsize - 1 \<le> length out" and "out \<noteq> []"
  shows "holds_text buf0 bufsize (out @ zs) st"
  using assms by (auto simp: holds_text_def)

lemma truncating_loop:
  assumes "vfnprintf_loop collect fmt args out = Some (ok, whole)" and "holds_text buf0 bufsize out (buf, pos)"
    and "0 < bufsize" and "bufsize \<le> length buf0"
  shows "\<exists>ok' st. vfnprintf_loop (try_add_wrapper bufsize) fmt args (buf, pos) = Some (ok', st)
    \<and> holds_text buf0 bufsize whole st"
  using assms(1,2)
proof (induction collect fmt args out arbitrary: ok whole buf pos rule: vfnprintf_loop.induct)
  case (1 args s)
  then show ?case by auto
next
  case (2 ch fmt args out)
  note room = assms(3,4)
  show ?case
  proof (cases "ch \<noteq> CHR ''%''")
    case True
    obtain out1 where out1: "collect [ch, NUL] out = Some (True, out1)" "out1 = out @ cstring [ch, NUL]"
        "vfnprintf_loop collect fmt args out1 = Some (ok, whole)"
      using True "2.prems"(1) by (simp add: collect_eq)
    obtain b buf1 pos1 where add: "try_add_wrapper bufsize [ch, NUL] (buf, pos) = Some (b, buf1, pos1)"
        "holds_text buf0 bufsize out1 (buf1, pos1)"
      using try_add_ok [OF "2.prems"(2) room, of "[ch, NUL]"] out1(2) by auto
    show ?thesis using "2.hyps"(1) [OF True out1(1) refl out1(3) add(2)] True add(1) by simp
  next
    case False
    let ?f = "fst (parse_flag fmt)" and ?r = "snd (parse_flag fmt)"
    obtain c where c: "convert ?f (fst (parse_modifier ?r)) (peek (snd (parse_modifier ?r))) args = Some c"
      using "2.prems"(1) False by (auto elim!: bind_eq_SomeE)
    show ?thesis
    proof (cases c)
      case None
      then show ?thesis using "2.prems" False c by auto
    next
      case (Some x)
      obtain str args' where x: "x = (str, args')" by fastforce
      obtain ok1 out1 where o1: "collect str out = Some (ok1, out1)"
        using "2.prems"(1) False c Some x by (auto elim!: bind_eq_SomeE)
      then have str: "NUL \<in> set str" "ok1" "out1 = out @ cstring str" by (auto dest: collect_SomeD)
      have rest: "vfnprintf_loop collect (tl (snd (parse_modifier ?r))) args' out1 = Some (ok, whole)"
        using "2.prems"(1) False c Some x o1 str(2) by simp
      obtain buf1 pos1 where add: "try_add_wrapper bufsize str (buf, pos)
          = Some (length out1 \<le> bufsize - 1 \<or> cstring str = [], buf1, pos1)"
          "holds_text buf0 bufsize out1 (buf1, pos1)"
        using try_add_ok [OF "2.prems"(2) room str(1)] str(3) by auto
      show ?thesis
      proof (cases "length out1 \<le> bufsize - 1 \<or> cstring str = []")
        case True
        then show ?thesis
          using "2.hyps"(2) [OF False c Some x [symmetric] o1 _ _ rest add(2)] str(2) False c Some x add(1) by simp
      next
        case full: False
        obtain zs where "whole = out1 @ zs" using collect_extends [OF rest] by blast
        then have "holds_text buf0 bufsize whole (buf1, pos1)"
          using holds_text_full [OF add(2), of zs] full by (cases "out1 = []") auto
        then show ?thesis
          using False c Some x add(1) full by (intro exI [of _ False] exI [of _ "(buf1, pos1)"]) simp
      qed
    qed
  qed
qed

text \<open>
  C34. \<open>vsbufprintf\<close> never writes outside its buffer and truncates: it returns the number of characters of the
  formatted whole that fit, leaves exactly these at the start of the buffer, with a NUL behind them
  unless the text is empty, and changes no byte behind the NUL.
\<close>
theorem vsbufprintf_truncates:
  assumes "vfnprintf collect fmt args [] = Some (ok, whole)" and "0 < bufsize" and "bufsize \<le> length buf"
  shows "\<exists>buf' n. vsbufprintf buf bufsize fmt args = Some (n, buf') \<and> n = min (length whole) (bufsize - 1)
    \<and> length buf' = length buf \<and> take n buf' = take n whole \<and> (whole \<noteq> [] \<longrightarrow> buf' ! n = NUL)
    \<and> (\<forall>i < length buf. n < i \<longrightarrow> buf' ! i = buf ! i)"
proof -
  obtain v where v: "string_view_of fmt = Some v"
    "vfnprintf_loop collect (take (sv_length v) (sv_chars v)) args [] = Some (ok, whole)"
    using assms(1) by (auto simp: vfnprintf_def elim!: bind_eq_SomeE)
  have "holds_text buf bufsize [] (buf, 0)" by (simp add: holds_text_def)
  from truncating_loop [OF v(2) this assms(2,3)] obtain ok' buf' n where
    run: "vfnprintf_loop (try_add_wrapper bufsize) (take (sv_length v) (sv_chars v)) args (buf, 0) = Some (ok', buf', n)"
    and rep: "holds_text buf bufsize whole (buf', n)" by auto
  let ?t = "take (bufsize - 1) whole"
  have n: "n = min (length whole) (bufsize - 1)" using rep by (simp add: holds_text_def)
  have vs: "vsbufprintf buf bufsize fmt args = Some (n, buf')"
    using run v(1) assms(2) by (simp add: vsbufprintf_def vfnprintf_def)
  show ?thesis
  proof (cases "whole = [] \<and> buf' = buf")
    case True
    then show ?thesis using vs n by simp
  next
    case False
    then have buf': "buf' = overwrite buf 0 (?t @ [NUL])" using rep by (auto simp: holds_text_def)
    have fits: "0 + length (?t @ [NUL]) \<le> length buf" using assms(2,3) by simp
    have at: "buf' ! i = (if i < length (?t @ [NUL]) then (?t @ [NUL]) ! i else buf ! i)" if "i < length buf" for i
      using nth_overwrite [OF fits that] buf' by simp
    have len: "length ?t = n" using n by simp
    have "take n buf' = ?t" using fits len by (auto simp: buf' overwrite_def min_def)
    also have "\<dots> = take n whole" using n by (auto simp: min_def)
    finally have "take n buf' = take n whole" .
    moreover have "buf' ! n = NUL" using at [of n] fits len by (simp add: nth_append)
    moreover have "buf' ! i = buf ! i" if "i < length buf" "n < i" for i using at [OF that(1)] len that(2) by simp
    moreover have "length buf' = length buf" unfolding buf' by (rule length_overwrite [OF fits])
    ultimately show ?thesis using vs n by blast
  qed
qed

lemma vsbufprintf_fits:
  assumes "vfnprintf collect fmt args [] = Some (ok, out)" and "length out < bufsize" and "bufsize \<le> length buf"
    and "out \<noteq> []"
  shows "vsbufprintf buf bufsize fmt args = Some (length out, overwrite buf 0 (out @ [NUL]))"
proof -
  obtain v where v: "string_view_of fmt = Some v"
    "vfnprintf_loop collect (take (sv_length v) (sv_chars v)) args [] = Some (ok, out)"
    using assms(1) by (auto simp: vfnprintf_def elim!: bind_eq_SomeE)
  have "holds_text buf bufsize [] (buf, 0)" by (simp add: holds_text_def)
  from truncating_loop [OF v(2) this _ assms(3)] assms(2) obtain ok' buf' n where
    "vfnprintf_loop (try_add_wrapper bufsize) (take (sv_length v) (sv_chars v)) args (buf, 0) = Some (ok', buf', n)"
    "holds_text buf bufsize out (buf', n)" by auto
  then show ?thesis
    using v(1) assms(2,4) by (auto simp: holds_text_def vsbufprintf_def vfnprintf_def)
qed

section \<open>Numbers\<close>

fun hex_digits :: "nat \<Rightarrow> nat \<Rightarrow> char list" where
  "hex_digits 0 n = []"
| "hex_digits (Suc k) n = hex_digits k (n div 16) @
     [if n mod 16 < 10 then char_of (n mod 16 + 48) else char_of (n mod 16 - 10 + 97)]"

lemma length_hex_digits [simp]: "length (hex_digits k n) = k"
  by (induction k arbitrary: n) auto

lemma hex_digits_0: "hex_digits k 0 = replicate k (CHR ''0'')"
proof (induction k)
  case (Suc k)
  have "char_of (48 :: nat) = CHR ''0''" by (simp add: char_of_def bit_Suc_0_iff)
  then show ?case using Suc by (simp add: replicate_append_same)
qed simp

lemma hex_loop_eq:
  "off + k + length xs \<le> length buf \<Longrightarrow>
    hex_loop (overwrite buf off (replicate k (CHR ''0'') @ xs)) off k n Lower
      = Some (overwrite buf off (hex_digits k n @ xs))"
proof (induction k arbitrary: n xs)
  case (Suc k)
  let ?buf = "overwrite buf off (replicate (Suc k) (CHR ''0'') @ xs)"
  show ?case
  proof (cases "n = 0")
    case True
    then show ?thesis by (simp only: hex_loop.simps hex_digits_0) simp
  next
    case False
    have fits: "off + length (replicate (Suc k) (CHR ''0'') @ xs) \<le> length buf" using Suc.prems by simp
    have put: "put ?buf (off + k) c = Some (overwrite buf off (replicate k (CHR ''0'') @ c # xs))" for c
    proof -
      have "off + k < length ?buf" using Suc.prems by (subst length_overwrite [OF fits]) simp
      moreover have "?buf[off + k := c] = overwrite buf off (replicate k (CHR ''0'') @ c # xs)"
        using Suc.prems unfolding overwrite_def replicate_Suc replicate_app_Cons_same [symmetric] append_Cons
        by (simp add: list_update_append replicate_append_same [symmetric] del: replicate_Suc)
      ultimately show ?thesis by (simp add: put_def)
    qed
    have "hex_loop (overwrite buf off (replicate k (CHR ''0'') @ c # xs)) off k (n div 16) Lower
        = Some (overwrite buf off (hex_digits k (n div 16) @ c # xs))" for c
      using Suc.IH [of "c # xs" "n div 16"] Suc.prems by simp
    then show ?thesis using False by (simp add: Let_def put [unfolded replicate_Suc append_Cons])
  qed
qed simp

lemma limits_32:
  "characters10 CULong = 10" "characters10 CLong = 11" "digits16 CULong = 8" "digits16 CUInt = 8"
proof -
  have "log 4294967295 = 9" "log 2147483647 = 9" by (simp_all add: log_def log_loop.simps)
  then show "characters10 CULong = 10" "characters10 CLong = 11" "digits16 CULong = 8" "digits16 CUInt = 8"
    by (simp_all add: characters10_def digits16_def limits_def is_signed_def cint_max_def)
qed

lemma limits_characters10:
  "lim_characters10 (limits (unsigned_type m)) = 10" "lim_characters10 (limits (signed_type m)) = 11"
  "nat (lim_digits16 (limits (unsigned_type m))) = 8"
proof -
  have "log 4294967295 = 9" "log 2147483647 = 9" by (simp_all add: log_def log_loop.simps)
  then show "lim_characters10 (limits (unsigned_type m)) = 10" "lim_characters10 (limits (signed_type m)) = 11"
      "nat (lim_digits16 (limits (unsigned_type m))) = 8"
    by (cases m; simp add: unsigned_type_def signed_type_def limits_def is_signed_def cint_max_def)+
qed

lemma to_strbuf_hex_eq:
  assumes "nat (lim_digits16 (limits ty)) = 8" and "9 \<le> bufsize" and "off + 9 \<le> length buf"
  shows "to_strbuf_hex ty buf off bufsize n Lower = Some (overwrite buf off (hex_digits 8 n @ [NUL]))"
proof -
  let ?zs = "replicate 8 (CHR ''0'')"
  have "put (overwrite buf off ?zs) (off + 8) NUL = Some (overwrite buf off (?zs @ [NUL]))"
  proof -
    have "off + 8 < length (overwrite buf off ?zs)" using assms(3) by (subst length_overwrite) simp_all
    then show ?thesis
      using overwrite_overwrite [of off ?zs "[NUL]" buf] assms(3) by (simp add: put_overwrite)
  qed
  moreover have "memset_loop buf off (CHR ''0'') 8 = Some (overwrite buf off ?zs)"
    using assms(3) by (intro memset_loop_eq) simp
  moreover have "hex_loop (overwrite buf off (?zs @ [NUL])) off 8 n Lower = Some (overwrite buf off (hex_digits 8 n @ [NUL]))"
    using assms(3) by (intro hex_loop_eq) simp
  ultimately show ?thesis using assms(1,2) by (simp add: to_strbuf_hex_def Let_def)
qed

lemma nonul_digit:
  assumes "0 < (x :: nat)" and "x < 256"
  shows "char_of x \<noteq> NUL"
proof
  assume "char_of x = NUL"
  then have "(of_char (char_of x :: char) :: nat) = of_char NUL" by simp
  then show False using assms by simp
qed

lemma decimal_nonul: "NUL \<notin> set (decimal n)"
proof -
  obtain k where k: "log \<bar>n\<bar> = int k" "\<bar>n\<bar> < 10 ^ Suc k" using num_digits [OF abs_ge_zero [of n]] by metis
  have "nat \<bar>n\<bar> < 10 ^ Suc k"
    using k(2) by (simp only: nat_less_iff [OF abs_ge_zero] of_nat_power of_nat_numeral)
  from dec_digits_digit [OF this, of NUL] show ?thesis
    by (auto simp: decimal_def k(1) simp del: dec_digits.simps)
qed

lemma hex_digits_nonul: "NUL \<notin> set (hex_digits k n)"
proof (induction k arbitrary: n)
  case (Suc k)
  have "char_of (n mod 16 + 48) \<noteq> NUL" "char_of (n mod 16 - 10 + 97) \<noteq> NUL"
    using mod_less_divisor [of 16 n] by (intro nonul_digit; linarith)+
  then show ?case using Suc by auto
qed simp

lemma cstring_overwrite:
  "NUL \<notin> set xs \<Longrightarrow> length (xs @ [NUL]) \<le> length buf \<Longrightarrow> cstring (overwrite buf 0 (xs @ [NUL])) = xs"
  by (simp add: overwrite_def)

lemma in_range_word:
  "in_range (unsigned_type m) (uint (w :: u32))" "in_range (signed_type m) (sint (w :: u32))"
proof -
  have "uint w < 4294967296" using uint_bounded [of w] by simp
  then show "in_range (unsigned_type m) (uint w)"
    by (cases m) (simp_all add: unsigned_type_def in_range_def cint_min_def cint_max_def is_signed_def)
  have "- 2147483648 \<le> sint w" "sint w < 2147483648" using sint_greater_eq [of w] sint_less [of w] by simp_all
  then show "in_range (signed_type m) (sint w)"
    by (cases m) (simp_all add: signed_type_def in_range_def cint_min_def cint_max_def is_signed_def)
qed

lemma decimal_fits:
  assumes "in_range ty n" and "ty \<noteq> CBool" and "is_signed ty \<Longrightarrow> n \<noteq> cint_min ty"
    and "lim_characters10 (limits ty) + 1 \<le> int bufsize"
  shows "length (decimal n @ [NUL]) \<le> bufsize"
  using strbuf_room [OF assms] by (auto simp: decimal_def split: if_splits)

lemma print_decimal:
  assumes "in_range ty n" and "ty \<noteq> CBool" and "is_signed ty \<Longrightarrow> n \<noteq> cint_min ty"
    and "lim_characters10 (limits ty) + 1 = int bufsize"
  shows "\<exists>str. to_strbuf ty (zeroed bufsize) 0 bufsize n = Some str \<and> cstring str = decimal n \<and> NUL \<in> set str"
proof -
  have "to_strbuf ty (zeroed bufsize) 0 bufsize n = Some (overwrite (zeroed bufsize) 0 (decimal n @ [NUL]))"
    using assms by (intro to_strbuf_eq) (simp_all add: zeroed_def)
  moreover have "length (decimal n @ [NUL]) \<le> length (zeroed bufsize)"
    using decimal_fits [OF assms(1-3), of bufsize] assms(4) by (simp add: zeroed_def)
  ultimately show ?thesis using cstring_overwrite [OF decimal_nonul] by (auto simp: overwrite_def)
qed

lemma print_hex:
  assumes "length pre + 9 \<le> length buf" and "NUL \<notin> set pre" and "take (length pre) buf = pre"
  shows "cstring (overwrite buf (length pre) (hex_digits 8 n @ [NUL])) = pre @ hex_digits 8 n"
proof -
  have "overwrite buf (length pre) (hex_digits 8 n @ [NUL]) = (pre @ hex_digits 8 n) @ NUL # drop (length pre + 9) buf"
    using assms(3) by (simp add: overwrite_def)
  then show ?thesis using hex_digits_nonul [of 8 n] assms(2) by (simp only:) (rule cstring_append, simp)
qed

lemma convert_signed:
  assumes "sint w \<noteq> - (2 ^ 31)"
  shows "\<exists>str. convert flag m (CHR ''d'') (VaWord w # args) = Some (Some (str, args))
    \<and> cstring str = decimal (sint w) \<and> NUL \<in> set str"
proof -
  have "signed_type m \<noteq> CBool" "cint_min (signed_type m) = - (2 ^ 31)"
    by (cases m; simp add: signed_type_def is_signed_def cint_min_def)+
  then show ?thesis
    using print_decimal [OF in_range_word(2) [of m w], of 12] assms
    by (auto simp: convert_def limits_32 limits_characters10)
qed

lemma convert_hex:
  "\<exists>str. convert flag m (CHR ''x'') (VaWord w # args) = Some (Some (str, args))
      \<and> cstring str = (if flag = AlternativeForm then ''0x'' else []) @ hex_digits 8 (unat w) \<and> NUL \<in> set str"
  "\<exists>str. convert flag m (CHR ''p'') (VaWord w # args) = Some (Some (str, args))
      \<and> cstring str = ''0x'' @ hex_digits 8 (unat w) \<and> NUL \<in> set str"
proof -
  have z: "zeroed 11 = NUL # NUL # replicate 9 NUL" by (simp add: zeroed_def numeral_eq_Suc)
  have ox: "(zeroed 11)[0 := CHR ''0'', 1 := CHR ''x''] = ''0x'' @ replicate 9 NUL" by (simp add: z)
  have "to_strbuf_hex (unsigned_type m) (zeroed 11) 0 11 (unat w) Lower
      = Some (overwrite (zeroed 11) 0 (hex_digits 8 (unat w) @ [NUL]))"
    by (rule to_strbuf_hex_eq) (simp_all add: limits_characters10 zeroed_def)
  moreover have "to_strbuf_hex ty (''0x'' @ replicate 9 NUL) 2 9 (unat w) Lower
      = Some (overwrite (''0x'' @ replicate 9 NUL) 2 (hex_digits 8 (unat w) @ [NUL]))"
    if "nat (lim_digits16 (limits ty)) = 8" for ty
    by (rule to_strbuf_hex_eq) (simp_all add: that)
  moreover have "cstring (overwrite (zeroed 11) 0 (hex_digits 8 (unat w) @ [NUL])) = hex_digits 8 (unat w)"
    using print_hex [of "[]" "zeroed 11" "unat w"] by (simp add: zeroed_def)
  moreover have "cstring (overwrite (''0x'' @ replicate 9 NUL) 2 (hex_digits 8 (unat w) @ [NUL])) = ''0x'' @ hex_digits 8 (unat w)"
    using print_hex [of "''0x''" "''0x'' @ replicate 9 NUL" "unat w"] by (simp add: numeral_2_eq_2)
  moreover have "NUL \<in> set (overwrite buf off (hex_digits 8 (unat w) @ [NUL]))" for buf off by (simp add: overwrite_def)
  moreover have "nat (lim_digits16 (limits CULong)) = 8" using limits_32(3) by (simp add: digits16_def)
  ultimately show "\<exists>str. convert flag m (CHR ''x'') (VaWord w # args) = Some (Some (str, args))
      \<and> cstring str = (if flag = AlternativeForm then ''0x'' else []) @ hex_digits 8 (unat w) \<and> NUL \<in> set str"
    and "\<exists>str. convert flag m (CHR ''p'') (VaWord w # args) = Some (Some (str, args))
      \<and> cstring str = ''0x'' @ hex_digits 8 (unat w) \<and> NUL \<in> set str"
    using limits_characters10(3) [of m]
    by (simp_all add: convert_def limits_32 ox [simplified] Let_def)
qed

text \<open>
  The number conversions of \<open>vfnprintf\<close> print the argument: \<open>u\<close> its unsigned and \<open>d\<close> its signed
  value in decimal, with no more digits than needed (the least \<open>int\<close> is undefined), \<open>x\<close> eight
  hexadecimal digits, with \<open>0x\<close> before them in the alternative form, and \<open>p\<close> an address with \<open>0x\<close> and
  eight digits; each takes one argument.
\<close>
lemma conversions_print:
  "(\<exists>str. convert flag m (CHR ''u'') (VaWord w # args) = Some (Some (str, args)) \<and> cstring str = decimal (uint w))
    \<and> (if sint w = - (2 ^ 31) then convert flag m (CHR ''d'') (VaWord w # args) = None
       else \<exists>str. convert flag m (CHR ''d'') (VaWord w # args) = Some (Some (str, args)) \<and> cstring str = decimal (sint w))
    \<and> (\<exists>str. convert flag m (CHR ''x'') (VaWord w # args) = Some (Some (str, args))
         \<and> cstring str = (if flag = AlternativeForm then ''0x'' else []) @ hex_digits 8 (unat w))
    \<and> (\<exists>str. convert flag m (CHR ''p'') (VaWord w # args) = Some (Some (str, args)) \<and> cstring str = ''0x'' @ hex_digits 8 (unat w))"
proof (intro conjI)
  have ty: "unsigned_type m \<noteq> CBool" "signed_type m \<noteq> CBool" "\<not> is_signed (unsigned_type m)"
      "is_signed (signed_type m)" "cint_min (signed_type m) = - (2 ^ 31)" "cint_max (signed_type m) < 2 ^ 31"
    by (cases m; simp add: unsigned_type_def signed_type_def is_signed_def cint_min_def cint_max_def)+
  show "\<exists>str. convert flag m (CHR ''u'') (VaWord w # args) = Some (Some (str, args)) \<and> cstring str = decimal (uint w)"
    using print_decimal [OF in_range_word(1) [of m w] ty(1), of 11] ty(3)
    by (auto simp: convert_def limits_32 limits_characters10)
  show "if sint w = - (2 ^ 31) then convert flag m (CHR ''d'') (VaWord w # args) = None
       else \<exists>str. convert flag m (CHR ''d'') (VaWord w # args) = Some (Some (str, args)) \<and> cstring str = decimal (sint w)"
  proof (cases "sint w = - (2 ^ 31)")
    case True
    have "to_strbuf (signed_type m) (zeroed 12) 0 12 (- (2 ^ 31)) = None"
      using ty limits_characters10(2) [of m] by (cases m) (simp_all add: to_strbuf_def abs_c_def signed_type_def cint_max_def is_signed_def)
    then show ?thesis using True by (simp add: convert_def limits_32)
  next
    case False
    then show ?thesis
      using print_decimal [OF in_range_word(2) [of m w] ty(2), of 12] ty(5)
      by (auto simp: convert_def limits_32 limits_characters10)
  qed
  show "\<exists>str. convert flag m (CHR ''x'') (VaWord w # args) = Some (Some (str, args))
         \<and> cstring str = (if flag = AlternativeForm then ''0x'' else []) @ hex_digits 8 (unat w)"
    and "\<exists>str. convert flag m (CHR ''p'') (VaWord w # args) = Some (Some (str, args)) \<and> cstring str = ''0x'' @ hex_digits 8 (unat w)"
    using convert_hex by blast+
qed

theorem vsbufprintf_truncates_witness:
  "\<exists>buf'. vsbufprintf ''........'' 6 (''hi %s!'' @ [NUL]) [VaString (''bob'' @ [NUL])] = Some (5, buf')
    \<and> take 5 buf' = ''hi bo'' \<and> buf' ! 5 = NUL"
proof -
  have "vfnprintf collect (''hi %s!'' @ [NUL]) [VaString (''bob'' @ [NUL])] [] = Some (True, ''hi bob!'')"
    by (simp add: vfnprintf_def string_view_of_def strlen_eq collect_eq parse_flag_def parse_modifier_def
        peek_def convert_def)
  from vsbufprintf_truncates [OF this, of 6 "''........''"] obtain buf' n
    where b: "vsbufprintf ''........'' 6 (''hi %s!'' @ [NUL]) [VaString (''bob'' @ [NUL])] = Some (n, buf')"
      "n = min (length ''hi bob!'') (6 - 1)" "take n buf' = take n ''hi bob!''" "buf' ! n = NUL" by auto
  have "n = 5" using b(2) by simp
  then show ?thesis using b(1,3,4) by (intro exI [of _ buf']) simp
qed

end
