(* ===== verification/Uart.thy ===== *)
theory Uart
  imports TwoMath Kfiles
begin

unbundle bit_operations_syntax

text \<open>
  The PL011 UART: kernel/device/pl011/uart.hpp and uart.cpp. Of its registers, the flag register and
  the receive side of the data register are given by the device: their n-th readings are \<open>fr n\<close>
  and \<open>dr n\<close>, and the state counts the readings; the bytes written to the data register are
  collected in order. The other registers are words of memory. Memory barriers and the fixed
  delays have no effect here. A polling loop that never ends, and a panic, are \<open>None\<close>.
\<close>

section \<open>Registers\<close>

record uart =
  uart_cr :: u32
  uart_icr :: u32
  uart_ibrd :: u32
  uart_fbrd :: u32
  uart_lcrh :: u32
  uart_imsc :: u32
  uart_ifls :: u32
  gppud :: u32
  gppudclk0 :: u32
  uart_fr :: "nat \<Rightarrow> u32"
  uart_fr_readings :: nat
  uart_dr :: "nat \<Rightarrow> u32"
  uart_dr_readings :: nat
  uart_sent :: "u32 list"

definition UART_FR_RXFE :: nat where "UART_FR_RXFE = 4"

definition UART_FR_TXFF :: nat where "UART_FR_TXFF = 5"

definition UART_IMSC_RXIM :: nat where "UART_IMSC_RXIM = 4"

definition UART_IMSC_TXIM :: nat where "UART_IMSC_TXIM = 5"

definition read_fr :: "uart \<Rightarrow> u32 \<times> uart" where
  "read_fr u = (uart_fr u (uart_fr_readings u), u\<lparr>uart_fr_readings := uart_fr_readings u + 1\<rparr>)"

definition read_dr :: "uart \<Rightarrow> u32 \<times> uart" where
  "read_dr u = (uart_dr u (uart_dr_readings u), u\<lparr>uart_dr_readings := uart_dr_readings u + 1\<rparr>)"

definition write_dr :: "u32 \<Rightarrow> uart \<Rightarrow> uart" where
  "write_dr v u = u\<lparr>uart_sent := uart_sent u @ [v]\<rparr>"

definition char_u32 :: "char \<Rightarrow> u32" where "char_u32 ch = of_nat (of_char ch)"

definition u32_char :: "u32 \<Rightarrow> char" where "u32_char v = char_of (unat v)"

text \<open>
  The divisor registers: the sources compute them with doubles at compile time; here exactly, which
  gives the same truncated values.
\<close>

definition baud_divisor_register_values :: "u32 \<times> u32" where
  "baud_divisor_register_values =
     (let clock = 3000000; divisor = 16 * 115200;
          integer_value = clock div divisor;
          fractional_value = (clock - integer_value * divisor) * 63 div divisor
      in (integer_value, fractional_value))"

definition uart_reset :: "uart \<Rightarrow> uart" where
  "uart_reset u =
     (let u = u\<lparr>uart_cr := 0\<rparr>;
          u = u\<lparr>gppud := 0\<rparr>;
          u = u\<lparr>gppudclk0 := push_bit 14 1 OR push_bit 15 1\<rparr>;
          u = u\<lparr>gppudclk0 := 0\<rparr>;
          u = u\<lparr>uart_icr := 0x7FF\<rparr>;
          (integer_value, fractional_value) = baud_divisor_register_values;
          u = u\<lparr>uart_ibrd := integer_value\<rparr>;
          u = u\<lparr>uart_fbrd := fractional_value\<rparr>;
          u = u\<lparr>uart_lcrh := push_bit 4 1 OR push_bit 5 1 OR push_bit 6 1\<rparr>;
          u = u\<lparr>uart_imsc := 0\<rparr>;
          u = u\<lparr>uart_ifls := 0\<rparr>
      in u\<lparr>uart_cr := push_bit 0 1 OR push_bit 8 1 OR push_bit 9 1\<rparr>)"

section \<open>Polling\<close>

partial_function (option) poll_full :: "uart \<Rightarrow> uart option" where
  "poll_full u =
     (let (fr, u) = read_fr u
      in if fr AND push_bit UART_FR_TXFF 1 \<noteq> 0 then poll_full u else Some u)"

partial_function (option) poll_empty :: "uart \<Rightarrow> uart option" where
  "poll_empty u =
     (let (fr, u) = read_fr u
      in if fr AND push_bit UART_FR_RXFE 1 \<noteq> 0 then poll_empty u else Some u)"

declare poll_full.simps [code] poll_empty.simps [code]

definition poll_put :: "char \<Rightarrow> uart \<Rightarrow> uart option" where
  "poll_put ch u = do { u \<leftarrow> poll_full u; Some (write_dr (char_u32 ch) u) }"

definition poll_get :: "uart \<Rightarrow> (char \<times> uart) option" where
  "poll_get u = do {
     u \<leftarrow> poll_empty u;
     let (v, u) = read_dr u;
     Some (u32_char v, u)
   }"

text \<open>The two \<open>poll\_write\<close>: up to the terminating zero, and for a number of bytes.\<close>

fun poll_write_string :: "char list \<Rightarrow> uart \<Rightarrow> uart option" where
  "poll_write_string [] u = None"
| "poll_write_string (ch # message) u =
     (if ch = NUL then Some u else do { u \<leftarrow> poll_put ch u; poll_write_string message u })"

fun poll_write_loop :: "char list \<Rightarrow> nat \<Rightarrow> nat \<Rightarrow> uart \<Rightarrow> uart option" where
  "poll_write_loop message i 0 u = Some u"
| "poll_write_loop message i (Suc n) u = do {
     ch \<leftarrow> arr_at message i;
     u \<leftarrow> poll_put ch u;
     poll_write_loop message (i + 1) n u
   }"

definition poll_write :: "char list \<Rightarrow> size_t \<Rightarrow> uart \<Rightarrow> uart option" where
  "poll_write message bytes u = poll_write_loop message 0 (unat bytes) u"

section \<open>Interrupt masks\<close>

definition interrupt_mask :: "nat \<Rightarrow> nat \<Rightarrow> u32" where
  "interrupt_mask offset1 offset2 = push_bit offset1 1 OR push_bit offset2 1"

definition mask_enable :: "nat \<Rightarrow> nat \<Rightarrow> uart \<Rightarrow> uart" where
  "mask_enable offset1 offset2 u = u\<lparr>uart_imsc := uart_imsc u AND NOT (interrupt_mask offset1 offset2)\<rparr>"

definition mask_disable :: "nat \<Rightarrow> nat \<Rightarrow> uart \<Rightarrow> uart" where
  "mask_disable offset1 offset2 u = u\<lparr>uart_imsc := uart_imsc u OR interrupt_mask offset1 offset2\<rparr>"

text \<open>The constructor of \<open>InterruptMask\<close> gives the old mask, which its destructor restores.\<close>

definition mask_ctor :: "nat \<Rightarrow> nat \<Rightarrow> uart \<Rightarrow> u32 \<times> uart" where
  "mask_ctor offset1 offset2 u =
     (let m_prev = uart_imsc u in (m_prev, u\<lparr>uart_imsc := m_prev AND NOT (interrupt_mask offset1 offset2)\<rparr>))"

definition mask_dtor :: "u32 \<Rightarrow> uart \<Rightarrow> uart" where
  "mask_dtor m_prev u = u\<lparr>uart_imsc := m_prev\<rparr>"

definition clear_read_irq :: "uart \<Rightarrow> uart" where
  "clear_read_irq u = u\<lparr>uart_icr := uart_icr u AND NOT (push_bit 4 1)\<rparr>"

definition clear_write_irq :: "uart \<Rightarrow> uart" where
  "clear_write_irq u = u\<lparr>uart_icr := uart_icr u AND NOT (push_bit 5 1)\<rparr>"

definition enable_read_irq :: "uart \<Rightarrow> uart" where
  "enable_read_irq u = mask_disable UART_IMSC_RXIM UART_IMSC_RXIM u"

definition enable_write_irq :: "uart \<Rightarrow> uart" where
  "enable_write_irq u = mask_disable UART_IMSC_TXIM UART_IMSC_TXIM u"

definition disable_read_irq :: "uart \<Rightarrow> uart" where
  "disable_read_irq u = mask_enable UART_IMSC_RXIM UART_IMSC_RXIM u"

definition disable_write_irq :: "uart \<Rightarrow> uart" where
  "disable_write_irq u = mask_enable UART_IMSC_TXIM UART_IMSC_TXIM u"

text \<open>
  The trigger level is computed, but the result of \<open>overwrite\_bit\_range\<close> is dropped: the register
  stays as it is.
\<close>

definition set_read_irq :: "size_t \<Rightarrow> uart \<Rightarrow> uart option" where
  "set_read_irq read_size u = do {
     let fifo_select_bits = drop_bit 1 (min2 read_size 8);
     _ \<leftarrow> overwrite_bit_range (uart_ifls u) fifo_select_bits 3 5;
     Some u
   }"

definition set_write_irq :: "size_t \<Rightarrow> uart \<Rightarrow> uart option" where
  "set_write_irq write_size u = do {
     let fifo_select_bits = drop_bit 1 (min2 write_size 8);
     _ \<leftarrow> overwrite_bit_range (uart_ifls u) fifo_select_bits 0 2;
     Some u
   }"

section \<open>Reading and writing what the FIFOs hold\<close>

text \<open>The loops run over the bytes that are left; \<open>at\<close> is the position in the user's memory.\<close>

fun try_read_loop :: "char list \<Rightarrow> nat \<Rightarrow> size_t \<Rightarrow> nat \<Rightarrow> uart \<Rightarrow> ((size_t \<times> bool) \<times> char list \<times> uart) option" where
  "try_read_loop buf at offset 0 u = Some ((offset, False), buf, u)"
| "try_read_loop buf at offset (Suc n) u =
     (let (fr, u) = read_fr u
      in if fr AND push_bit UART_FR_RXFE 1 \<noteq> 0 then Some ((offset, False), buf, u)
         else let (v, u) = read_dr u; ch = u32_char v
           in if ch = CHR 0x0A \<or> ch = CHR 0x0D
              then do { u \<leftarrow> poll_put (CHR 0x0A) u; Some ((offset, True), buf, u) }
              else do {
                u \<leftarrow> poll_put ch u;
                buf \<leftarrow> put buf at ch;
                try_read_loop buf (at + 1) (offset + 1) n u
              })"

definition try_read :: "char list \<Rightarrow> nat \<Rightarrow> size_t \<Rightarrow> uart \<Rightarrow> ((size_t \<times> bool) \<times> char list \<times> uart) option" where
  "try_read buf at bufsize u = try_read_loop buf at 0 (unat bufsize) u"

fun try_write_loop :: "char list \<Rightarrow> nat \<Rightarrow> size_t \<Rightarrow> nat \<Rightarrow> uart \<Rightarrow> (size_t \<times> uart) option" where
  "try_write_loop buf at offset 0 u = Some (offset, u)"
| "try_write_loop buf at offset (Suc n) u =
     (let (fr, u) = read_fr u
      in if fr AND push_bit UART_FR_TXFF 1 \<noteq> 0 then Some (offset, u)
         else do {
           ch \<leftarrow> arr_at buf at;
           let u = write_dr (char_u32 ch) u;
           let u = (if ch = CHR 0x0A then write_dr (char_u32 (CHR 0x0D)) u else u);
           try_write_loop buf (at + 1) (offset + 1) n u
         })"

definition try_write :: "char list \<Rightarrow> nat \<Rightarrow> size_t \<Rightarrow> uart \<Rightarrow> (size_t \<times> uart) option" where
  "try_write buf at bufsize u = try_write_loop buf at 0 (unat bufsize) u"

section \<open>Requests\<close>

text \<open>A request holds the user's memory from its buffer on, and how much of it was transferred.\<close>

record uart_request =
  rq_buf :: "char list"
  rq_size :: size_t
  rq_capacity :: size_t
  rq_is_write_request :: bool

definition no_request :: uart_request where
  "no_request = \<lparr>rq_buf = [], rq_size = 0, rq_capacity = 0, rq_is_write_request = False\<rparr>"

definition request_is_finished :: "uart_request \<Rightarrow> bool" where
  "request_is_finished rq \<longleftrightarrow> rq_size rq = rq_capacity rq"

text \<open>The trigger level for what is left to transfer.\<close>

definition request_set_irq :: "uart_request \<Rightarrow> uart \<Rightarrow> uart option" where
  "request_set_irq rq u =
     (if rq_is_write_request rq then set_write_irq (rq_capacity rq - rq_size rq) u
      else set_read_irq (rq_capacity rq - rq_size rq) u)"

definition uart_request_new ::
    "char list \<Rightarrow> size_t \<Rightarrow> bool \<Rightarrow> uart \<Rightarrow> (uart_request \<times> uart) option" where
  "uart_request_new buf sz is_write_request u = do {
     let rq = \<lparr>rq_buf = buf, rq_size = 0, rq_capacity = sz, rq_is_write_request = is_write_request\<rparr>;
     u \<leftarrow> request_set_irq rq u;
     Some (rq, u)
   }"

definition request_enable_irq :: "uart_request \<Rightarrow> uart \<Rightarrow> uart" where
  "request_enable_irq rq u =
     (if rq_is_write_request rq then enable_write_irq u else enable_read_irq u)"

definition fill_from_uart :: "uart_request \<times> uart \<Rightarrow> (uart_request \<times> uart) option" where
  "fill_from_uart = (\<lambda>(rq, u).
     let amount_originally_left = rq_capacity rq - rq_size rq in
     if rq_is_write_request rq then do {
       (amount, u) \<leftarrow> try_write (rq_buf rq) (unat (rq_size rq)) amount_originally_left u;
       Some (rq\<lparr>rq_size := rq_size rq + amount\<rparr>, u)
     }
     else do {
       ((amount, did_stop), buf, u) \<leftarrow>
         try_read (rq_buf rq) (unat (rq_size rq)) amount_originally_left u;
       let rq = rq\<lparr>rq_buf := buf, rq_size := rq_size rq + amount\<rparr>;
       Some (if did_stop then rq\<lparr>rq_capacity := rq_size rq\<rparr> else rq, u)
     })"

definition request_handle_irq :: "uart_request \<times> uart \<Rightarrow> (uart_request \<times> uart) option" where
  "request_handle_irq = (\<lambda>(rq, u). do {
     let u = (if rq_is_write_request rq then clear_write_irq u else clear_read_irq u);
     (rq, u) \<leftarrow> fill_from_uart (rq, u);
     (if rq_size rq = rq_capacity rq
      then Some (rq, if rq_is_write_request rq then disable_write_irq u else disable_read_irq u)
      else do { u \<leftarrow> request_set_irq rq u; Some (rq, u) })
   })"

text \<open>
  \<open>UARTFile::read\<close> and \<open>write\<close> start a request, which panics if another one is under way, enable its
  interrupt and wait (in Syscalls); a request that is not finished after the wait panics.
\<close>

definition uart_transfer_start ::
    "bool \<Rightarrow> char list \<Rightarrow> size_t \<Rightarrow> uart_request \<times> uart \<Rightarrow> (uart_request \<times> uart) option" where
  "uart_transfer_start is_write_request buf sz = (\<lambda>(rq, u).
     if \<not> request_is_finished rq then None
     else do {
       (rq, u) \<leftarrow> uart_request_new buf sz is_write_request u;
       Some (rq, request_enable_irq rq u)
     })"

definition uart_transfer_result :: "uart_request \<Rightarrow> int option" where
  "uart_transfer_result rq = (if \<not> request_is_finished rq then None else Some (sint (rq_size rq)))"

section \<open>Polling ends\<close>

text \<open>A device that drains: again and again, the transmit FIFO is not full.\<close>

definition drains :: "uart \<Rightarrow> bool" where
  "drains u \<longleftrightarrow> (\<forall>n. \<exists>m\<ge>n. \<not> bit (uart_fr u m) UART_FR_TXFF)"

lemma fr_flag: "fr AND 2 ^ n = 0 \<longleftrightarrow> \<not> bit (fr :: u32) n"
  using bit_iff_and_push_bit_not_eq_0 [of fr n] by simp

lemma poll_full_step:
  "poll_full u = (let u' = u\<lparr>uart_fr_readings := uart_fr_readings u + 1\<rparr> in
     if bit (uart_fr u (uart_fr_readings u)) UART_FR_TXFF then poll_full u' else Some u')"
  by (subst poll_full.simps) (simp add: read_fr_def fr_flag)

lemma poll_full_ends:
  assumes "\<not> bit (uart_fr u m) UART_FR_TXFF" and "uart_fr_readings u \<le> m"
  shows "\<exists>r. poll_full u = Some (u\<lparr>uart_fr_readings := r\<rparr>)"
  using assms
proof (induction "m - uart_fr_readings u" arbitrary: u)
  case 0
  then have "m = uart_fr_readings u" by simp
  then have "poll_full u = Some (u\<lparr>uart_fr_readings := m + 1\<rparr>)"
    using 0 by (simp add: poll_full_step [of u])
  then show ?case by blast
next
  case (Suc d)
  let ?u = "u\<lparr>uart_fr_readings := uart_fr_readings u + 1\<rparr>"
  show ?case
  proof (cases "bit (uart_fr u (uart_fr_readings u)) UART_FR_TXFF")
    case True
    have "\<exists>r. poll_full ?u = Some (?u\<lparr>uart_fr_readings := r\<rparr>)"
      using Suc.hyps(2) Suc.prems by (intro Suc.hyps(1)) auto
    then show ?thesis using True by (simp add: poll_full_step [of u])
  next
    case False
    then have "poll_full u = Some ?u" by (simp add: poll_full_step [of u])
    then show ?thesis by blast
  qed
qed

lemma poll_put_ok:
  assumes "drains u"
  shows "\<exists>r. poll_put ch u = Some (u\<lparr>uart_fr_readings := r, uart_sent := uart_sent u @ [char_u32 ch]\<rparr>)"
proof -
  obtain m where "uart_fr_readings u \<le> m" "\<not> bit (uart_fr u m) UART_FR_TXFF"
    using assms unfolding drains_def by blast
  then show ?thesis using poll_full_ends [of u m] by (auto simp: poll_put_def write_dr_def)
qed

section \<open>Receiving\<close>

definition is_break :: "char \<Rightarrow> bool" where "is_break ch \<longleftrightarrow> ch = CHR 0x0A \<or> ch = CHR 0x0D"

text \<open>The next \<open>n\<close> bytes that the device will deliver.\<close>

definition incoming :: "uart \<Rightarrow> nat \<Rightarrow> char list" where
  "incoming u n = map (\<lambda>i. u32_char (uart_dr u (uart_dr_readings u + i))) [0..<n]"

text \<open>The device after \<open>k\<close> bytes were received and echoed, and what they are.\<close>

abbreviation after_read :: "uart \<Rightarrow> nat \<Rightarrow> bool \<Rightarrow> nat \<Rightarrow> uart" where
  "after_read u k stop r \<equiv> u\<lparr>uart_fr_readings := r, uart_dr_readings := uart_dr_readings u + k + of_bool stop,
     uart_sent := uart_sent u @ map char_u32 (incoming u k @ (if stop then [CHR 0x0A] else []))\<rparr>"

definition received :: "uart \<Rightarrow> nat \<Rightarrow> nat \<Rightarrow> bool \<Rightarrow> nat \<Rightarrow> bool" where
  "received u n k stop r \<longleftrightarrow> k \<le> n \<and> (\<forall>ch\<in>set (incoming u k). \<not> is_break ch)
     \<and> (stop \<longrightarrow> k < n \<and> is_break (u32_char (uart_dr u (uart_dr_readings u + k))))
     \<and> (k < n \<and> \<not> stop \<longrightarrow> bit (uart_fr u (r - 1)) UART_FR_RXFE)"

lemma try_read_loop_ok:
  assumes "drains u" and "at + n \<le> length buf"
  shows "\<exists>k stop r. try_read_loop buf at off n u =
      Some ((off + of_nat k, stop), take at buf @ incoming u k @ drop (at + k) buf, after_read u k stop r)
      \<and> received u n k stop r"
  using assms
proof (induction n arbitrary: buf at off u)
  case 0
  then show ?case
    by (intro exI [of _ 0] exI [of _ False] exI [of _ "uart_fr_readings u"]) (simp add: received_def incoming_def)
next
  case (Suc n)
  let ?r = "uart_fr_readings u + 1"
  let ?ch = "u32_char (uart_dr u (uart_dr_readings u))"
  let ?u = "u\<lparr>uart_fr_readings := ?r, uart_dr_readings := uart_dr_readings u + 1\<rparr>"
  have d: "drains ?u" using Suc.prems(1) by (simp add: drains_def)
  show ?case
  proof (cases "bit (uart_fr u (uart_fr_readings u)) UART_FR_RXFE")
    case True
    then show ?thesis
      by (intro exI [of _ 0] exI [of _ False] exI [of _ ?r])
         (simp add: received_def incoming_def read_fr_def fr_flag)
  next
    case more: False
    show ?thesis
    proof (cases "is_break ?ch")
      case True
      obtain r where "poll_put (CHR 0x0A) ?u = Some (?u\<lparr>uart_fr_readings := r,
          uart_sent := uart_sent u @ [char_u32 (CHR 0x0A)]\<rparr>)"
        using poll_put_ok [OF d, of "CHR 0x0A"] by auto
      then show ?thesis using True more
        by (intro exI [of _ 0] exI [of _ True] exI [of _ r])
           (simp add: received_def incoming_def read_fr_def read_dr_def fr_flag is_break_def [symmetric])
    next
      case False
      obtain r where r: "poll_put ?ch ?u = Some (?u\<lparr>uart_fr_readings := r, uart_sent := uart_sent u @ [char_u32 ?ch]\<rparr>)"
        using poll_put_ok [OF d, of ?ch] by auto
      let ?v = "?u\<lparr>uart_fr_readings := r, uart_sent := uart_sent u @ [char_u32 ?ch]\<rparr>"
      let ?b = "buf[at := ?ch]"
      have d': "drains ?v" using Suc.prems(1) by (simp add: drains_def)
      have len: "at + 1 + n \<le> length ?b" "at < length buf" using Suc.prems(2) by simp_all
      obtain k stop r' where IH: "try_read_loop ?b (at + 1) (off + 1) n ?v =
            Some ((off + 1 + of_nat k, stop), take (at + 1) ?b @ incoming ?v k @ drop (at + 1 + k) ?b,
              after_read ?v k stop r')"
          "received ?v n k stop r'"
        using Suc.IH [OF d' len(1), of "off + 1"] by (elim exE conjE) (rule that)
      have inc: "incoming u (Suc k) = ?ch # incoming ?v k" by (simp add: incoming_def upt_conv_Cons map_Suc_upt [symmetric] del: upt_Suc)
      have step: "try_read_loop buf at off (Suc n) u = try_read_loop ?b (at + 1) (off + 1) n ?v"
        using more False r len(2) by (simp add: read_fr_def read_dr_def fr_flag is_break_def put_def Let_def)
      have mem: "take (at + 1) ?b @ incoming ?v k @ drop (at + 1 + k) ?b
          = take at buf @ incoming u (Suc k) @ drop (at + Suc k) buf"
        unfolding inc using len(2) by (simp add: take_Suc_conv_app_nth)
      have dev: "after_read ?v k stop r' = after_read u (Suc k) stop r'" using inc by simp
      have off: "off + 1 + of_nat k = off + of_nat (Suc k)" by simp
      have "received u (Suc n) (Suc k) stop r'"
        using IH(2) False inc by (simp add: received_def)
      with IH(1) have "try_read_loop buf at off (Suc n) u = Some ((off + of_nat (Suc k), stop),
          take at buf @ incoming u (Suc k) @ drop (at + Suc k) buf, after_read u (Suc k) stop r')
          \<and> received u (Suc n) (Suc k) stop r'"
        unfolding step mem dev off by (rule conjI)
      then show ?thesis by blast
    qed
  qed
qed

text \<open>
  Reading from the UART, on a device that drains: \<open>try_read\<close> returns; it stores the next bytes of
  the device at the given place and changes no other byte of the user's memory; none of them is a line
  break; each one is echoed. It stops after fewer than the wanted bytes only at a line break, which is
  consumed, echoed as newline and not stored, or when the receive FIFO is empty.
\<close>

lemma uart_try_read_receives:
  assumes "drains u" and "at + unat n \<le> length buf"
  shows "\<exists>k stop r. let chs = incoming u k in
      try_read buf at n u = Some ((of_nat k, stop), take at buf @ chs @ drop (at + k) buf,
        u\<lparr>uart_fr_readings := r, uart_dr_readings := uart_dr_readings u + k + of_bool stop,
          uart_sent := uart_sent u @ map char_u32 (chs @ (if stop then [CHR 0x0A] else []))\<rparr>)
      \<and> k \<le> unat n \<and> (\<forall>ch\<in>set chs. \<not> is_break ch)
      \<and> (stop \<longrightarrow> k < unat n \<and> is_break (u32_char (uart_dr u (uart_dr_readings u + k))))
      \<and> (k < unat n \<and> \<not> stop \<longrightarrow> bit (uart_fr u (r - 1)) UART_FR_RXFE)"
proof -
  obtain k stop r where k: "try_read_loop buf at 0 (unat n) u =
        Some ((0 + of_nat k, stop), take at buf @ incoming u k @ drop (at + k) buf, after_read u k stop r)"
      "received u (unat n) k stop r"
    using try_read_loop_ok [OF assms, of 0] by (elim exE conjE) (rule that)
  then show ?thesis
    unfolding try_read_def received_def Let_def
    by (intro exI [of _ k] exI [of _ stop] exI [of _ r]) simp
qed

section \<open>Sending\<close>

text \<open>What \<open>try\_write\<close> sends for a byte: a carriage return follows each newline.\<close>

definition sent_for :: "char \<Rightarrow> u32 list" where
  "sent_for ch = (if ch = CHR 0x0A then [char_u32 (CHR 0x0A), char_u32 (CHR 0x0D)] else [char_u32 ch])"

lemma try_write_loop_ok:
  assumes "at + n \<le> length buf"
  shows "\<exists>k r. try_write_loop buf at off n u = Some (off + of_nat k, u\<lparr>uart_fr_readings := r,
        uart_sent := uart_sent u @ concat (map sent_for (take k (drop at buf)))\<rparr>)
      \<and> k \<le> n \<and> (k < n \<longrightarrow> bit (uart_fr u (r - 1)) UART_FR_TXFF)"
  using assms
proof (induction n arbitrary: at off u)
  case 0
  then show ?case by (intro exI [of _ 0] exI [of _ "uart_fr_readings u"]) simp
next
  case (Suc n)
  let ?r = "uart_fr_readings u + 1"
  let ?v = "u\<lparr>uart_fr_readings := ?r, uart_sent := uart_sent u @ sent_for (buf ! at)\<rparr>"
  show ?case
  proof (cases "bit (uart_fr u (uart_fr_readings u)) UART_FR_TXFF")
    case True
    then show ?thesis by (intro exI [of _ 0] exI [of _ ?r]) (simp add: read_fr_def fr_flag)
  next
    case False
    have len: "at + 1 + n \<le> length buf" "at < length buf" using Suc.prems by simp_all
    obtain k r where IH: "try_write_loop buf (at + 1) (off + 1) n ?v = Some (off + 1 + of_nat k,
          ?v\<lparr>uart_fr_readings := r, uart_sent := uart_sent ?v @ concat (map sent_for (take k (drop (at + 1) buf)))\<rparr>)"
        "k \<le> n" "k < n \<longrightarrow> bit (uart_fr ?v (r - 1)) UART_FR_TXFF"
      using Suc.IH [OF len(1), of "off + 1" ?v] by (elim exE conjE) (rule that)
    have step: "try_write_loop buf at off (Suc n) u = try_write_loop buf (at + 1) (off + 1) n ?v"
      using False len(2)
      by (simp add: read_fr_def fr_flag arr_at_def write_dr_def sent_for_def Let_def)
    have dev: "uart_sent ?v @ concat (map sent_for (take k (drop (at + 1) buf)))
        = uart_sent u @ concat (map sent_for (take (Suc k) (drop at buf)))"
      using len(2) by (simp add: Cons_nth_drop_Suc [symmetric])
    have off: "off + 1 + of_nat k = off + of_nat (Suc k)" by simp
    show ?thesis
      using IH(2,3) unfolding step IH(1) dev off
      by (intro exI [of _ "Suc k"] exI [of _ r]) simp
  qed
qed

section \<open>Requests make progress\<close>

definition request_ok :: "uart_request \<Rightarrow> bool" where
  "request_ok rq \<longleftrightarrow> rq_size rq \<le> rq_capacity rq \<and> unat (rq_capacity rq) \<le> length (rq_buf rq)"

definition own_irq_enabled :: "uart_request \<Rightarrow> uart \<Rightarrow> bool" where
  "own_irq_enabled rq u \<longleftrightarrow>
     bit (uart_imsc u) (if rq_is_write_request rq then UART_IMSC_TXIM else UART_IMSC_RXIM)"

lemma set_irq_same: "request_set_irq rq u = Some u"
  by (simp add: request_set_irq_def set_read_irq_def set_write_irq_def overwrite_bit_range_def Let_def)

lemma not_enabled_after_disable:
  "\<not> own_irq_enabled rq (if rq_is_write_request rq then disable_write_irq u else disable_read_irq u)"
  by (simp add: own_irq_enabled_def disable_write_irq_def disable_read_irq_def mask_enable_def
    interrupt_mask_def bit_simps UART_IMSC_TXIM_def UART_IMSC_RXIM_def)

lemma add_within:
  assumes "a \<le> (c :: size_t)" and "k \<le> unat (c - a)"
  shows "unat (a + of_nat k) = unat a + k" and "a + of_nat k \<le> c"
proof -
  have k: "unat a + k \<le> unat c" using assms by (simp add: unat_word_le unat_sub)
  then have "unat a + k < 2 ^ 32" using unat_lt_exp [of c] by simp
  then show eq: "unat (a + of_nat k) = unat a + k"
    by (subst unat_add_lt) (simp_all add: unat_of_nat_lt)
  show "a + of_nat k \<le> c" using k eq by (simp add: unat_word_le)
qed

text \<open>
  What one transfer does to a request: the part that was transferred before stays, so does what lies
  behind the part transferred now, and only a break can lower the capacity.
\<close>

definition advances :: "uart_request \<Rightarrow> uart_request \<Rightarrow> bool" where
  "advances rq rq' \<longleftrightarrow> request_ok rq' \<and> rq_size rq \<le> rq_size rq' \<and> rq_capacity rq' \<le> rq_capacity rq
     \<and> rq_is_write_request rq' = rq_is_write_request rq \<and> length (rq_buf rq') = length (rq_buf rq)
     \<and> take (unat (rq_size rq)) (rq_buf rq') = take (unat (rq_size rq)) (rq_buf rq)
     \<and> drop (unat (rq_size rq')) (rq_buf rq') = drop (unat (rq_size rq')) (rq_buf rq)
     \<and> (rq_is_write_request rq \<longrightarrow> rq_buf rq' = rq_buf rq \<and> rq_capacity rq' = rq_capacity rq)"

lemma fill_from_uart_ok:
  assumes ok: "request_ok rq" and d: "drains u"
  shows "\<exists>rq' u'. fill_from_uart (rq, u) = Some (rq', u') \<and> advances rq rq' \<and> drains u'
    \<and> uart_imsc u' = uart_imsc u"
proof -
  let ?n = "unat (rq_capacity rq - rq_size rq)"
  have le: "rq_size rq \<le> rq_capacity rq" and cap: "unat (rq_capacity rq) \<le> length (rq_buf rq)"
    using ok by (simp_all add: request_ok_def)
  have room: "unat (rq_size rq) + ?n \<le> length (rq_buf rq)"
    using le cap by (simp add: unat_sub unat_word_le)
  show ?thesis
  proof (cases "rq_is_write_request rq")
    case True
    obtain k r where k: "try_write_loop (rq_buf rq) (unat (rq_size rq)) 0 ?n u = Some (0 + of_nat k,
        u\<lparr>uart_fr_readings := r, uart_sent := uart_sent u @ concat (map sent_for (take k (drop (unat (rq_size rq)) (rq_buf rq))))\<rparr>)"
        "k \<le> ?n"
      using try_write_loop_ok [OF room, of 0 u] by (elim exE conjE) (rule that)
    note add = add_within [OF le k(2)]
    let ?u' = "u\<lparr>uart_fr_readings := r, uart_sent := uart_sent u @ concat (map sent_for (take k (drop (unat (rq_size rq)) (rq_buf rq))))\<rparr>"
    have "fill_from_uart (rq, u) = Some (rq\<lparr>rq_size := rq_size rq + of_nat k\<rparr>, ?u')"
      using True k(1) by (simp add: fill_from_uart_def try_write_def)
    moreover have "advances rq (rq\<lparr>rq_size := rq_size rq + of_nat k\<rparr>)"
      using add cap by (simp add: advances_def request_ok_def unat_word_le)
    moreover have "drains ?u'" using d by (simp add: drains_def)
    ultimately show ?thesis by (intro exI conjI) (assumption | simp)+
  next
    case False
    let ?at = "unat (rq_size rq)"
    obtain k stop r where k: "try_read_loop (rq_buf rq) ?at 0 ?n u = Some ((0 + of_nat k, stop),
          take ?at (rq_buf rq) @ incoming u k @ drop (?at + k) (rq_buf rq), after_read u k stop r)"
        "received u ?n k stop r"
      using try_read_loop_ok [OF d room, of 0] by (elim exE conjE) (rule that)
    then have kn: "k \<le> ?n" by (simp add: received_def)
    note add = add_within [OF le kn]
    let ?b = "take ?at (rq_buf rq) @ incoming u k @ drop (?at + k) (rq_buf rq)"
    let ?rq = "rq\<lparr>rq_buf := ?b, rq_size := rq_size rq + of_nat k\<rparr>"
    let ?rq' = "if stop then ?rq\<lparr>rq_capacity := rq_size ?rq\<rparr> else ?rq"
    have len: "length (incoming u k) = k" by (simp add: incoming_def)
    have "fill_from_uart (rq, u) = Some (?rq', after_read u k stop r)"
      using False k(1) by (simp add: fill_from_uart_def try_read_def Let_def)
    moreover have "advances rq ?rq'"
      using add cap False len room kn by (simp add: advances_def request_ok_def unat_word_le)
    moreover have "drains (after_read u k stop r)" using d by (simp add: drains_def)
    ultimately show ?thesis by (intro exI conjI) (assumption | simp)+
  qed
qed

lemma handle_irq_ok:
  assumes "request_ok rq" and "drains u"
  shows "\<exists>rq' u'. request_handle_irq (rq, u) = Some (rq', u') \<and> advances rq rq' \<and> drains u'
    \<and> (if request_is_finished rq' then \<not> own_irq_enabled rq' u' else uart_imsc u' = uart_imsc u)"
proof -
  let ?u = "if rq_is_write_request rq then clear_write_irq u else clear_read_irq u"
  have d: "drains ?u" using assms(2) by (simp add: drains_def clear_write_irq_def clear_read_irq_def)
  have imsc: "uart_imsc ?u = uart_imsc u" by (simp add: clear_write_irq_def clear_read_irq_def)
  obtain rq' u' where f: "fill_from_uart (rq, ?u) = Some (rq', u')" "advances rq rq'" "drains u'"
      "uart_imsc u' = uart_imsc ?u"
    using fill_from_uart_ok [OF assms(1) d] by (elim exE conjE) (rule that)
  let ?v = "if rq_size rq' = rq_capacity rq'
    then (if rq_is_write_request rq' then disable_write_irq u' else disable_read_irq u') else u'"
  have "request_handle_irq (rq, u) = Some (rq', ?v)"
    using f(1) set_irq_same [of rq' u'] by (simp add: request_handle_irq_def Let_def)
  moreover have "drains ?v"
    using f(3) by (simp add: drains_def disable_write_irq_def disable_read_irq_def mask_enable_def)
  moreover have "if request_is_finished rq' then \<not> own_irq_enabled rq' ?v else uart_imsc ?v = uart_imsc u"
    using f(4) imsc not_enabled_after_disable [of rq' u'] by (simp add: request_is_finished_def)
  ultimately show ?thesis using f(2) by blast
qed

text \<open>
  C26. The interrupt handler of the UART always returns, on a device that drains, and keeps the request
  well formed: it transfers into or from the part of the buffer that is left and nothing else, and the
  request's interrupt is disabled when it is finished and stays as it was when it is not.
\<close>

theorem uart_irq_progress:
  assumes "request_ok rq" and "drains u"
  shows "\<exists>rq' u'. request_handle_irq (rq, u) = Some (rq', u') \<and> request_ok rq'
    \<and> rq_size rq \<le> rq_size rq' \<and> rq_capacity rq' \<le> rq_capacity rq
    \<and> take (unat (rq_size rq)) (rq_buf rq') = take (unat (rq_size rq)) (rq_buf rq)
    \<and> drop (unat (rq_size rq')) (rq_buf rq') = drop (unat (rq_size rq')) (rq_buf rq)
    \<and> (if request_is_finished rq' then \<not> own_irq_enabled rq' u' else uart_imsc u' = uart_imsc u)"
  using handle_irq_ok [OF assms] unfolding advances_def by (elim exE conjE) (intro exI conjI)

section \<open>A concrete device\<close>

text \<open>It delivers \<open>hi\<close> and a newline, and always has room to send.\<close>

definition example_uart :: uart where
  "example_uart = uart_reset \<lparr>uart_cr = 0, uart_icr = 0, uart_ibrd = 0, uart_fbrd = 0, uart_lcrh = 0,
     uart_imsc = 0, uart_ifls = 0, gppud = 0, gppudclk0 = 0, uart_fr = \<lambda>n. 0, uart_fr_readings = 0,
     uart_dr = \<lambda>n. (if n = 0 then 104 else if n = 1 then 105 else 10), uart_dr_readings = 0, uart_sent = []\<rparr>"

lemma example_uart_fields:
  "uart_fr example_uart = (\<lambda>n. 0)" "uart_dr_readings example_uart = 0" "uart_sent example_uart = []"
  "uart_dr example_uart = (\<lambda>n. if n = 0 then 104 else if n = 1 then 105 else 10)"
  by (simp_all add: example_uart_def uart_reset_def baud_divisor_register_values_def Let_def)

lemma example_drains: "drains example_uart"
  by (auto simp: drains_def example_uart_fields)

lemma example_break: "is_break (u32_char (uart_dr example_uart k)) \<longleftrightarrow> 2 \<le> k"
  by (auto simp: example_uart_fields is_break_def u32_char_def char_of_def bit_simps)

theorem uart_irq_progress_witness:
  "\<exists>rq' u'. request_handle_irq (\<lparr>rq_buf = ''......'', rq_size = 1, rq_capacity = 5, rq_is_write_request = False\<rparr>,
     example_uart) = Some (rq', u') \<and> request_ok rq' \<and> 1 \<le> rq_size rq'"
  using uart_irq_progress [of "\<lparr>rq_buf = ''......'', rq_size = 1, rq_capacity = 5, rq_is_write_request = False\<rparr>", 
    OF _ example_drains] by (auto simp: request_ok_def)

end
