(* ===== verification/Console.thy ===== *)
theory Console
  imports Formatting Uart
begin

text \<open>
  The kernel's console, kernel/console.hpp and console.cpp: printing on the UART by polling it. A
  literal is written with \<open>lit\<close>, which adds its terminator.
\<close>

definition lit :: "char list \<Rightarrow> char list" where "lit s = s @ [NUL]"

definition print_lit :: "'s printer \<Rightarrow> char list \<Rightarrow> 's \<Rightarrow> 's option" where
  "print_lit print s st = print_with_string print (lit s) st"

section \<open>The console\<close>

definition uart_printer_print :: "string_view \<Rightarrow> uart \<Rightarrow> uart option" where
  "uart_printer_print message u = do {
     let (m_prev, u) = mask_ctor UART_IMSC_TXIM UART_IMSC_TXIM u;
     u \<leftarrow> poll_write_string (sv_chars message) u;
     Some (mask_dtor m_prev u)
   }"

definition console :: "(uart \<Rightarrow> uart option) list \<Rightarrow> uart \<Rightarrow> uart option" where
  "console args u = print_each_with_spacing uart_printer_print args u"

definition consoleln :: "(uart \<Rightarrow> uart option) list \<Rightarrow> uart \<Rightarrow> uart option" where
  "consoleln args u = console (args @ [print_lit uart_printer_print [CHR 0x0A]]) u"

definition console_join :: "(uart \<Rightarrow> uart option) list \<Rightarrow> uart \<Rightarrow> uart option" where
  "console_join args u = print_each_with args u"

definition consolef :: "char list \<Rightarrow> va_arg list \<Rightarrow> uart \<Rightarrow> uart option" where
  "consolef fmt args u = do {
     let (m_prev, u) = mask_ctor UART_IMSC_TXIM UART_IMSC_TXIM u;
     (_, u) \<leftarrow> vfnprintf (\<lambda>message u. do { u \<leftarrow> poll_write_string message u; Some (True, u) }) fmt args u;
     Some (mask_dtor m_prev u)
   }"

section \<open>What the console sends\<close>

text \<open>The device with more bytes sent, and some more flag readings taken.\<close>

definition sent_more :: "uart \<Rightarrow> char list \<Rightarrow> uart \<Rightarrow> bool" where
  "sent_more u out u' \<longleftrightarrow> (\<exists>r. u' = u\<lparr>uart_fr_readings := r, uart_sent := uart_sent u @ map char_u32 out\<rparr>)"

lemma sent_more_refl: "sent_more u [] u"
  by (auto simp: sent_more_def intro: exI [of _ "uart_fr_readings u"])

lemma sent_more_drains: "drains u \<Longrightarrow> sent_more u out u' \<Longrightarrow> drains u'"
  by (auto simp: drains_def sent_more_def)

lemma poll_write_string_ok:
  "drains u \<Longrightarrow> NUL \<in> set s \<Longrightarrow> \<exists>u'. poll_write_string s u = Some u' \<and> sent_more u (cstring s) u'"
proof (induction s arbitrary: u)
  case (Cons ch s)
  show ?case
  proof (cases "ch = NUL")
    case True
    then show ?thesis by (auto simp: sent_more_def intro: exI [of _ "uart_fr_readings u"])
  next
    case False
    obtain r where r: "poll_put ch u = Some (u\<lparr>uart_fr_readings := r, uart_sent := uart_sent u @ [char_u32 ch]\<rparr>)"
      using poll_put_ok [OF Cons.prems(1)] by blast
    let ?u = "u\<lparr>uart_fr_readings := r, uart_sent := uart_sent u @ [char_u32 ch]\<rparr>"
    have "drains ?u" using Cons.prems(1) by (simp add: drains_def)
    from Cons.IH [OF this] obtain u' where "poll_write_string s ?u = Some u'" "sent_more ?u (cstring s) u'"
      using Cons.prems(2) False by auto
    then show ?thesis using False r by (auto simp: sent_more_def)
  qed
qed simp

lemma sent_more_trans: "sent_more u xs v \<Longrightarrow> sent_more v ys w \<Longrightarrow> sent_more u (xs @ ys) w"
  by (auto simp: sent_more_def)

section \<open>Messages\<close>

text \<open>\<open>sends f out\<close>: on a device that drains, \<open>f\<close> returns and sends the text \<open>out\<close>.\<close>

definition sends :: "(uart \<Rightarrow> uart option) \<Rightarrow> char list \<Rightarrow> bool" where
  "sends f out \<longleftrightarrow> (\<forall>u. drains u \<longrightarrow> (\<exists>u'. f u = Some u' \<and> sent_more u out u'))"

fun joined :: "char list \<Rightarrow> char list list \<Rightarrow> char list" where
  "joined sep [] = []"
| "joined sep [x] = x"
| "joined sep (x # y # xs) = x @ sep @ joined sep (y # xs)"

lemma consolef_sends:
  assumes "vfnprintf collect fmt args [] = Some (ok, out)"
  shows "sends (consolef fmt args) out"
  unfolding sends_def
proof (intro allI impI)
  fix u assume u: "drains u"
  let ?m = "u\<lparr>uart_imsc := uart_imsc u AND NOT (interrupt_mask UART_IMSC_TXIM UART_IMSC_TXIM)\<rparr>"
  let ?f = "\<lambda>message u. Option.bind (poll_write_string message u) (\<lambda>u. Some (True, u))"
  have d: "drains ?m" using u by (simp add: drains_def)
  have "\<exists>u'. vfnprintf ?f fmt args ?m = Some (ok, u') \<and> sent_more ?m out u'"
  proof (rule vfnprintf_sim [OF assms])
    show "sent_more ?m [] ?m" by (auto simp: sent_more_def intro: exI [of _ "uart_fr_readings u"])
    fix str out v
    assume "NUL \<in> set str" and v: "sent_more ?m out v"
    then obtain v' where "poll_write_string str v = Some v'" "sent_more v (cstring str) v'"
      using poll_write_string_ok sent_more_drains [OF d v] by blast
    then show "\<exists>s'. ?f str v = Some (True, s') \<and> sent_more ?m (out @ cstring str) s'"
      using sent_more_trans [OF v] by auto
  qed
  then show "\<exists>u'. consolef fmt args u = Some u' \<and> sent_more u out u'"
    by (auto simp: consolef_def mask_ctor_def mask_dtor_def sent_more_def Let_def)
qed


lemma sends_view:
  assumes "NUL \<in> set (sv_chars v)"
  shows "sends (uart_printer_print v) (cstring (sv_chars v))"
  unfolding sends_def
proof (intro allI impI)
  fix u assume "drains u"
  then have "drains (snd (mask_ctor UART_IMSC_TXIM UART_IMSC_TXIM u))" by (simp add: drains_def mask_ctor_def Let_def)
  from poll_write_string_ok [OF this assms]
  show "\<exists>u'. uart_printer_print v u = Some u' \<and> sent_more u (cstring (sv_chars v)) u'"
    by (auto simp: uart_printer_print_def mask_ctor_def mask_dtor_def sent_more_def Let_def)
qed

lemma sends_string:
  assumes "NUL \<in> set s"
  shows "sends (print_with_string uart_printer_print s) (cstring s)"
  using sends_view [of "\<lparr>sv_chars = s, sv_length = length (cstring s)\<rparr>"] assms
  by (simp add: sends_def print_with_string_def print_with_view_def string_view_of_def strlen_eq)

lemma sends_lit: "NUL \<notin> set s \<Longrightarrow> sends (print_lit uart_printer_print s) s"
  using sends_string [of "lit s"] by (simp add: sends_def print_lit_def lit_def)

lemma sends_int:
  assumes "in_range ty n" and "ty \<noteq> CBool" and "is_signed ty \<Longrightarrow> n \<noteq> cint_min ty"
  shows "sends (print_with_int uart_printer_print ty n) (decimal n)"
proof -
  have "log \<bar>n\<bar> + 1 \<le> lim_digits10 (limits ty)" by (rule log_digits10 [OF abs_in_range [OF assms(1,3)] assms(2)])
  then have "0 \<le> lim_characters10 (limits ty)" using log_nonneg [of "\<bar>n\<bar>"] lim_characters10 [of ty] by simp
  then have "lim_characters10 (limits ty) + 1 = int (characters10 ty + 1)" by (simp add: characters10_def)
  from print_decimal [OF assms this] obtain str where
      "to_strbuf ty (zeroed (characters10 ty + 1)) 0 (characters10 ty + 1) n = Some str" "cstring str = decimal n" "NUL \<in> set str"
    by blast
  then show ?thesis using sends_string [of str] by (simp add: sends_def print_with_int_def)
qed

lemma sends_unsigned: "sends (print_with_int uart_printer_print CULong (uint (w :: u32))) (decimal (uint w))"
proof (rule sends_int)
  have "uint w < 4294967296" using uint_bounded [of w] by simp
  then show "in_range CULong (uint w)" by (simp add: in_range_def cint_min_def cint_max_def is_signed_def)
qed (simp_all add: is_signed_def)

lemma sends_bind:
  assumes "sends f xs" and "sends g ys"
  shows "sends (\<lambda>u. Option.bind (f u) g) (xs @ ys)"
  unfolding sends_def
proof (intro allI impI)
  fix u assume "drains u"
  then obtain v where v: "f u = Some v" "sent_more u xs v" using assms(1) by (auto simp: sends_def)
  then have "drains v" using sent_more_drains [OF \<open>drains u\<close>] by blast
  then obtain w where "g v = Some w" "sent_more v ys w" using assms(2) by (auto simp: sends_def)
  then show "\<exists>u'. Option.bind (f u) g = Some u' \<and> sent_more u (xs @ ys) u'"
    using v sent_more_trans [OF v(2)] by auto
qed

lemma sends_ptr: "sends (print_with_ptr uart_printer_print p) (''0x'' @ hex_digits 8 (unat p))"
proof -
  have z: "(zeroed 11)[0 := CHR ''0'', 1 := CHR ''x''] = ''0x'' @ replicate 9 NUL" by (simp add: zeroed_def numeral_eq_Suc)
  let ?str = "overwrite (''0x'' @ replicate 9 NUL) 2 (hex_digits 8 (unat p) @ [NUL])"
  have "to_strbuf_hex CULong (''0x'' @ replicate 9 NUL) 2 11 (unat p) Lower = Some ?str"
    by (rule to_strbuf_hex_eq) (simp_all add: limits_32(3) [unfolded digits16_def])
  moreover have "cstring ?str = ''0x'' @ hex_digits 8 (unat p)"
    using print_hex [of "''0x''" "''0x'' @ replicate 9 NUL" "unat p"] by (simp add: numeral_2_eq_2)
  moreover have "NUL \<in> set ?str" by (simp add: overwrite_def)
  ultimately show ?thesis
    using sends_string [of ?str] z by (simp add: sends_def print_with_ptr_def limits_32 Let_def)
qed

lemma sends_spacing:
  assumes "list_all2 sends ps outs"
  shows "sends (print_each_with_spacing uart_printer_print ps) (joined '' '' outs)"
  using assms
proof (induction ps outs rule: list_all2_induct)
  case Nil
  then show ?case using sent_more_refl by (simp add: sends_def)
next
  case (Cons p ps out outs)
  show ?case
  proof (cases "ps")
    case Nil
    then show ?thesis using Cons by simp
  next
    case (Cons q qs)
    then obtain out2 outs' where outs: "outs = out2 # outs'" using Cons.hyps(2) by (cases outs) auto
    have sp: "sends (print_with_string uart_printer_print [CHR '' '', NUL]) '' ''"
      using sends_string [of "[CHR '' '', NUL]"] by simp
    show ?thesis
      unfolding sends_def
    proof (intro allI impI)
      fix u assume "drains u"
      then obtain v where v: "p u = Some v" "sent_more u out v" using Cons.hyps(1) by (auto simp: sends_def)
      then have "drains v" using sent_more_drains [OF \<open>drains u\<close>] by blast
      then obtain w where w: "print_with_string uart_printer_print [CHR '' '', NUL] v = Some w" "sent_more v '' '' w"
        using sp by (auto simp: sends_def)
      then have "drains w" using sent_more_drains [OF \<open>drains v\<close>] by blast
      then obtain x where "print_each_with_spacing uart_printer_print ps w = Some x" "sent_more w (joined '' '' outs) x"
        using Cons.IH by (auto simp: sends_def)
      then show "\<exists>u'. print_each_with_spacing uart_printer_print (p # ps) u = Some u' \<and> sent_more u (joined '' '' (out # outs)) u'"
        using v w Cons outs sent_more_trans [OF v(2) sent_more_trans [OF w(2)]] by auto
    qed
  qed
qed

text \<open>A line on the console: its parts with spaces between them, and a space before the line end.\<close>

lemma consoleln_sends:
  assumes "list_all2 sends ps outs"
  shows "sends (consoleln ps) (joined '' '' (outs @ [[CHR 0x0A]]))"
proof -
  have "sends (print_lit uart_printer_print [CHR 0x0A]) [CHR 0x0A]" by (rule sends_lit) simp
  then have "list_all2 sends (ps @ [print_lit uart_printer_print [CHR 0x0A]]) (outs @ [[CHR 0x0A]])"
    using assms by (simp add: list_all2_appendI)
  from sends_spacing [OF this] show ?thesis by (simp add: sends_def consoleln_def console_def)
qed


end
