(* ===== verification/Processor.thy ===== *)
theory Processor
  imports TwoMath
begin

unbundle bit_operations_syntax

text \<open>
  The processor state of the 32-bit target: the program status register with its bit fields, and the
  registers that a task switch saves and loads (kernel/arch/aarch32/processor.hpp and processor.cpp).
  \<open>from\_data\<close> is \<open>bit\_cast\<close> of the 32-bit word, whose fields start at the lowest bit. The instructions
  that read and write the live registers are not modelled.
\<close>

section \<open>Privilege levels and processor modes\<close>

datatype privilege_level = Userspace | Kernel

datatype processor_mode = User | FIQ | IRQ | Supervisor | Monitor | Abort | Hypervisor | Undefined | System

fun mode_bits :: "processor_mode \<Rightarrow> 5 word" where
  "mode_bits User = 0b10000"
| "mode_bits FIQ = 0b10001"
| "mode_bits IRQ = 0b10010"
| "mode_bits Supervisor = 0b10011"
| "mode_bits Monitor = 0b10110"
| "mode_bits Abort = 0b10111"
| "mode_bits Hypervisor = 0b11010"
| "mode_bits Undefined = 0b11011"
| "mode_bits System = 0b11111"

text \<open>The name that is printed for the mode field, which need not be an enumerator.\<close>

definition mode_str :: "5 word \<Rightarrow> string" where
  "mode_str m =
     (if m = mode_bits User then ''user''
      else if m = mode_bits FIQ then ''fiq''
      else if m = mode_bits IRQ then ''irq''
      else if m = mode_bits Supervisor then ''super''
      else if m = mode_bits Monitor then ''monitor''
      else if m = mode_bits Abort then ''abort''
      else if m = mode_bits Hypervisor then ''hyper''
      else if m = mode_bits Undefined then ''undef''
      else if m = mode_bits System then ''sys''
      else '''')"

section \<open>The program status register\<close>

record cpsr =
  cpsr_m :: "5 word"
  cpsr_t :: "1 word"
  cpsr_f :: "1 word"
  cpsr_i :: "1 word"
  cpsr_a :: "1 word"
  cpsr_e :: "1 word"
  cpsr_it_1 :: "6 word"
  cpsr_ge :: "4 word"
  cpsr_reserved :: "4 word"
  cpsr_j :: "1 word"
  cpsr_it_2 :: "2 word"
  cpsr_q :: "1 word"
  cpsr_v :: "1 word"
  cpsr_c :: "1 word"
  cpsr_z :: "1 word"
  cpsr_n :: "1 word"

definition cpsr_of_mode :: "processor_mode \<Rightarrow> cpsr" where
  "cpsr_of_mode mode = \<lparr>cpsr_m = mode_bits mode, cpsr_t = 0, cpsr_f = 0, cpsr_i = 0, cpsr_a = 0,
     cpsr_e = 0, cpsr_it_1 = 0, cpsr_ge = 0, cpsr_reserved = 0, cpsr_j = 0, cpsr_it_2 = 0,
     cpsr_q = 0, cpsr_v = 0, cpsr_c = 0, cpsr_z = 0, cpsr_n = 0\<rparr>"

definition cpsr_from_data :: "u32 \<Rightarrow> cpsr" where
  "cpsr_from_data d = \<lparr>cpsr_m = ucast d, cpsr_t = ucast (drop_bit 5 d), cpsr_f = ucast (drop_bit 6 d),
     cpsr_i = ucast (drop_bit 7 d), cpsr_a = ucast (drop_bit 8 d), cpsr_e = ucast (drop_bit 9 d),
     cpsr_it_1 = ucast (drop_bit 10 d), cpsr_ge = ucast (drop_bit 16 d),
     cpsr_reserved = ucast (drop_bit 20 d), cpsr_j = ucast (drop_bit 24 d),
     cpsr_it_2 = ucast (drop_bit 25 d), cpsr_q = ucast (drop_bit 27 d), cpsr_v = ucast (drop_bit 28 d),
     cpsr_c = ucast (drop_bit 29 d), cpsr_z = ucast (drop_bit 30 d), cpsr_n = ucast (drop_bit 31 d)\<rparr>"

text \<open>The word that \<open>set\_as\_cpsr\<close> loads: the object's representation.\<close>

definition cpsr_data :: "cpsr \<Rightarrow> u32" where
  "cpsr_data c = ucast (cpsr_m c) OR push_bit 5 (ucast (cpsr_t c)) OR push_bit 6 (ucast (cpsr_f c))
     OR push_bit 7 (ucast (cpsr_i c)) OR push_bit 8 (ucast (cpsr_a c)) OR push_bit 9 (ucast (cpsr_e c))
     OR push_bit 10 (ucast (cpsr_it_1 c)) OR push_bit 16 (ucast (cpsr_ge c))
     OR push_bit 20 (ucast (cpsr_reserved c)) OR push_bit 24 (ucast (cpsr_j c))
     OR push_bit 25 (ucast (cpsr_it_2 c)) OR push_bit 27 (ucast (cpsr_q c))
     OR push_bit 28 (ucast (cpsr_v c)) OR push_bit 29 (ucast (cpsr_c c))
     OR push_bit 30 (ucast (cpsr_z c)) OR push_bit 31 (ucast (cpsr_n c))"

definition are_interrupts_disabled :: "cpsr \<Rightarrow> bool" where
  "are_interrupts_disabled c \<longleftrightarrow> cpsr_f c \<noteq> 0 \<or> cpsr_i c \<noteq> 0 \<or> cpsr_a c \<noteq> 0"

definition in_privileged_mode :: "cpsr \<Rightarrow> bool" where
  "in_privileged_mode c \<longleftrightarrow> cpsr_m c \<noteq> mode_bits User \<and> cpsr_m c \<noteq> mode_bits System"

definition disable_interrupts :: "cpsr \<Rightarrow> cpsr" where
  "disable_interrupts c = c\<lparr>cpsr_f := 1, cpsr_i := 1, cpsr_a := 1\<rparr>"

text \<open>
  \<open>InterruptDisabler\<close>: its constructor sets the mask of interrupts (\<open>cpsid i\<close>) and its destructor clears it
  (\<open>cpsie i\<close>), also when interrupts were masked before.
\<close>

definition interrupt_disabler_ctor :: "cpsr \<Rightarrow> cpsr" where
  "interrupt_disabler_ctor c = c\<lparr>cpsr_i := 1\<rparr>"

definition interrupt_disabler_dtor :: "cpsr \<Rightarrow> cpsr" where
  "interrupt_disabler_dtor c = c\<lparr>cpsr_i := 0\<rparr>"

lemma nested_disabler_enables:
  "cpsr_i (interrupt_disabler_dtor (interrupt_disabler_ctor (interrupt_disabler_ctor c))) = 0"
  by (simp add: interrupt_disabler_dtor_def)

section \<open>The registers of a task\<close>

record registers =
  reg_cpsr :: cpsr
  reg_user_sp :: u32
  reg_user_lr :: u32
  reg_kernel_sp :: u32
  reg_kernel_lr :: u32
  reg_r0 :: u32
  reg_r1 :: u32
  reg_r2 :: u32
  reg_r3 :: u32
  reg_r4 :: u32
  reg_r5 :: u32
  reg_r6 :: u32
  reg_r7 :: u32
  reg_r8 :: u32
  reg_r9 :: u32
  reg_r10 :: u32
  reg_r11 :: u32
  reg_r12 :: u32
  reg_pc :: u32

definition registers_new :: "u32 \<Rightarrow> u32 \<Rightarrow> u32 \<Rightarrow> u32 \<Rightarrow> privilege_level \<Rightarrow> registers" where
  "registers_new user_sp kernel_sp user_pc stop_addr level =
     \<lparr>reg_cpsr = cpsr_of_mode (if level = Kernel then Supervisor else User),
      reg_user_sp = user_sp, reg_user_lr = stop_addr, reg_kernel_sp = kernel_sp, reg_kernel_lr = stop_addr,
      reg_r0 = 0, reg_r1 = 0, reg_r2 = 0, reg_r3 = 0, reg_r4 = 0, reg_r5 = 0, reg_r6 = 0, reg_r7 = 0,
      reg_r8 = 0, reg_r9 = 0, reg_r10 = 0, reg_r11 = 0, reg_r12 = 0, reg_pc = user_pc\<rparr>"

definition is_kernel_registers :: "registers \<Rightarrow> bool" where
  "is_kernel_registers r \<longleftrightarrow> reg_user_sp r = reg_kernel_sp r"

section \<open>The fields are the word\<close>

lemma field_bits:
  "1 \<le> n \<Longrightarrow> \<not> bit (w1 :: 1 word) n" "2 \<le> n \<Longrightarrow> \<not> bit (w2 :: 2 word) n"
  "4 \<le> n \<Longrightarrow> \<not> bit (w4 :: 4 word) n" "5 \<le> n \<Longrightarrow> \<not> bit (w5 :: 5 word) n"
  "6 \<le> n \<Longrightarrow> \<not> bit (w6 :: 6 word) n"
  by (auto dest: bit_imp_le_length)

lemma cpsr_data_bits:
  "list_all (\<lambda>k. bit (cpsr_data (cpsr_from_data d)) k = bit d k)
    [0, 1, 2, 3, 4, 5, 6, 7, 8, 9, 10, 11, 12, 13, 14, 15, 16, 17, 18, 19, 20, 21, 22, 23, 24, 25, 26,
     27, 28, 29, 30, 31]"
  by (simp add: cpsr_data_def cpsr_from_data_def bit_simps field_bits)

lemma upt_32:
  "[0..<32] = [0, 1, 2, 3, 4, 5, 6, 7, 8, 9, 10, 11, 12, 13, 14, 15, 16, 17, 18, 19, 20, 21, 22, 23, 24,
     25, 26, 27, 28, 29, 30, 31]"
  by code_simp

lemma cpsr_data_from_data: "cpsr_data (cpsr_from_data d) = d"
proof (rule bit_word_eqI)
  fix k assume "k < LENGTH(32)"
  then have "k \<in> set [0..<32]" by simp
  then show "bit (cpsr_data (cpsr_from_data d)) k = bit d k"
    using cpsr_data_bits [of d] unfolding upt_32 list_all_iff by (rule bspec [rotated])
qed

lemma word_1_eq: "(v :: 1 word) = w \<longleftrightarrow> bit v 0 = bit w 0"
  by (auto simp: bit_eq_iff less_Suc_eq dest: bit_imp_le_length) (metis bit_imp_le_length len_num1 less_one)+

lemma field_data:
  "ucast (cpsr_data c) = cpsr_m c" "ucast (drop_bit 5 (cpsr_data c)) = cpsr_t c"
  "ucast (drop_bit 6 (cpsr_data c)) = cpsr_f c" "ucast (drop_bit 7 (cpsr_data c)) = cpsr_i c"
  "ucast (drop_bit 8 (cpsr_data c)) = cpsr_a c" "ucast (drop_bit 9 (cpsr_data c)) = cpsr_e c"
  "ucast (drop_bit 24 (cpsr_data c)) = cpsr_j c"
  "ucast (drop_bit 27 (cpsr_data c)) = cpsr_q c" "ucast (drop_bit 28 (cpsr_data c)) = cpsr_v c"
  "ucast (drop_bit 29 (cpsr_data c)) = cpsr_c c" "ucast (drop_bit 30 (cpsr_data c)) = cpsr_z c"
  "ucast (drop_bit 31 (cpsr_data c)) = cpsr_n c"
  subgoal by (rule bit_word_eqI) (simp add: cpsr_data_def bit_simps)
  by (simp_all add: word_1_eq cpsr_data_def bit_simps field_bits)

lemma field_it_1: "ucast (drop_bit 10 (cpsr_data c)) = cpsr_it_1 c"
proof (rule bit_word_eqI)
  fix k assume "k < LENGTH(6)"
  then have "k = 0 \<or> k = 1 \<or> k = 2 \<or> k = 3 \<or> k = 4 \<or> k = 5" by auto
  then show "bit (ucast (drop_bit 10 (cpsr_data c)) :: 6 word) k = bit (cpsr_it_1 c) k"
    by (elim disjE) (simp_all add: cpsr_data_def bit_simps field_bits)
qed

lemma field_ge: "ucast (drop_bit 16 (cpsr_data c)) = cpsr_ge c"
proof (rule bit_word_eqI)
  fix k assume "k < LENGTH(4)"
  then have "k = 0 \<or> k = 1 \<or> k = 2 \<or> k = 3" by auto
  then show "bit (ucast (drop_bit 16 (cpsr_data c)) :: 4 word) k = bit (cpsr_ge c) k"
    by (elim disjE) (simp_all add: cpsr_data_def bit_simps field_bits)
qed

lemma field_reserved: "ucast (drop_bit 20 (cpsr_data c)) = cpsr_reserved c"
proof (rule bit_word_eqI)
  fix k assume "k < LENGTH(4)"
  then have "k = 0 \<or> k = 1 \<or> k = 2 \<or> k = 3" by auto
  then show "bit (ucast (drop_bit 20 (cpsr_data c)) :: 4 word) k = bit (cpsr_reserved c) k"
    by (elim disjE) (simp_all add: cpsr_data_def bit_simps field_bits)
qed

lemma field_it_2: "ucast (drop_bit 25 (cpsr_data c)) = cpsr_it_2 c"
proof (rule bit_word_eqI)
  fix k assume "k < LENGTH(2)"
  then have "k = 0 \<or> k = 1" by auto
  then show "bit (ucast (drop_bit 25 (cpsr_data c)) :: 2 word) k = bit (cpsr_it_2 c) k"
    by (elim disjE) (simp_all add: cpsr_data_def bit_simps field_bits)
qed

text \<open>
  The bit fields of the status register partition its word: decoding a word and taking the
  representation gives the word again, and every field is read back as it was set.
\<close>

lemma cpsr_roundtrip:
  "cpsr_data (cpsr_from_data d) = d \<and> cpsr_from_data (cpsr_data c) = c"
  by (simp add: cpsr_data_from_data)
     (simp add: cpsr_from_data_def field_data field_it_1 field_ge field_reserved field_it_2)

lemma privileged_iff:
  "in_privileged_mode (cpsr_of_mode mode) \<longleftrightarrow> mode \<noteq> User \<and> mode \<noteq> System"
  by (cases mode) (simp_all add: in_privileged_mode_def cpsr_of_mode_def)

text \<open>
  New registers start a user task in user mode and a kernel task in supervisor mode, with
  interrupts enabled; a task switch takes them for a kernel task's exactly when both stack pointers
  agree.
\<close>

lemma registers_new_mode:
  "let r = registers_new usp ksp pc stop level in
     in_privileged_mode (reg_cpsr r) = (level = Kernel) \<and> \<not> are_interrupts_disabled (reg_cpsr r)
     \<and> is_kernel_registers r = (usp = ksp) \<and> reg_pc r = pc"
  by (cases level)
     (simp_all add: registers_new_def in_privileged_mode_def is_kernel_registers_def are_interrupts_disabled_def cpsr_of_mode_def)

end
