(* ===== verification/Tasks.thy ===== *)
theory Tasks
  imports Kfiles Timer Console Processor
begin

text \<open>
  Tasks and their scheduler: kernel/stack.hpp and stack.cpp, kernel/tasks.hpp and tasks.cpp,
  kernel/wait.hpp, and the interrupt handler of kernel/device/bcm2835/interrupts.cpp.

  The tasks are the values of a vector in the kernel's memory, and a reference to a task is the
  address of the vector's memory and an index. \<open>task\_switch\<close>, which is assembly, is recorded in
  the trace of switches: a switch is what the scheduler decides, and the state after an operation
  that switches is the one at the switch. Interrupts are disabled while these operations run, so
  the jiffies do not change in them. A panic is \<open>None\<close>.
\<close>

section \<open>Stacks (stack.cpp)\<close>

record stack =
  sk_size :: size_t
  sk_bottom :: owner

definition stack_try_create :: "'s fs_env \<Rightarrow> size_t \<Rightarrow> 's \<Rightarrow> (stack option \<times> 's) option" where
  "stack_try_create env sz a = do {
     let allocated_size = align_up_two sz PageSize;
     (stack_alloc, a) \<leftarrow> env_allocate env allocated_size a;
     (if \<not> allocation_bool stack_alloc then Some (None, a)
      else Some (Some \<lparr>sk_size = allocated_size, sk_bottom = al_ptr stack_alloc\<rparr>, a))
   }"

definition stack_sp :: "stack \<Rightarrow> ptr" where
  "stack_sp s = sk_bottom s + sk_size s"

text \<open>The owner of the stack's bottom was made for one word, so it frees one word.\<close>

definition stack_dtor :: "'s fs_env \<Rightarrow> stack \<Rightarrow> 's \<Rightarrow> 's option" where
  "stack_dtor env s a = owner_dtor (env_free env) 4 (sk_bottom s) a"

definition maybe_stack_dtor :: "'s fs_env \<Rightarrow> stack option \<Rightarrow> 's \<Rightarrow> 's option" where
  "maybe_stack_dtor env ms a = (case ms of None \<Rightarrow> Some a | Some s \<Rightarrow> stack_dtor env s a)"

section \<open>The heap of a task\<close>

text \<open>
  A \<open>Heap\<close> binds a high watermark allocator to a fixed allocation through a pointer to its own
  member. A copy of a heap keeps the pointer to the member of the original; \<open>None\<close> is that
  pointer once the original is gone.
\<close>

record task_heap =
  heap_fallback :: "fixed_allocation option"
  heap_allocator :: high_watermark

definition heap_new :: "ptr \<Rightarrow> size_t \<Rightarrow> task_heap" where
  "heap_new start sz = \<lparr>heap_fallback = Some (fixed_allocation_new start sz), heap_allocator = hw_empty\<rparr>"

definition heap_copy_outlives :: "task_heap \<Rightarrow> task_heap" where
  "heap_copy_outlives h = h\<lparr>heap_fallback := None\<rparr>"

text \<open>The fallback through the pointer.\<close>

definition fallback_allocate ::
    "size_t \<Rightarrow> fixed_allocation option \<Rightarrow> (allocation \<times> fixed_allocation option) option" where
  "fallback_allocate n f = do { f \<leftarrow> f; (al, f) \<leftarrow> fa_allocate n f; Some (al, Some f) }"

definition heap_allocate :: "size_t \<Rightarrow> task_heap \<Rightarrow> (allocation \<times> task_heap) option" where
  "heap_allocate n h = do {
     (al, (f, i)) \<leftarrow> binder_allocate fallback_allocate hw_allocate hw_add hw_preferred_size n
       (heap_fallback h, heap_allocator h);
     Some (al, h\<lparr>heap_fallback := f, heap_allocator := i\<rparr>)
   }"

section \<open>Tasks\<close>

datatype task_state = New | Runnable | Waiting

datatype create_flags = CreateUserTask | CreateKernelTask

text \<open>What a task can wait for: the end of a sleep, or the request of the UART.\<close>

datatype waitable = SleepWaitable u32 | RequestWaitable

record task =
  t_name :: str
  t_state :: task_state
  t_user_stack :: "stack option"
  t_kernel_stack :: stack
  t_registers :: registers
  t_heap :: task_heap
  t_jiffies_when_scheduled :: u32
  t_cpu_jiffies :: u32
  t_waiting_for :: "waitable option"
  t_fd_table :: fd_table

text \<open>
  The state of the kernel: the files with the allocator, the bytes of the strings, the task manager,
  the devices, and the switches so far.
\<close>

record switch =
  sw_save :: "nat option"
  sw_save_is_kernel :: bool
  sw_registers :: registers
  sw_is_kernel :: bool

record 's kernel =
  k_fs :: "'s fs"
  k_bytes :: bytes
  k_tasks :: vector
  k_task_store :: "task store"
  k_running_task_index :: u32
  k_timer :: system_timer
  k_request :: uart_request
  k_uart :: uart
  k_switches :: "switch list"

text \<open>What the kernel is linked with: the allocator, memory contents, addresses and sizes.\<close>

record 's kernel_env =
  ke_fs :: "'s fs_env"
  ke_garbage :: "ptr \<Rightarrow> nat \<Rightarrow> char list"
  ke_halt_addr :: ptr
  ke_shell_addr :: ptr
  ke_spin_addr :: ptr
  ke_sizeof_task :: size_t

definition task_new ::
    "str \<Rightarrow> task_heap \<Rightarrow> stack \<Rightarrow> stack option \<Rightarrow> registers \<Rightarrow> fd_table \<Rightarrow> task" where
  "task_new name h kernel_stack user_stack regs fd_table =
     \<lparr>t_name = name, t_state = New, t_user_stack = user_stack, t_kernel_stack = kernel_stack,
      t_registers = regs, t_heap = heap_copy_outlives h, t_jiffies_when_scheduled = 0, t_cpu_jiffies = 0,
      t_waiting_for = None, t_fd_table = fd_table\<rparr>"

definition construct_user_task_registers :: "ptr \<Rightarrow> stack \<Rightarrow> stack \<Rightarrow> ptr \<Rightarrow> registers" where
  "construct_user_task_registers halt_addr stack kernel_stack pc =
     registers_new (stack_sp stack) (stack_sp kernel_stack) pc halt_addr Userspace"

definition construct_kernel_task_registers :: "ptr \<Rightarrow> stack \<Rightarrow> ptr \<Rightarrow> registers option" where
  "construct_kernel_task_registers halt_addr kernel_stack pc =
     (let regs = registers_new (stack_sp kernel_stack) (stack_sp kernel_stack) pc halt_addr Kernel
      in if \<not> is_kernel_registers regs then None else Some regs)"

definition set_alloc :: "'s \<Rightarrow> 's kernel \<Rightarrow> 's kernel" where
  "set_alloc a k = k\<lparr>k_fs := (k_fs k)\<lparr>fs_alloc := a\<rparr>\<rparr>"

text \<open>The stacks that \<open>try\_create\<close> gives up when it fails, and the whole of what it built before the task.\<close>

definition drop_stacks :: "'s kernel_env \<Rightarrow> stack option \<Rightarrow> stack \<Rightarrow> 's kernel \<Rightarrow> 's kernel option" where
  "drop_stacks env user_stack kernel_stack k = do {
     a \<leftarrow> maybe_stack_dtor (ke_fs env) user_stack (fs_alloc (k_fs k));
     a \<leftarrow> stack_dtor (ke_fs env) kernel_stack a;
     Some (set_alloc a k)
   }"

definition drop_table :: "'s kernel_env \<Rightarrow> fd_table \<Rightarrow> 's kernel \<Rightarrow> 's kernel option" where
  "drop_table env fd_table k = do {
     (st, a) \<leftarrow> vec_dtor (env_free (ke_fs env)) sizeof_descriptor
       (fd_table, fs_descriptors (k_fs k), fs_alloc (k_fs k));
     Some (set_alloc a (k\<lparr>k_fs := (k_fs k)\<lparr>fs_descriptors := st\<rparr>\<rparr>))
   }"

definition drop_name :: "'s kernel_env \<Rightarrow> str \<Rightarrow> 's kernel \<Rightarrow> 's kernel option" where
  "drop_name env name k = do {
     (b, a) \<leftarrow> str_dtor (env_free (ke_fs env)) name (k_bytes k, fs_alloc (k_fs k));
     Some (set_alloc a (k\<lparr>k_bytes := b\<rparr>))
   }"

definition drop_all ::
    "'s kernel_env \<Rightarrow> fd_table \<Rightarrow> str \<Rightarrow> stack option \<Rightarrow> stack \<Rightarrow> 's kernel \<Rightarrow> 's kernel option" where
  "drop_all env fd_table name user_stack kernel_stack k = do {
     k \<leftarrow> drop_table env fd_table k;
     k \<leftarrow> drop_name env name k;
     drop_stacks env user_stack kernel_stack k
   }"

text \<open>The destructor of a task: its members in reverse order. The memory of the heap is not given up.\<close>

definition task_dtor :: "'s kernel_env \<Rightarrow> task \<Rightarrow> 's kernel \<Rightarrow> 's kernel option" where
  "task_dtor env t k = do {
     k \<leftarrow> drop_table env (t_fd_table t) k;
     a \<leftarrow> stack_dtor (ke_fs env) (t_kernel_stack t) (fs_alloc (k_fs k));
     a \<leftarrow> maybe_stack_dtor (ke_fs env) (t_user_stack t) a;
     drop_name env (t_name t) (set_alloc a k)
   }"

definition heap_size :: size_t where "heap_size = 4 * 1048576"

definition kernel_stack_size :: size_t where "kernel_stack_size = 8 * PageSize"

definition user_stack_size :: size_t where "user_stack_size = 2 * 1048576"

text \<open>
  The descriptors 0 and 1. The failure value is compared with \<open>-1\<close> only. The result says whether the
  task can be made.
\<close>

definition open_standard_files ::
    "'s kernel_env \<Rightarrow> 's kernel \<Rightarrow> ((bool \<times> fd_table) \<times> 's kernel) option" where
  "open_standard_files env k = do {
     (stdin_fd, fd_table, fs) \<leftarrow> fdt_open (ke_fs env) (''/dev/zero'' @ [NUL]) ModeRead vec_empty (k_fs k);
     let k = k\<lparr>k_fs := fs\<rparr>;
     (if stdin_fd = - 1 then Some ((False, fd_table), k)
      else do {
        (stdout_fd, fd_table, fs) \<leftarrow> fdt_open (ke_fs env) (''/dev/null'' @ [NUL]) ModeWrite fd_table (k_fs k);
        Some ((stdout_fd \<noteq> - 1, fd_table), k\<lparr>k_fs := fs\<rparr>)
      })
   }"

text \<open>\<open>try\_create\<close> from the allocation of the heap on, with both stacks made.\<close>

definition task_try_create_rest ::
    "'s kernel_env \<Rightarrow> char list \<Rightarrow> registers \<Rightarrow> stack option \<Rightarrow> stack \<Rightarrow> 's kernel
       \<Rightarrow> (task option \<times> 's kernel) option" where
  "task_try_create_rest env name regs user_stack kernel_stack k = do {
     (heap_alloc, a) \<leftarrow> env_allocate (ke_fs env) heap_size (fs_alloc (k_fs k));
     let k = set_alloc a k;
     (if \<not> allocation_bool heap_alloc then do {
        k \<leftarrow> drop_stacks env user_stack kernel_stack k;
        Some (None, k)
      }
      else do {
        let h = heap_new (al_ptr heap_alloc) (al_ptr heap_alloc + heap_size);
        (maybe_name, b, a) \<leftarrow> str_try_create (env_allocate (ke_fs env)) (ke_garbage env) name
          (k_bytes k, fs_alloc (k_fs k));
        let k = set_alloc a (k\<lparr>k_bytes := b\<rparr>);
        (case maybe_name of
           None \<Rightarrow> do { k \<leftarrow> drop_stacks env user_stack kernel_stack k; Some (None, k) }
         | Some task_name \<Rightarrow> do {
             ((ok, fd_table), k) \<leftarrow> open_standard_files env k;
             (if \<not> ok then do {
                k \<leftarrow> drop_all env fd_table task_name user_stack kernel_stack k;
                Some (None, k)
              }
              else Some (Some (task_new task_name h kernel_stack user_stack regs fd_table), k))
           })
      })
   }"

definition task_try_create ::
    "'s kernel_env \<Rightarrow> char list \<Rightarrow> ptr \<Rightarrow> create_flags \<Rightarrow> 's kernel \<Rightarrow> (task option \<times> 's kernel) option" where
  "task_try_create env name pc flags k = do {
     (maybe_kernel_stack, a) \<leftarrow> stack_try_create (ke_fs env) kernel_stack_size (fs_alloc (k_fs k));
     let k = set_alloc a k;
     (case maybe_kernel_stack of None \<Rightarrow> Some (None, k)
      | Some kernel_stack \<Rightarrow>
          if flags \<noteq> CreateKernelTask then do {
            (maybe_stack, a) \<leftarrow> stack_try_create (ke_fs env) user_stack_size (fs_alloc (k_fs k));
            let k = set_alloc a k;
            (case maybe_stack of None \<Rightarrow> do { k \<leftarrow> drop_stacks env None kernel_stack k; Some (None, k) }
             | Some user_stack \<Rightarrow>
                 task_try_create_rest env name
                   (construct_user_task_registers (ke_halt_addr env) user_stack kernel_stack pc)
                   (Some user_stack) kernel_stack k)
          }
          else do {
            regs \<leftarrow> construct_kernel_task_registers (ke_halt_addr env) kernel_stack pc;
            task_try_create_rest env name regs None kernel_stack k
          })
   }"

section \<open>Operations of a task\<close>

definition task_is_kernel_task :: "task \<Rightarrow> bool" where
  "task_is_kernel_task t = is_kernel_registers (t_registers t)"

definition can_run :: "task \<Rightarrow> bool" where
  "can_run t \<longleftrightarrow> t_state t = New \<or> t_state t = Runnable"

definition sleep_waitable :: "u32 \<Rightarrow> u32 \<Rightarrow> waitable" where
  "sleep_waitable now secs = SleepWaitable (now + secs * SYS_HZ)"

definition waitable_is_finished :: "u32 \<Rightarrow> uart_request \<Rightarrow> waitable \<Rightarrow> bool" where
  "waitable_is_finished now rq w =
     (case w of SleepWaitable sleep_end_time \<Rightarrow> sleep_end_time \<le> now
      | RequestWaitable \<Rightarrow> request_is_finished rq)"

definition update_state :: "u32 \<Rightarrow> uart_request \<Rightarrow> task \<Rightarrow> task" where
  "update_state now rq t =
     (if t_state t = Waiting \<and> (case t_waiting_for t of None \<Rightarrow> False | Some w \<Rightarrow> waitable_is_finished now rq w)
      then t\<lparr>t_state := Runnable\<rparr> else t)"

definition k_jiffies :: "'s kernel \<Rightarrow> u32" where
  "k_jiffies k = jiffies (k_timer k)"

definition get_task :: "'s kernel \<Rightarrow> nat \<Rightarrow> task option" where
  "get_task k i = slot_get (k_task_store k) (v_contents (k_tasks k)) i"

definition put_task :: "nat \<Rightarrow> task \<Rightarrow> 's kernel \<Rightarrow> 's kernel option" where
  "put_task i t k = do {
     st \<leftarrow> slot_put (k_task_store k) (v_contents (k_tasks k)) i (Some t);
     Some (k\<lparr>k_task_store := st\<rparr>)
   }"

definition running_task :: "'s kernel \<Rightarrow> task option" where
  "running_task k = get_task k (unat (k_running_task_index k))"

text \<open>\<open>start\<close>: the saved registers are those of the task with the given index, or none.\<close>

definition task_start :: "nat \<Rightarrow> nat option \<Rightarrow> bool \<Rightarrow> 's kernel \<Rightarrow> 's kernel option" where
  "task_start i to_save is_kernel_task_to_save k = do {
     t \<leftarrow> get_task k i;
     let t = t\<lparr>t_state := Runnable\<rparr>;
     let t = t\<lparr>t_jiffies_when_scheduled := k_jiffies k\<rparr>;
     k \<leftarrow> put_task i t k;
     Some (k\<lparr>k_switches := k_switches k @ [\<lparr>sw_save = to_save, sw_save_is_kernel = is_kernel_task_to_save,
       sw_registers = t_registers t, sw_is_kernel = task_is_kernel_task t\<rparr>]\<rparr>)
   }"

definition task_switch_to :: "nat \<Rightarrow> nat \<Rightarrow> 's kernel \<Rightarrow> 's kernel option" where
  "task_switch_to i to_run k = do {
     t \<leftarrow> get_task k i;
     let t = t\<lparr>t_cpu_jiffies := t_cpu_jiffies t + (k_jiffies k - t_jiffies_when_scheduled t)\<rparr>;
     k \<leftarrow> put_task i t k;
     task_start to_run (Some i) (task_is_kernel_task t) k
   }"

definition task_cputime :: "nat \<Rightarrow> 's kernel \<Rightarrow> u32 option" where
  "task_cputime i k = do {
     t \<leftarrow> get_task k i;
     Some (if unat (k_running_task_index k) = i
       then t_cpu_jiffies t + k_jiffies k - t_jiffies_when_scheduled t
       else t_cpu_jiffies t)
   }"

definition task_sbrk :: "size_t \<Rightarrow> task \<Rightarrow> (ptr \<times> task) option" where
  "task_sbrk increase t = do {
     (al, h) \<leftarrow> heap_allocate increase (t_heap t);
     Some (al_ptr al, t\<lparr>t_heap := h\<rparr>)
   }"

definition userspace_buffer_is_valid :: "size_t \<Rightarrow> int" where
  "userspace_buffer_is_valid bytes = (if ssize_max < bytes then - errno_int EFBIG else 0)"

section \<open>The task manager\<close>

partial_function (option) pick_next_task :: "'s kernel \<Rightarrow> 's kernel option" where
  "pick_next_task k =
     (let i = k_running_task_index k + 1;
          i = (if v_count (k_tasks k) \<le> i then 0 else i);
          k = k\<lparr>k_running_task_index := i\<rparr>
      in case get_task k (unat i) of
           None \<Rightarrow> None
         | Some t \<Rightarrow>
             (let t = update_state (k_jiffies k) (k_request k) t
              in case put_task (unat i) t k of
                   None \<Rightarrow> None
                 | Some k \<Rightarrow> if can_run t then Some k else pick_next_task k))"

declare pick_next_task.simps [code]

definition schedule :: "'s kernel \<Rightarrow> 's kernel option" where
  "schedule k = do {
     let curr_task = unat (k_running_task_index k);
     k \<leftarrow> pick_next_task k;
     let to_run_task = unat (k_running_task_index k);
     (if to_run_task = curr_task then Some k
      else task_switch_to curr_task to_run_task k)
   }"

definition reschedule_while_waiting_for :: "waitable \<Rightarrow> 's kernel \<Rightarrow> 's kernel option" where
  "reschedule_while_waiting_for wait_for k = do {
     let i = unat (k_running_task_index k);
     t \<leftarrow> get_task k i;
     let t = t\<lparr>t_state := Waiting, t_waiting_for := Some wait_for\<rparr>;
     k \<leftarrow> put_task i t k;
     schedule k
   }"

definition task_sleep :: "u32 \<Rightarrow> 's kernel \<Rightarrow> 's kernel option" where
  "task_sleep secs k = reschedule_while_waiting_for (sleep_waitable (k_jiffies k) secs) k"

definition start_scheduler :: "'s kernel \<Rightarrow> 's kernel option" where
  "start_scheduler k = task_start 0 None False k"

text \<open>Whether the append worked is not checked; a task that was not moved is destroyed.\<close>

definition try_create_task ::
    "'s kernel_env \<Rightarrow> char list \<Rightarrow> ptr \<Rightarrow> create_flags \<Rightarrow> 's kernel \<Rightarrow> (bool \<times> 's kernel) option" where
  "try_create_task env name start_addr flags k = do {
     (maybe_task, k) \<leftarrow> task_try_create env name start_addr flags k;
     (case maybe_task of None \<Rightarrow> Some (False, k)
      | Some t \<Rightarrow> do {
          (ok, (tasks, st, a)) \<leftarrow> vec_append (env_allocate (ke_fs env)) (env_free (ke_fs env)) (ke_sizeof_task env)
            t (k_tasks k, k_task_store k, fs_alloc (k_fs k));
          let k = set_alloc a (k\<lparr>k_tasks := tasks, k_task_store := st\<rparr>);
          k \<leftarrow> (if ok then Some k else task_dtor env t k);
          Some (True, k)
        })
   }"

definition task_manager_new :: "'s kernel_env \<Rightarrow> 's kernel \<Rightarrow> 's kernel option" where
  "task_manager_new env k = do {
     let k = k\<lparr>k_tasks := vec_empty, k_running_task_index := 0\<rparr>;
     (ok, k) \<leftarrow> try_create_task env (''shell'' @ [NUL]) (ke_shell_addr env) CreateUserTask k;
     (if \<not> ok then None
      else do {
        (ok, k) \<leftarrow> try_create_task env (''spin'' @ [NUL]) (ke_spin_addr env) CreateKernelTask k;
        (if \<not> ok then None else Some k)
      })
   }"

text \<open>
  The message is polled out on the UART. The destructor of the removed task runs first in \<open>remove\<close>; the
  result of \<open>remove\<close> is not used.
\<close>

definition exit_running_task :: "'s kernel_env \<Rightarrow> int \<Rightarrow> 's kernel \<Rightarrow> 's kernel option" where
  "exit_running_task env code k = do {
     t \<leftarrow> running_task k;
     name \<leftarrow> str_view (k_bytes k) (t_name t);
     u \<leftarrow> consoleln [print_with_view uart_printer_print name, print_lit uart_printer_print ''has exited with code:'',
       print_with_int uart_printer_print CInt code] (k_uart k);
     let k = k\<lparr>k_uart := u\<rparr>;
     k \<leftarrow> (if k_running_task_index k < v_count (k_tasks k) then do {
             t \<leftarrow> running_task k;
             task_dtor env t k
           } else Some k);
     (_, (tasks, st, a)) \<leftarrow> vec_remove (env_allocate (ke_fs env)) (env_free (ke_fs env)) (ke_sizeof_task env)
       (k_running_task_index k) (k_tasks k, k_task_store k, fs_alloc (k_fs k));
     k \<leftarrow> pick_next_task (set_alloc a (k\<lparr>k_tasks := tasks, k_task_store := st\<rparr>));
     task_start (unat (k_running_task_index k)) None False k
   }"

definition tasks_init :: "'s kernel_env \<Rightarrow> 's kernel \<Rightarrow> 's kernel option" where
  "tasks_init env k = do { k \<leftarrow> task_manager_new env k; start_scheduler k }"

section \<open>The scheduler picks round robin\<close>

definition tasks_are :: "'s kernel \<Rightarrow> task list \<Rightarrow> bool" where
  "tasks_are k ts \<longleftrightarrow> (\<exists>sz. vec_rep sz (k_tasks k) (k_task_store k) ts)"

lemma tasks_are_cong [simp]:
  "tasks_are (k\<lparr>k_running_task_index := i\<rparr>) ts = tasks_are k ts"
  "tasks_are (k\<lparr>k_switches := sw\<rparr>) ts = tasks_are k ts"
  by (simp_all add: tasks_are_def)

lemma tasks_are_count: "tasks_are k ts \<Longrightarrow> unat (v_count (k_tasks k)) = length ts"
  by (auto simp: tasks_are_def dest: vec_rep_count)

lemma get_task_ok: "tasks_are k ts \<Longrightarrow> i < length ts \<Longrightarrow> get_task k i = Some (ts ! i)"
  by (auto simp: tasks_are_def get_task_def dest: vec_rep_get)

lemma put_task_ok:
  assumes "tasks_are k ts" and "i < length ts"
  shows "\<exists>st. put_task i t k = Some (k\<lparr>k_task_store := st\<rparr>) \<and> tasks_are (k\<lparr>k_task_store := st\<rparr>) (ts[i := t])"
proof -
  obtain sz where "vec_rep sz (k_tasks k) (k_task_store k) ts" using assms(1) by (auto simp: tasks_are_def)
  from slot_put_rep [OF this assms(2), of t]
  obtain st where "slot_put (k_task_store k) (v_contents (k_tasks k)) i (Some t) = Some st"
      "vec_rep sz (k_tasks k) st (ts[i := t])" by blast
  then show ?thesis by (auto simp: put_task_def tasks_are_def)
qed

lemma put_task_same:
  assumes "get_task k i = Some t"
  shows "put_task i t k = Some k"
proof -
  obtain slots where s: "k_task_store k (v_contents (k_tasks k)) = Some slots" "i < length slots" "slots ! i = Some t"
    using assms by (auto simp: get_task_def slot_get_def split: bind_splits if_splits)
  then have "slots[i := Some t] = slots" by (metis list_update_id)
  then have "(k_task_store k)(v_contents (k_tasks k) \<mapsto> slots[i := Some t]) = k_task_store k"
    using s(1) by (simp add: fun_upd_idem)
  then show ?thesis using s by (simp add: put_task_def slot_put_def)
qed

abbreviation updated :: "'s kernel \<Rightarrow> task \<Rightarrow> task" where
  "updated k t \<equiv> update_state (k_jiffies k) (k_request k) t"

text \<open>A task that can run, after its wait was checked.\<close>

definition ready :: "'s kernel \<Rightarrow> task \<Rightarrow> bool" where
  "ready k t \<longleftrightarrow> can_run (updated k t)"

lemma not_ready_same: "\<not> ready k t \<Longrightarrow> updated k t = t"
  by (auto simp: ready_def update_state_def can_run_def)

lemma ready_iff:
  "ready k t \<longleftrightarrow> t_state t \<noteq> Waiting
     \<or> (\<exists>w. t_waiting_for t = Some w \<and> waitable_is_finished (k_jiffies k) (k_request k) w)"
  by (cases "t_state t") (auto simp: ready_def can_run_def update_state_def split: option.splits)

definition next_index :: "nat \<Rightarrow> nat \<Rightarrow> nat" where
  "next_index n r = (if n \<le> r + 1 then 0 else r + 1)"

text \<open>The order in which the tasks after the one with index \<open>r\<close> are looked at.\<close>

definition round :: "nat \<Rightarrow> nat \<Rightarrow> nat list" where
  "round n r = [r + 1..<n] @ [0..<min (r + 1) n]"

lemma round_set: "set (round n r) = {..<n}"
  by (auto simp: round_def)

fun chain :: "nat \<Rightarrow> nat \<Rightarrow> nat list \<Rightarrow> bool" where
  "chain n r [] \<longleftrightarrow> True"
| "chain n r (x # xs) \<longleftrightarrow> x = next_index n r \<and> chain n x xs"

lemma chain_append: "chain n r (xs @ ys) \<longleftrightarrow> chain n r xs \<and> chain n (if xs = [] then r else last xs) ys"
  by (induction xs arbitrary: r) auto

lemma chain_upt: "b \<le> n \<Longrightarrow> chain n a [a + 1..<b]"
proof (induction "b - a" arbitrary: a)
  case (Suc d)
  then show ?case
    by (cases "a + 1 < b") (simp_all add: upt_conv_Cons next_index_def)
qed simp

lemma chain_round:
  assumes "0 < n"
  shows "chain n r (round n r)"
proof -
  have "chain n r [r + 1..<n]" by (rule chain_upt) simp
  moreover have "chain n l [0..<min (r + 1) n]" if "n \<le> l + 1" for l
  proof -
    have "[0..<min (r + 1) n] = 0 # [0 + 1..<min (r + 1) n]"
      using assms by (simp add: upt_conv_Cons)
    then show ?thesis using that chain_upt [of "min (r + 1) n" n 0] by (simp add: next_index_def)
  qed
  ultimately show ?thesis
    unfolding round_def chain_append by (simp add: next_index_def)
qed

text \<open>One turn of the loop, with \<open>f\<close> for the turns that follow.\<close>

definition pick_turn :: "('s kernel \<Rightarrow> 's kernel option) \<Rightarrow> 's kernel \<Rightarrow> 's kernel option" where
  "pick_turn f k =
     (let i = k_running_task_index k + 1;
          i = (if v_count (k_tasks k) \<le> i then 0 else i);
          k = k\<lparr>k_running_task_index := i\<rparr>
      in case get_task k (unat i) of
           None \<Rightarrow> None
         | Some t \<Rightarrow>
             (let t = update_state (k_jiffies k) (k_request k) t
              in case put_task (unat i) t k of
                   None \<Rightarrow> None
                 | Some k \<Rightarrow> if can_run t then Some k else f k))"

lemma pick_next_task_turn: "pick_next_task k = pick_turn pick_next_task k"
  by (subst pick_next_task.simps) (simp only: pick_turn_def)

lemma pick_turn_ok:
  assumes ts: "tasks_are k ts" and r: "unat (k_running_task_index k) \<le> length ts" and ne: "ts \<noteq> []"
  defines "i \<equiv> next_index (length ts) (unat (k_running_task_index k))"
  shows "pick_turn f k =
    (if ready k (ts ! i)
     then put_task i (updated k (ts ! i)) (k\<lparr>k_running_task_index := of_nat i\<rparr>)
     else f (k\<lparr>k_running_task_index := of_nat i\<rparr>))" and "i < length ts"
    and "unat (of_nat i :: u32) = i"
proof -
  let ?r = "k_running_task_index k"
  have cnt: "unat (v_count (k_tasks k)) = length ts" by (rule tasks_are_count [OF ts])
  then have len: "length ts < 2 ^ 32" using unat_lt_exp [of "v_count (k_tasks k)"] by simp
  show il: "i < length ts" using ne by (simp add: i_def next_index_def)
  have i: "(if v_count (k_tasks k) \<le> ?r + 1 then 0 else ?r + 1) = (of_nat i :: u32)"
  proof (cases "unat ?r + 1 < 2 ^ 32")
    case True
    then have "unat (?r + 1) = unat ?r + 1" by (subst unat_add_lt) simp_all
    then show ?thesis using cnt by (simp add: i_def next_index_def unat_word_le)
  next
    case False
    then have "unat ?r + 1 = 2 ^ 32" using r len by linarith
    then have "?r + 1 = 0" by (simp add: word_unat_eq_iff unat_word_ariths)
    moreover have "i = 0" using \<open>unat ?r + 1 = 2 ^ 32\<close> len by (simp add: i_def next_index_def)
    ultimately show ?thesis by simp
  qed
  show u: "unat (of_nat i :: u32) = i" using il len by (simp add: unat_of_nat_lt)
  let ?k = "k\<lparr>k_running_task_index := of_nat i\<rparr>"
  have get: "get_task ?k i = Some (ts ! i)" using ts il by (intro get_task_ok) simp_all
  show "pick_turn f k = (if ready k (ts ! i) then put_task i (updated k (ts ! i)) ?k else f ?k)"
  proof (cases "ready k (ts ! i)")
    case True
    then show ?thesis
      unfolding pick_turn_def by (simp add: i u get Let_def ready_def k_jiffies_def split: option.split)
  next
    case False
    then show ?thesis
      using put_task_same [OF get] not_ready_same [OF False]
      unfolding pick_turn_def by (simp add: i u get Let_def ready_def k_jiffies_def)
  qed
qed

lemma pick_chain:
  assumes "chain (length ts) (unat (k_running_task_index k)) js" and "find (\<lambda>i. ready k (ts ! i)) js = Some j"
    and "tasks_are k ts" and "unat (k_running_task_index k) \<le> length ts" and "ts \<noteq> []"
  shows "pick_next_task k = put_task j (updated k (ts ! j)) (k\<lparr>k_running_task_index := of_nat j\<rparr>)"
  using assms
proof (induction js arbitrary: k)
  case (Cons x js)
  note step = pick_turn_ok [OF Cons.prems(3-5)]
  note turn = step(1) [of pick_next_task, folded pick_next_task_turn]
  have x: "x = next_index (length ts) (unat (k_running_task_index k))" and c: "chain (length ts) x js"
    using Cons.prems(1) unfolding chain.simps by blast+
  have xl: "x < length ts" using step(2) x by simp
  show ?case
  proof (cases "ready k (ts ! x)")
    case True
    then show ?thesis using turn x Cons.prems(2) by simp
  next
    case False
    let ?k = "k\<lparr>k_running_task_index := of_nat x\<rparr>"
    have u: "unat (of_nat x :: u32) = x" using step(3) x by simp
    have same: "ready ?k = ready k" "updated ?k t = updated k t" for t
      by (simp_all add: ready_def k_jiffies_def fun_eq_iff)
    have "pick_next_task ?k = put_task j (updated ?k (ts ! j)) (?k\<lparr>k_running_task_index := of_nat j\<rparr>)"
    proof (rule Cons.IH)
      show "chain (length ts) (unat (k_running_task_index ?k)) js" using c u by simp
      show "find (\<lambda>i. ready ?k (ts ! i)) js = Some j" using Cons.prems(2) False by (simp add: same)
    qed (use Cons.prems(3-5) u xl in simp_all)
    then show ?thesis using turn False by (simp add: same k_jiffies_def flip: x)
  qed
qed simp

text \<open>If no task is ready, the loop never ends.\<close>

lemma pick_none:
  assumes ts: "tasks_are k ts" "unat (k_running_task_index k) \<le> length ts" "ts \<noteq> []"
    and none: "\<forall>i<length ts. \<not> ready k (ts ! i)"
  shows "pick_next_task k = None"
proof (rule ccontr)
  let ?inv = "\<lambda>l. \<exists>i. l = k\<lparr>k_running_task_index := i\<rparr> \<and> unat i \<le> length ts"
  assume "pick_next_task k \<noteq> None"
  then obtain y where y: "pick_next_task k = Some y" by blast
  have "\<not> ?inv k"
  proof (rule pick_next_task.raw_induct [OF _ y, of "\<lambda>l y. \<not> ?inv l"], fold pick_turn_def)
    fix f l y
    assume IH: "\<And>l y. f l = Some y \<Longrightarrow> \<not> ?inv l" and run: "pick_turn f l = Some y"
    show "\<not> ?inv l"
    proof
      assume "?inv l"
      then obtain i where l: "l = k\<lparr>k_running_task_index := i\<rparr>" "unat i \<le> length ts" by blast
      let ?j = "next_index (length ts) (unat i)"
      have "tasks_are l ts" "unat (k_running_task_index l) \<le> length ts" using ts l by simp_all
      note turn = pick_turn_ok [OF this ts(3)]
      have "\<not> ready l (ts ! ?j)" using none turn(2) l by (simp add: ready_def k_jiffies_def)
      then have "f (k\<lparr>k_running_task_index := of_nat ?j\<rparr>) = Some y" using turn(1) [of f] run l by simp
      from IH [OF this] turn(2,3) l show False by auto
    qed
  qed
  then show False using ts(2) by (metis kernel.surjective kernel.update_convs(5))
qed

text \<open>
  C3. The scheduler picks round robin: it looks at the tasks after the running one in cyclic order, the
  running one last, makes the first that can run or whose wait is over the running task and wakes it,
  and changes no other task; if there is none, it never returns.
\<close>

theorem pick_next_task_round_robin:
  assumes "tasks_are k ts" and "unat (k_running_task_index k) < length ts"
  shows "case find (\<lambda>i. ready k (ts ! i)) (round (length ts) (unat (k_running_task_index k))) of
      None \<Rightarrow> pick_next_task k = None
    | Some j \<Rightarrow> j < length ts \<and> (\<exists>k'. pick_next_task k = Some k' \<and> unat (k_running_task_index k') = j
        \<and> tasks_are k' (ts[j := (if t_state (ts ! j) = Waiting then (ts ! j)\<lparr>t_state := Runnable\<rparr> else ts ! j)])
        \<and> k_switches k' = k_switches k)"
proof -
  let ?r = "unat (k_running_task_index k)"
  have ne: "ts \<noteq> []" "?r \<le> length ts" using assms(2) by auto
  show ?thesis
  proof (cases "find (\<lambda>i. ready k (ts ! i)) (round (length ts) ?r)")
    case None
    then have "\<forall>i<length ts. \<not> ready k (ts ! i)"
      by (simp add: find_None_iff round_set)
    then show ?thesis using pick_none [OF assms(1) ne(2) ne(1)] None by simp
  next
    case (Some j)
    then have j: "j < length ts" "ready k (ts ! j)"
      using find_SomeD [OF Some] round_set [of "length ts" ?r] by auto
    have up: "updated k (ts ! j) = (if t_state (ts ! j) = Waiting then (ts ! j)\<lparr>t_state := Runnable\<rparr> else ts ! j)"
      using j(2) by (auto simp: ready_iff update_state_def)
    have u: "unat (of_nat j :: u32) = j"
      using j(1) tasks_are_count [OF assms(1)] unat_lt_exp [of "v_count (k_tasks k)"] by (simp add: unat_of_nat_lt)
    have "pick_next_task k = put_task j (updated k (ts ! j)) (k\<lparr>k_running_task_index := of_nat j\<rparr>)"
      using chain_round [of "length ts" ?r] ne by (intro pick_chain [OF _ Some assms(1)]) auto
    moreover obtain st where "put_task j (updated k (ts ! j)) (k\<lparr>k_running_task_index := of_nat j\<rparr>)
          = Some (k\<lparr>k_running_task_index := of_nat j, k_task_store := st\<rparr>)"
        "tasks_are (k\<lparr>k_running_task_index := of_nat j, k_task_store := st\<rparr>) (ts[j := updated k (ts ! j)])"
      using put_task_ok [of "k\<lparr>k_running_task_index := of_nat j\<rparr>" ts j] assms(1) j(1) by auto
    ultimately show ?thesis using Some j(1) u up by auto
  qed
qed

section \<open>Switching\<close>

definition woken :: "task \<Rightarrow> task" where
  "woken t = (if t_state t = Waiting then t\<lparr>t_state := Runnable\<rparr> else t)"

text \<open>The tasks after the scheduler went from task \<open>r\<close> to task \<open>j\<close>.\<close>

definition charge :: "u32 \<Rightarrow> task \<Rightarrow> task" where
  "charge now t = t\<lparr>t_cpu_jiffies := t_cpu_jiffies t + (now - t_jiffies_when_scheduled t)\<rparr>"

definition started :: "u32 \<Rightarrow> task \<Rightarrow> task" where
  "started now t = t\<lparr>t_state := Runnable, t_jiffies_when_scheduled := now\<rparr>"

definition after_schedule :: "u32 \<Rightarrow> nat \<Rightarrow> nat \<Rightarrow> task list \<Rightarrow> task list" where
  "after_schedule now r j ts =
     (if j = r then ts[j := woken (ts ! j)] else ts[r := charge now (ts ! r), j := started now (ts ! j)])"

lemma task_start_ok:
  assumes "tasks_are k ts" and "i < length ts"
  shows "\<exists>st. task_start i sv b k = Some (k\<lparr>k_task_store := st, k_switches := k_switches k @
      [\<lparr>sw_save = sv, sw_save_is_kernel = b, sw_registers = t_registers (ts ! i),
        sw_is_kernel = task_is_kernel_task (ts ! i)\<rparr>]\<rparr>)
    \<and> tasks_are (k\<lparr>k_task_store := st\<rparr>) (ts[i := started (k_jiffies k) (ts ! i)])"
proof -
  obtain st where "put_task i (started (k_jiffies k) (ts ! i)) k = Some (k\<lparr>k_task_store := st\<rparr>)"
      "tasks_are (k\<lparr>k_task_store := st\<rparr>) (ts[i := started (k_jiffies k) (ts ! i)])"
    using put_task_ok [OF assms, of "started (k_jiffies k) (ts ! i)"] by blast
  then show ?thesis
    using get_task_ok [OF assms] by (intro exI [of _ st]) (simp add: task_start_def started_def task_is_kernel_task_def Let_def)
qed

lemma task_switch_to_ok:
  assumes ts: "tasks_are k ts" and r: "r < length ts" and j: "j < length ts" and ne: "j \<noteq> r"
  shows "\<exists>st. task_switch_to r j k = Some (k\<lparr>k_task_store := st, k_switches := k_switches k @
      [\<lparr>sw_save = Some r, sw_save_is_kernel = task_is_kernel_task (ts ! r), sw_registers = t_registers (ts ! j),
        sw_is_kernel = task_is_kernel_task (ts ! j)\<rparr>]\<rparr>)
    \<and> tasks_are (k\<lparr>k_task_store := st\<rparr>) (ts[r := charge (k_jiffies k) (ts ! r), j := started (k_jiffies k) (ts ! j)])"
proof -
  let ?t = "charge (k_jiffies k) (ts ! r)"
  obtain st where st: "put_task r ?t k = Some (k\<lparr>k_task_store := st\<rparr>)" "tasks_are (k\<lparr>k_task_store := st\<rparr>) (ts[r := ?t])"
    using put_task_ok [OF ts r, of ?t] by blast
  obtain st' where st': "task_start j (Some r) (task_is_kernel_task ?t) (k\<lparr>k_task_store := st\<rparr>)
      = Some (k\<lparr>k_task_store := st', k_switches := k_switches k @
      [\<lparr>sw_save = Some r, sw_save_is_kernel = task_is_kernel_task ?t, sw_registers = t_registers (ts ! j),
        sw_is_kernel = task_is_kernel_task (ts ! j)\<rparr>]\<rparr>)"
    "tasks_are (k\<lparr>k_task_store := st'\<rparr>) (ts[r := ?t, j := started (k_jiffies k) (ts ! j)])"
    using task_start_ok [OF st(2), of j "Some r" "task_is_kernel_task ?t"] j ne
    by (auto simp: k_jiffies_def nth_list_update)
  have k: "task_is_kernel_task ?t = task_is_kernel_task (ts ! r)"
    by (simp add: charge_def task_is_kernel_task_def)
  show ?thesis
    using get_task_ok [OF ts r] st(1) st' k unfolding task_switch_to_def
    by (auto simp: charge_def Let_def)
qed

lemma woken_ready: "ready k t \<Longrightarrow> updated k t = woken t"
  by (auto simp: ready_iff update_state_def woken_def)

text \<open>What \<open>schedule\<close> does when some task is ready.\<close>

lemma schedule_ok:
  assumes ts: "tasks_are k ts" and r: "r < length ts" "unat (k_running_task_index k) = r"
    and j: "find (\<lambda>i. ready k (ts ! i)) (round (length ts) r) = Some j"
  shows "\<exists>k'. schedule k = Some k' \<and> tasks_are k' (after_schedule (k_jiffies k) r j ts)
    \<and> unat (k_running_task_index k') = j \<and> k_timer k' = k_timer k \<and> k_request k' = k_request k
    \<and> k_uart k' = k_uart k \<and> k_fs k' = k_fs k
    \<and> k_switches k' = k_switches k @ (if j = r then [] else
        [\<lparr>sw_save = Some r, sw_save_is_kernel = task_is_kernel_task (ts ! r),
          sw_registers = t_registers (ts ! j), sw_is_kernel = task_is_kernel_task (ts ! j)\<rparr>])"
proof -
  have ne: "ts \<noteq> []" "r \<le> length ts" using r by auto
  have jl: "j < length ts" "ready k (ts ! j)" using find_SomeD [OF j] round_set [of "length ts" r] by auto
  have u: "unat (of_nat j :: u32) = j"
    using jl(1) tasks_are_count [OF ts] unat_lt_exp [of "v_count (k_tasks k)"] by (simp add: unat_of_nat_lt)
  let ?k = "k\<lparr>k_running_task_index := of_nat j\<rparr>"
  have pick: "pick_next_task k = put_task j (woken (ts ! j)) ?k"
    using pick_chain [OF _ j ts] chain_round [of "length ts" r] ne r(2) woken_ready [OF jl(2)] by simp
  obtain st where st: "put_task j (woken (ts ! j)) ?k = Some (?k\<lparr>k_task_store := st\<rparr>)"
      "tasks_are (?k\<lparr>k_task_store := st\<rparr>) (ts[j := woken (ts ! j)])"
    using put_task_ok [of ?k ts j] ts jl(1) by auto
  show ?thesis
  proof (cases "j = r")
    case True
    then have "schedule k = Some (?k\<lparr>k_task_store := st\<rparr>)"
      unfolding schedule_def pick using st(1) r(2) u by simp
    then show ?thesis using True st(2) u by (simp add: after_schedule_def)
  next
    case False
    let ?k1 = "?k\<lparr>k_task_store := st\<rparr>" and ?ts = "ts[j := woken (ts ! j)]"
    obtain st' where st': "task_switch_to r j ?k1 = Some (?k1\<lparr>k_task_store := st', k_switches := k_switches k @
        [\<lparr>sw_save = Some r, sw_save_is_kernel = task_is_kernel_task (?ts ! r), sw_registers = t_registers (?ts ! j),
          sw_is_kernel = task_is_kernel_task (?ts ! j)\<rparr>]\<rparr>)"
      "tasks_are (?k1\<lparr>k_task_store := st'\<rparr>) (?ts[r := charge (k_jiffies ?k1) (?ts ! r), j := started (k_jiffies ?k1) (?ts ! j)])"
      using task_switch_to_ok [OF st(2), of r j] r jl(1) False by auto
    have "?ts[r := charge (k_jiffies ?k1) (?ts ! r), j := started (k_jiffies ?k1) (?ts ! j)]
        = after_schedule (k_jiffies k) r j ts"
      using False jl(1) r(1)
      by (simp add: after_schedule_def k_jiffies_def started_def woken_def list_update_swap)
    moreover have "schedule k = task_switch_to r j ?k1"
      unfolding schedule_def pick using st(1) r(2) u False by simp
    moreover have "t_registers (?ts ! j) = t_registers (ts ! j)" "task_is_kernel_task (?ts ! j) = task_is_kernel_task (ts ! j)"
        "?ts ! r = ts ! r"
      using jl(1) False by (simp_all add: woken_def task_is_kernel_task_def)
    ultimately show ?thesis using st' u False by (simp add: tasks_are_def)
  qed
qed

text \<open>
  C28. Scheduling neither loses nor invents processor time: at the same jiffies, the processor time that
  is reported for every task is the same before and after \<open>schedule\<close>, whatever it switches to.
\<close>

theorem schedule_keeps_cputime:
  assumes "tasks_are k ts" and "unat (k_running_task_index k) < length ts" and "schedule k = Some k'"
    and "i < length ts"
  shows "task_cputime i k' = task_cputime i k"
proof -
  let ?r = "unat (k_running_task_index k)"
  have "pick_next_task k \<noteq> None" using assms(3) by (cases "pick_next_task k") (simp_all add: schedule_def)
  then obtain j where j: "find (\<lambda>i. ready k (ts ! i)) (round (length ts) ?r) = Some j"
    using pick_none [OF assms(1)] assms(2) length_greater_0_conv [THEN iffD1, OF le_less_trans [OF le0 assms(2)]] by (cases "find (\<lambda>i. ready k (ts ! i)) (round (length ts) ?r)")
      (auto simp: find_None_iff round_set)
  have jl: "j < length ts" using find_SomeD [OF j] round_set [of "length ts" ?r] by auto
  note k' = schedule_ok [OF assms(1,2) refl j] assms(3)
  have now: "k_jiffies k' = k_jiffies k" and run: "unat (k_running_task_index k') = j"
    and ts': "tasks_are k' (after_schedule (k_jiffies k) ?r j ts)"
    using k' by (auto simp: k_jiffies_def)
  have g: "get_task k i = Some (ts ! i)" by (rule get_task_ok [OF assms(1,4)])
  have g': "get_task k' i = Some (after_schedule (k_jiffies k) ?r j ts ! i)"
    using get_task_ok [OF ts', of i] assms(4) by (simp add: after_schedule_def)
  show ?thesis
  proof (cases "j = ?r")
    case True
    then show ?thesis using g g' now run jl
      by (cases "i = j") (simp_all add: task_cputime_def after_schedule_def woken_def)
  next
    case False
    then show ?thesis using g g' now run jl assms(2,4)
      by (cases "i = j"; cases "i = ?r")
         (simp_all add: task_cputime_def after_schedule_def charge_def started_def)
  qed
qed

section \<open>The scheduler in all reachable states\<close>

text \<open>
  The steps of the machine as the task manager sees them: the running task is preempted or yields, it
  waits for something, or time passes and the devices move on. The task with index \<open>s\<close> is the one that
  spins: it never waits.
\<close>

inductive sched_step :: "nat \<Rightarrow> 's kernel \<Rightarrow> 's kernel \<Rightarrow> bool" for s where
  preempt: "schedule k = Some k' \<Longrightarrow> sched_step s k k'"
| wait: "unat (k_running_task_index k) \<noteq> s \<Longrightarrow> reschedule_while_waiting_for w k = Some k' \<Longrightarrow> sched_step s k k'"
| device: "sched_step s k (k\<lparr>k_timer := t, k_request := rq, k_uart := u\<rparr>)"

inductive sched_reaches :: "nat \<Rightarrow> 's kernel \<Rightarrow> 's kernel \<Rightarrow> bool" for s where
  here: "sched_reaches s k k"
| further: "sched_reaches s k l \<Longrightarrow> sched_step s l m \<Longrightarrow> sched_reaches s k m"

inductive_cases sched_stepE: "sched_step s k k'"

definition sched_inv :: "nat \<Rightarrow> 's kernel \<Rightarrow> bool" where
  "sched_inv s k \<longleftrightarrow> (\<exists>ts. tasks_are k ts \<and> unat (k_running_task_index k) < length ts
     \<and> s < length ts \<and> t_state (ts ! s) \<noteq> Waiting)"

lemma find_ready:
  assumes "i < length ts" and "ready k (ts ! i)"
  shows "\<exists>j. find (\<lambda>i. ready k (ts ! i)) (round (length ts) r) = Some j \<and> j < length ts \<and> ready k (ts ! j)"
proof -
  have "find (\<lambda>i. ready k (ts ! i)) (round (length ts) r) \<noteq> None"
    using assms by (auto simp: find_None_iff round_set)
  then obtain j where "find (\<lambda>i. ready k (ts ! i)) (round (length ts) r) = Some j" by blast
  then show ?thesis using find_SomeD [of _ "round (length ts) r" j] round_set [of "length ts" r] by fastforce
qed

lemma after_schedule_length [simp]: "length (after_schedule now r j ts) = length ts"
  by (simp add: after_schedule_def)

lemma after_schedule_state:
  assumes "i < length ts" and "t_state (ts ! i) \<noteq> Waiting"
  shows "t_state (after_schedule now r j ts ! i) \<noteq> Waiting"
  using assms by (cases "i = j"; cases "i = r") (simp_all add: after_schedule_def woken_def charge_def started_def)

lemma schedule_inv:
  assumes "sched_inv s k"
  shows "\<exists>k'. schedule k = Some k' \<and> sched_inv s k'"
proof -
  obtain ts where ts: "tasks_are k ts" "unat (k_running_task_index k) < length ts" "s < length ts"
      "t_state (ts ! s) \<noteq> Waiting" using assms by (auto simp: sched_inv_def)
  have "ready k (ts ! s)" using ts(4) by (simp add: ready_iff)
  from find_ready [OF ts(3) this, of "unat (k_running_task_index k)"]
  obtain j where j: "find (\<lambda>i. ready k (ts ! i)) (round (length ts) (unat (k_running_task_index k))) = Some j"
      "j < length ts" by blast
  obtain k' where k': "schedule k = Some k'"
      "tasks_are k' (after_schedule (k_jiffies k) (unat (k_running_task_index k)) j ts)"
      "unat (k_running_task_index k') = j"
    using schedule_ok [OF ts(1,2) refl j(1)] by blast
  have "sched_inv s k'"
    unfolding sched_inv_def
    using k' j(2) ts(3) after_schedule_state [OF ts(3,4)]
    by (intro exI [of _ "after_schedule (k_jiffies k) (unat (k_running_task_index k)) j ts"]) simp
  with k'(1) show ?thesis by blast
qed

lemma schedule_jiffies:
  assumes "schedule k = Some k'" and "sched_inv s k"
  shows "k_jiffies k' = k_jiffies k"
proof -
  obtain ts where ts: "tasks_are k ts" "unat (k_running_task_index k) < length ts" "s < length ts"
      "t_state (ts ! s) \<noteq> Waiting" using assms(2) by (auto simp: sched_inv_def)
  have "ready k (ts ! s)" using ts(4) by (simp add: ready_iff)
  from find_ready [OF ts(3) this, of "unat (k_running_task_index k)"] assms(1)
  show ?thesis using schedule_ok [OF ts(1,2) refl] by (fastforce simp: k_jiffies_def)
qed

lemma wait_inv:
  assumes inv: "sched_inv s k" and ne: "unat (k_running_task_index k) \<noteq> s"
  shows "\<exists>k'. reschedule_while_waiting_for w k = Some k' \<and> sched_inv s k'"
proof -
  let ?r = "unat (k_running_task_index k)"
  obtain ts where ts: "tasks_are k ts" "?r < length ts" "s < length ts" "t_state (ts ! s) \<noteq> Waiting"
    using inv by (auto simp: sched_inv_def)
  let ?t = "(ts ! ?r)\<lparr>t_state := Waiting, t_waiting_for := Some w\<rparr>"
  obtain st where st: "put_task ?r ?t k = Some (k\<lparr>k_task_store := st\<rparr>)"
      "tasks_are (k\<lparr>k_task_store := st\<rparr>) (ts[?r := ?t])"
    using put_task_ok [OF ts(1,2), of ?t] by blast
  have "sched_inv s (k\<lparr>k_task_store := st\<rparr>)"
    unfolding sched_inv_def using st(2) ts ne by (intro exI [of _ "ts[?r := ?t]"]) simp
  from schedule_inv [OF this] show ?thesis
    using st(1) get_task_ok [OF ts(1,2)] by (simp add: reschedule_while_waiting_for_def Let_def)
qed

text \<open>What a wait does when another task can run.\<close>

lemma wait_ok:
  assumes ts: "tasks_are k ts" "r < length ts" "unat (k_running_task_index k) = r"
    and s: "s < length ts" "s \<noteq> r" "t_state (ts ! s) \<noteq> Waiting"
    and us_def: "us = ts[r := (ts ! r)\<lparr>t_state := Waiting, t_waiting_for := Some w\<rparr>]"
  shows "\<exists>j k'. reschedule_while_waiting_for w k = Some k' \<and> j < length ts \<and> ready k (us ! j)
    \<and> tasks_are k' (after_schedule (k_jiffies k) r j us) \<and> unat (k_running_task_index k') = j
    \<and> k_timer k' = k_timer k \<and> k_request k' = k_request k \<and> k_uart k' = k_uart k \<and> k_fs k' = k_fs k"
proof -
  obtain st where st: "put_task r (us ! r) k = Some (k\<lparr>k_task_store := st\<rparr>)"
      "tasks_are (k\<lparr>k_task_store := st\<rparr>) (ts[r := us ! r])"
    using put_task_ok [OF ts(1,2), of "us ! r"] by blast
  let ?k = "k\<lparr>k_task_store := st\<rparr>"
  have us: "us ! r = (ts ! r)\<lparr>t_state := Waiting, t_waiting_for := Some w\<rparr>" "ts[r := us ! r] = us"
      "length us = length ts" "us ! s = ts ! s" using ts(2) s by (simp_all add: us_def)
  have same: "ready ?k t = ready k t" for t by (simp add: ready_def k_jiffies_def)
  have "ready ?k (us ! s)" using s(3) us(4) by (simp add: ready_iff)
  from find_ready [OF _ this, of r] s(1) us(3)
  obtain j where j: "find (\<lambda>i. ready ?k (us ! i)) (round (length us) r) = Some j" "j < length us" "ready ?k (us ! j)"
    by auto
  have rep: "tasks_are ?k us" using st(2) us(2) by simp
  obtain k' where k': "schedule ?k = Some k'" "tasks_are k' (after_schedule (k_jiffies ?k) r j us)"
      "unat (k_running_task_index k') = j" "k_timer k' = k_timer ?k" "k_request k' = k_request ?k"
      "k_uart k' = k_uart ?k" "k_fs k' = k_fs ?k"
    using schedule_ok [OF rep _ _ j(1)] ts(2,3) us(3) by auto
  have "reschedule_while_waiting_for w k = Some k'"
    using get_task_ok [OF ts(1,2)] st(1) us(1) k'(1) ts(3)
    by (simp add: reschedule_while_waiting_for_def Let_def)
  then show ?thesis using k' j us(3) same
    by (intro exI [of _ j] exI [of _ k']) (simp add: k_jiffies_def)
qed

lemma sched_step_inv: "sched_step s k k' \<Longrightarrow> sched_inv s k \<Longrightarrow> sched_inv s k'"
proof (induction rule: sched_step.induct)
  case (preempt k k')
  then show ?case using schedule_inv [of s k] by auto
next
  case (wait k w k')
  then show ?case using wait_inv [of s k w] by auto
next
  case (device k t rq u)
  then show ?case by (simp add: sched_inv_def tasks_are_def)
qed

lemma sched_reaches_inv: "sched_reaches s k k' \<Longrightarrow> sched_inv s k \<Longrightarrow> sched_inv s k'"
  by (induction rule: sched_reaches.induct) (auto dest: sched_step_inv)

text \<open>
  C8. The scheduler never gets stuck: from a state in which some task never waits, in every state that
  preemptions, waits of other tasks and device activity lead to, \<open>schedule\<close> returns, and so does every
  wait of another task.
\<close>

theorem scheduler_never_stuck:
  assumes "tasks_are k0 ts" and "unat (k_running_task_index k0) < length ts"
    and "s < length ts" and "t_state (ts ! s) \<noteq> Waiting" and "sched_reaches s k0 k"
  shows "(\<exists>k'. schedule k = Some k')
    \<and> (unat (k_running_task_index k) \<noteq> s \<longrightarrow> (\<exists>k'. reschedule_while_waiting_for w k = Some k'))"
proof -
  have "sched_inv s k" using sched_reaches_inv [OF assms(5)] assms(1-4) by (auto simp: sched_inv_def)
  then show ?thesis using schedule_inv wait_inv by blast
qed

section \<open>Sleeping\<close>

text \<open>
  A sleeping task is not woken early: as long as the end of the sleep does not wrap, the task is
  picked only when 8 jiffies per second have passed.
\<close>

lemma sleep_lasts:
  assumes "unat now + 8 * unat secs < 2 ^ 32" and "t_state t = Waiting"
    and "t_waiting_for t = Some (sleep_waitable now secs)"
  shows "ready k t \<longleftrightarrow> unat now + 8 * unat secs \<le> unat (k_jiffies k)"
proof -
  have "unat (secs * 8) = 8 * unat secs"
    using assms(1) by (subst unat_mult_lem [THEN iffD1]) simp_all
  then have "unat (now + secs * 8) = unat now + 8 * unat secs"
    using assms(1) by (subst unat_add_lt) simp_all
  then show ?thesis using assms(2,3)
    by (simp add: ready_iff sleep_waitable_def waitable_is_finished_def SYS_HZ_def unat_word_le)
qed

text \<open>
  The end of a long sleep wraps: a sleep of \<open>2 ^ 29\<close> seconds is over at once.
\<close>

lemma sleep_wraps:
  "waitable_is_finished now rq (sleep_waitable now 536870912)"
proof -
  have "536870912 * SYS_HZ = 0" by (simp add: SYS_HZ_def word_unat_eq_iff unat_word_ariths)
  then show ?thesis by (simp add: waitable_is_finished_def sleep_waitable_def)
qed

section \<open>The heap of a new task\<close>

text \<open>
  A new task cannot use its heap: the heap that the constructor copies still points at the fixed
  allocation of the original, which is gone when \<open>try\_create\<close> has returned, and the first \<open>sbrk\<close>
  goes there because the allocator starts empty.
\<close>

lemma sbrk_dangles:
  "task_sbrk n (task_new name (heap_new start sz) kernel_stack user_stack regs fd_table) = None"
  by (simp add: task_sbrk_def task_new_def heap_copy_outlives_def heap_new_def heap_allocate_def
    binder_allocate_def hw_allocate_def hw_empty_def no_allocation_def fallback_allocate_def)

section \<open>A concrete kernel\<close>

definition example_regs :: registers where
  "example_regs = registers_new 8192 4096 32768 0 Userspace"

definition example_task :: "task_state \<Rightarrow> waitable option \<Rightarrow> task" where
  "example_task st w = \<lparr>t_name = str_empty, t_state = st, t_user_stack = None,
     t_kernel_stack = \<lparr>sk_size = 0, sk_bottom = 0\<rparr>, t_registers = example_regs, t_heap = heap_new 0 0,
     t_jiffies_when_scheduled = 2, t_cpu_jiffies = 1, t_waiting_for = w, t_fd_table = vec_empty\<rparr>"

text \<open>Three tasks at jiffy 7: the first runs, the second sleeps, the third is new.\<close>

definition example_tasks :: "task list" where
  "example_tasks = [example_task Runnable None, example_task Waiting (Some (SleepWaitable 9)), example_task New None]"

definition example_kernel :: "unit kernel" where
  "example_kernel = \<lparr>k_fs = example_fs, k_bytes = Map.empty,
     k_tasks = \<lparr>v_count = 3, v_capacity = 3, v_contents = 4096\<rparr>,
     k_task_store = Map.empty(4096 \<mapsto> map Some example_tasks), k_running_task_index = 0,
     k_timer = example_timer\<lparr>jiffies_since_boot := 7\<rparr>, k_request = no_request, k_uart = example_uart, k_switches = []\<rparr>"

lemma example_tasks_are: "tasks_are example_kernel example_tasks"
  unfolding tasks_are_def
  by (intro exI [of _ 1]) (simp add: vec_rep_def example_kernel_def example_tasks_def)

lemma example_ready: "map (ready example_kernel) example_tasks = [True, False, True]"
  by (simp add: example_tasks_def ready_iff example_task_def waitable_is_finished_def k_jiffies_def jiffies_def
    example_kernel_def)

theorem pick_next_task_round_robin_witness:
  "\<exists>k'. pick_next_task example_kernel = Some k' \<and> unat (k_running_task_index k') = 2"
proof -
  have "round 3 0 = [1, 2, 0]" by (simp add: round_def upt_rec)
  then have f: "find (\<lambda>i. ready example_kernel (example_tasks ! i))
      (round (length example_tasks) (unat (k_running_task_index example_kernel))) = Some 2"
    using example_ready by (simp add: example_tasks_def example_kernel_def numeral_3_eq_3)
  have "unat (k_running_task_index example_kernel) < length example_tasks"
    by (simp add: example_kernel_def example_tasks_def)
  from pick_next_task_round_robin [OF example_tasks_are this] f show ?thesis by auto
qed

theorem schedule_keeps_cputime_witness:
  "\<exists>k'. schedule example_kernel = Some k' \<and> task_cputime 0 k' = task_cputime 0 example_kernel"
proof -
  have i: "0 < length example_tasks" "unat (k_running_task_index example_kernel) < length example_tasks"
      "t_state (example_tasks ! 0) \<noteq> Waiting"
    by (simp_all add: example_tasks_def example_kernel_def example_task_def)
  then have "sched_inv 0 example_kernel" using example_tasks_are by (auto simp: sched_inv_def)
  then obtain k' where "schedule example_kernel = Some k'" using schedule_inv by blast
  then show ?thesis using schedule_keeps_cputime [OF example_tasks_are i(2) _ i(1)] by blast
qed

theorem scheduler_never_stuck_witness:
  "\<exists>k'. schedule (example_kernel\<lparr>k_timer := example_timer, k_request := no_request, k_uart := example_uart\<rparr>) = Some k'"
proof -
  have "sched_reaches 2 example_kernel
      (example_kernel\<lparr>k_timer := example_timer, k_request := no_request, k_uart := example_uart\<rparr>)"
    by (rule sched_reaches.further [OF sched_reaches.here sched_step.device])
  moreover have "unat (k_running_task_index example_kernel) < length example_tasks" "2 < length example_tasks"
      "t_state (example_tasks ! 2) \<noteq> Waiting"
    by (simp_all add: example_kernel_def example_tasks_def example_task_def)
  ultimately show ?thesis using scheduler_never_stuck [OF example_tasks_are] by blast
qed

end
