(* ===== verification/Interrupts.thy ===== *)
theory Interrupts
  imports Tasks
begin

unbundle bit_operations_syntax

text \<open>
  The interrupt controller and the handler of normal interrupts: kernel/device/bcm2835/interrupts.hpp
  and interrupts.cpp, and \<open>irq\_handler\<close> of kernel/arch/aarch32/exception.cpp. The pending registers are
  what the controller shows when the handler reads them, once each.
\<close>

record interrupt_registers =
  pending_basic_irq :: u32
  pending_irq1 :: u32
  enable_irq1 :: u32
  enable_irq2 :: u32

definition irq_enable_timer :: "interrupt_registers \<Rightarrow> interrupt_registers" where
  "irq_enable_timer irq = irq\<lparr>enable_irq1 := push_bit 1 1\<rparr>"

definition irq_enable_uart :: "interrupt_registers \<Rightarrow> interrupt_registers" where
  "irq_enable_uart irq = irq\<lparr>enable_irq2 := push_bit 25 1\<rparr>"

definition timer_pending :: "interrupt_registers \<Rightarrow> bool" where
  "timer_pending irq \<longleftrightarrow> pending_irq1 irq AND push_bit 1 1 \<noteq> 0"

definition uart_pending :: "interrupt_registers \<Rightarrow> bool" where
  "uart_pending irq \<longleftrightarrow> pending_basic_irq irq AND push_bit 19 1 \<noteq> 0"

definition interrupts_handle_irq :: "interrupt_registers \<Rightarrow> 's kernel \<Rightarrow> 's kernel option" where
  "interrupts_handle_irq irq k = do {
     (should_reschedule, k) \<leftarrow>
       (if timer_pending irq then do {
          t \<leftarrow> timer_handle_irq (k_timer k);
          Some (True, k\<lparr>k_timer := t\<rparr>)
        } else Some (False, k));
     k \<leftarrow> (if uart_pending irq then do {
             (rq, u) \<leftarrow> request_handle_irq (k_request k, k_uart k);
             Some (k\<lparr>k_request := rq, k_uart := u\<rparr>)
           } else Some k);
     (if should_reschedule then schedule k else Some k)
   }"

section \<open>The handler returns and keeps the scheduler going\<close>

lemma sched_inv_devices [simp]:
  "sched_inv s (k\<lparr>k_timer := t\<rparr>) = sched_inv s k"
  "sched_inv s (k\<lparr>k_request := rq, k_uart := u\<rparr>) = sched_inv s k"
  by (simp_all add: sched_inv_def tasks_are_def)

text \<open>The devices are in a state that their handlers can deal with.\<close>

definition timer_ok :: "nat \<Rightarrow> system_timer \<Rightarrow> bool" where
  "timer_ok B t \<longleftrightarrow> timer_matched t \<and> 0 < timer_counter_match t
     \<and> (\<forall>n. unat (st_clock t n) \<le> B) \<and> B + unat (timer_counter_match t) < 2 ^ 32"

text \<open>
  C18. The interrupt handler returns and the scheduler stays healthy: if the pending devices can be
  handled and some task never waits, the handler ends; a timer interrupt counts the jiffies and runs the
  scheduler; without one, neither the running task nor the jiffies change and nothing is switched.
\<close>

theorem irq_handler_returns:
  assumes "sched_inv s k"
    and "timer_pending irq \<Longrightarrow> timer_ok B (k_timer k)"
    and "uart_pending irq \<Longrightarrow> request_ok (k_request k) \<and> drains (k_uart k)"
  shows "\<exists>k'. interrupts_handle_irq irq k = Some k' \<and> sched_inv s k'
    \<and> (timer_pending irq \<longrightarrow> k_jiffies k' \<in> {k_jiffies k + 1, k_jiffies k + 32})
    \<and> (\<not> timer_pending irq \<longrightarrow> k_jiffies k' = k_jiffies k \<and> k_switches k' = k_switches k
        \<and> k_running_task_index k' = k_running_task_index k)"
proof -
  obtain t where t: "timer_pending irq \<Longrightarrow> timer_handle_irq (k_timer k) = Some t"
      "timer_pending irq \<Longrightarrow> jiffies t \<in> {jiffies (k_timer k) + 1, jiffies (k_timer k) + 32}"
  proof (cases "timer_pending irq")
    case True
    then have ok: "timer_matched (k_timer k)" "0 < timer_counter_match (k_timer k)"
        "\<And>n. unat (st_clock (k_timer k) n) \<le> B" "B + unat (timer_counter_match (k_timer k)) < 2 ^ 32"
      using assms(2) by (simp_all add: timer_ok_def)
    obtain t' where "timer_handle_irq (k_timer k) = Some t'"
        "jiffies t' = jiffies (k_timer k) + (if st_compare3 (k_timer k) < st_clock (k_timer k) (st_readings (k_timer k)) then 32 else 1)"
      using timer_handle_irq_ok [OF ok] by (elim exE conjE) (rule that)
    then show thesis by (intro that [of t']) auto
  qed (rule that, simp_all)
  obtain rq u where u: "uart_pending irq \<Longrightarrow> request_handle_irq (k_request k, k_uart k) = Some (rq, u)"
  proof (cases "uart_pending irq")
    case True
    then show thesis using handle_irq_ok [of "k_request k" "k_uart k"] assms(3) that by blast
  qed simp
  let ?k1 = "if timer_pending irq then k\<lparr>k_timer := t\<rparr> else k"
  let ?k2 = "if uart_pending irq then ?k1\<lparr>k_request := rq, k_uart := u\<rparr> else ?k1"
  have run: "interrupts_handle_irq irq k = (if timer_pending irq then schedule ?k2 else Some ?k2)"
    using t(1) u by (simp add: interrupts_handle_irq_def)
  have inv: "sched_inv s ?k2" using assms(1) by simp
  have j: "timer_pending irq \<Longrightarrow> k_jiffies ?k2 \<in> {k_jiffies k + 1, k_jiffies k + 32}"
    using t(2) by (simp add: k_jiffies_def)
  show ?thesis
  proof (cases "timer_pending irq")
    case True
    obtain k' where "schedule ?k2 = Some k'" "sched_inv s k'" using schedule_inv [OF inv] by blast
    moreover have "k_jiffies k' = k_jiffies ?k2" using calculation(1) inv by (rule schedule_jiffies)
    ultimately show ?thesis using run True j by simp
  next
    case False
    then show ?thesis using run inv by (simp add: k_jiffies_def)
  qed
qed

theorem irq_handler_returns_witness:
  "\<exists>k'. interrupts_handle_irq \<lparr>pending_basic_irq = push_bit 19 1, pending_irq1 = 2, enable_irq1 = 0, enable_irq2 = 0\<rparr>
     example_kernel = Some k' \<and> k_jiffies k' \<in> {8, 39}"
proof -
  let ?irq = "\<lparr>pending_basic_irq = push_bit 19 1, pending_irq1 = 2, enable_irq1 = 0, enable_irq2 = 0\<rparr>"
  have "sched_inv 0 example_kernel"
    unfolding sched_inv_def using example_tasks_are
    by (intro exI [of _ example_tasks]) (simp add: example_kernel_def example_tasks_def example_task_def)
  moreover have "timer_ok 1000000 (k_timer example_kernel)"
    using example_timer_facts by (simp add: timer_ok_def example_kernel_def timer_matched_def)
  moreover have "request_ok (k_request example_kernel) \<and> drains (k_uart example_kernel)"
    using example_drains by (simp add: example_kernel_def request_ok_def no_request_def)
  moreover have "timer_pending ?irq" by (simp add: timer_pending_def)
  moreover have "k_jiffies example_kernel = 7" by (simp add: k_jiffies_def jiffies_def example_kernel_def)
  ultimately show ?thesis
    using irq_handler_returns [of 0 example_kernel ?irq 1000000] by auto
qed

end
