(* ===== verification/Syscalls.thy ===== *)
theory Syscalls
  imports Tasks
begin

text \<open>
  System calls: \<open>Syscall\<close> of pine/syscall.hpp, the operations of a task that they call
  (kernel/tasks.cpp), the UART as a file (kernel/device/pl011/uart.cpp) and the dispatcher of
  kernel/syscall.cpp.

  \<open>user\<close> is the memory of the task: the bytes from an address to the end of the object there; an
  address without an object has no bytes. A result is the register the task finds. What a device
  does is an argument, and so is what the machine does from a switch until the task runs again.
\<close>

section \<open>Decoding\<close>

datatype syscall = Yield | Sleep | Open | Read | Write | Close | Dup | Sbrk | Uptime | CPUTime | Exit

fun syscall_num :: "syscall \<Rightarrow> int" where
  "syscall_num Yield = 0"
| "syscall_num Sleep = 1"
| "syscall_num Open = 2"
| "syscall_num Read = 3"
| "syscall_num Write = 4"
| "syscall_num Close = 5"
| "syscall_num Dup = 6"
| "syscall_num Sbrk = 7"
| "syscall_num Uptime = 8"
| "syscall_num CPUTime = 9"
| "syscall_num Exit = 10"

fun file_mode_num :: "file_mode \<Rightarrow> int" where
  "file_mode_num ModeRead = 0"
| "file_mode_num ModeWrite = 1"
| "file_mode_num ModeReadWrite = 2"

definition validate_syscall :: "u32 \<Rightarrow> syscall option" where
  "validate_syscall call_data =
     (let syscall_signed = sint call_data in
      if syscall_signed < syscall_num Yield \<or> syscall_num Exit < syscall_signed then None
      else find (\<lambda>c. syscall_num c = syscall_signed)
        [Yield, Sleep, Open, Read, Write, Close, Dup, Sbrk, Uptime, CPUTime, Exit])"

definition validate_file_mode :: "u32 \<Rightarrow> file_mode option" where
  "validate_file_mode file_mode_data =
     (let arg2_signed = sint file_mode_data in
      if arg2_signed < file_mode_num ModeRead \<or> file_mode_num ModeReadWrite < arg2_signed then None
      else find (\<lambda>m. file_mode_num m = arg2_signed) [ModeRead, ModeWrite, ModeReadWrite])"

section \<open>Operations of a task\<close>

definition user_bytes :: "bytes \<Rightarrow> ptr \<Rightarrow> char list" where
  "user_bytes user p = (case user p of None \<Rightarrow> [] | Some cs \<Rightarrow> cs)"

definition set_fs :: "'s fs \<Rightarrow> 's kernel \<Rightarrow> 's kernel" where
  "set_fs fs k = k\<lparr>k_fs := fs\<rparr>"

definition task_open ::
    "'s fs_env \<Rightarrow> nat \<Rightarrow> char list \<Rightarrow> file_mode \<Rightarrow> 's kernel \<Rightarrow> (int \<times> 's kernel) option" where
  "task_open env i path mode k = do {
     t \<leftarrow> get_task k i;
     (fd, table, fs) \<leftarrow> fdt_open env path mode (t_fd_table t) (k_fs k);
     k \<leftarrow> put_task i (t\<lparr>t_fd_table := table\<rparr>) (set_fs fs k);
     Some (fd, k)
   }"

definition task_read ::
    "(file_class \<Rightarrow> char list \<Rightarrow> size_t \<Rightarrow> 's kernel \<Rightarrow> (int \<times> char list \<times> 's kernel) option)
       \<Rightarrow> nat \<Rightarrow> int \<Rightarrow> ptr \<Rightarrow> size_t \<Rightarrow> bytes \<times> 's kernel \<Rightarrow> (int \<times> bytes \<times> 's kernel) option" where
  "task_read dev_read i fd buf at_most_bytes = (\<lambda>(user, k).
     let ret = userspace_buffer_is_valid at_most_bytes in
     if ret < 0 then Some (ret, user, k)
     else do {
       t \<leftarrow> get_task k i;
       maybe_descriptor \<leftarrow> fdt_try_get fd (t_fd_table t) (k_fs k);
       (case maybe_descriptor of None \<Rightarrow> Some (- errno_int EBADF, user, k)
        | Some (p, j) \<Rightarrow> do {
            fdn \<leftarrow> slot_get (fs_descriptions (k_fs k)) p j;
            (ret, cs, k) \<leftarrow> fdn_read dev_read fdn (user_bytes user buf) at_most_bytes k;
            Some (ret, if user buf = None then user else user(buf \<mapsto> cs), k)
          })
     })"

definition task_write ::
    "(file_class \<Rightarrow> char list \<Rightarrow> size_t \<Rightarrow> 's kernel \<Rightarrow> (int \<times> 's kernel) option)
       \<Rightarrow> nat \<Rightarrow> int \<Rightarrow> ptr \<Rightarrow> size_t \<Rightarrow> bytes \<times> 's kernel \<Rightarrow> (int \<times> bytes \<times> 's kernel) option" where
  "task_write dev_write i fd buf n = (\<lambda>(user, k).
     let ret = userspace_buffer_is_valid n in
     if ret < 0 then Some (ret, user, k)
     else do {
       t \<leftarrow> get_task k i;
       maybe_descriptor \<leftarrow> fdt_try_get fd (t_fd_table t) (k_fs k);
       (case maybe_descriptor of None \<Rightarrow> Some (- errno_int EBADF, user, k)
        | Some (p, j) \<Rightarrow> do {
            fdn \<leftarrow> slot_get (fs_descriptions (k_fs k)) p j;
            (ret, k) \<leftarrow> fdn_write dev_write fdn (user_bytes user buf) n k;
            Some (ret, user, k)
          })
     })"

definition task_close :: "'s fs_env \<Rightarrow> nat \<Rightarrow> int \<Rightarrow> 's kernel \<Rightarrow> (int \<times> 's kernel) option" where
  "task_close env i fd k = do {
     t \<leftarrow> get_task k i;
     (ret, fs) \<leftarrow> fdt_close env fd (t_fd_table t) (k_fs k);
     Some (ret, set_fs fs k)
   }"

definition task_dup :: "'s fs_env \<Rightarrow> nat \<Rightarrow> int \<Rightarrow> 's kernel \<Rightarrow> (int \<times> 's kernel) option" where
  "task_dup env i fd k = do {
     t \<leftarrow> get_task k i;
     (ret, table, fs) \<leftarrow> fdt_dup env fd (t_fd_table t) (k_fs k);
     k \<leftarrow> put_task i (t\<lparr>t_fd_table := table\<rparr>) (set_fs fs k);
     Some (ret, k)
   }"

section \<open>The UART as a file\<close>

text \<open>
  The bytes of the user are part of the request; \<open>resume\<close> is what the machine does from the switch
  until the task runs again.
\<close>

definition uart_file_transfer ::
    "('s kernel \<Rightarrow> 's kernel option) \<Rightarrow> bool \<Rightarrow> char list \<Rightarrow> size_t \<Rightarrow> 's kernel \<Rightarrow> (int \<times> char list \<times> 's kernel) option" where
  "uart_file_transfer resume is_write_request buf n k = do {
     (rq, u) \<leftarrow> uart_transfer_start is_write_request buf n (k_request k, k_uart k);
     let k = k\<lparr>k_request := rq, k_uart := u\<rparr>;
     k \<leftarrow> (if \<not> request_is_finished rq then do {
             k \<leftarrow> reschedule_while_waiting_for RequestWaitable k;
             resume k
           } else Some k);
     ret \<leftarrow> uart_transfer_result (k_request k);
     Some (ret, rq_buf (k_request k), k)
   }"

definition uart_file_read ::
    "('s kernel \<Rightarrow> 's kernel option) \<Rightarrow> char list \<Rightarrow> size_t \<Rightarrow> 's kernel \<Rightarrow> (int \<times> char list \<times> 's kernel) option" where
  "uart_file_read resume buf at_most_bytes k = uart_file_transfer resume False buf at_most_bytes k"

definition uart_file_write ::
    "('s kernel \<Rightarrow> 's kernel option) \<Rightarrow> char list \<Rightarrow> size_t \<Rightarrow> 's kernel \<Rightarrow> (int \<times> 's kernel) option" where
  "uart_file_write resume buf n k = do {
     (ret, _, k) \<leftarrow> uart_file_transfer resume True buf n k;
     Some (ret, k)
   }"

text \<open>The virtual \<open>read\<close> and \<open>write\<close> of the files; those of the display are arguments.\<close>

definition file_read ::
    "(char list \<Rightarrow> size_t \<Rightarrow> 's kernel \<Rightarrow> (int \<times> char list \<times> 's kernel) option) \<Rightarrow> ('s kernel \<Rightarrow> 's kernel option)
       \<Rightarrow> file_class \<Rightarrow> char list \<Rightarrow> size_t \<Rightarrow> 's kernel \<Rightarrow> (int \<times> char list \<times> 's kernel) option" where
  "file_read display_read resume cls =
     (case cls of DevNullFile \<Rightarrow> devnull_read | DevZeroFile \<Rightarrow> devzero_read
      | UARTFile \<Rightarrow> uart_file_read resume | DisplayFile \<Rightarrow> display_read)"

definition file_write ::
    "(char list \<Rightarrow> size_t \<Rightarrow> 's kernel \<Rightarrow> (int \<times> 's kernel) option) \<Rightarrow> ('s kernel \<Rightarrow> 's kernel option)
       \<Rightarrow> file_class \<Rightarrow> char list \<Rightarrow> size_t \<Rightarrow> 's kernel \<Rightarrow> (int \<times> 's kernel) option" where
  "file_write display_write resume cls =
     (case cls of DevNullFile \<Rightarrow> devnull_write | DevZeroFile \<Rightarrow> devzero_write
      | UARTFile \<Rightarrow> uart_file_write resume | DisplayFile \<Rightarrow> display_write)"

section \<open>The dispatcher\<close>

record 's devices =
  dev_read :: "file_class \<Rightarrow> char list \<Rightarrow> size_t \<Rightarrow> 's kernel \<Rightarrow> (int \<times> char list \<times> 's kernel) option"
  dev_write :: "file_class \<Rightarrow> char list \<Rightarrow> size_t \<Rightarrow> 's kernel \<Rightarrow> (int \<times> 's kernel) option"

definition conversion_error :: u32 where "conversion_error = from_signed_cast (- 1)"

definition handle_syscall ::
    "'s kernel_env \<Rightarrow> 's devices \<Rightarrow> u32 \<Rightarrow> u32 \<Rightarrow> u32 \<Rightarrow> u32 \<Rightarrow> bytes \<times> 's kernel \<Rightarrow> (u32 \<times> bytes \<times> 's kernel) option" where
  "handle_syscall env dev call_data arg1 arg2 arg3 = (\<lambda>(user, k).
     let i = unat (k_running_task_index k) in
     case validate_syscall call_data of
       None \<Rightarrow> do {
         u \<leftarrow> consoleln [print_lit uart_printer_print (''kernel:'' @ [CHR 0x09] @ ''Unknown syscall data ''),
           print_with_int uart_printer_print CULong (uint call_data)] (k_uart k);
         Some (conversion_error, user, k\<lparr>k_uart := u\<rparr>)
       }
     | Some Exit \<Rightarrow>
         if \<not> fits_within CInt arg1 then Some (conversion_error, user, k)
         else do { k \<leftarrow> exit_running_task env (to_signed_cast CInt arg1) k; Some (0, user, k) }
     | Some Yield \<Rightarrow> do { k \<leftarrow> schedule k; Some (0, user, k) }
     | Some Sleep \<Rightarrow>
         if \<not> fits_within CUInt arg1 then Some (conversion_error, user, k)
         else do { k \<leftarrow> task_sleep arg1 k; Some (0, user, k) }
     | Some Open \<Rightarrow>
         (case validate_file_mode arg2 of
            None \<Rightarrow> Some (conversion_error, user, k)
          | Some mode \<Rightarrow> do {
              (fd, k) \<leftarrow> task_open (ke_fs env) i (user_bytes user arg1) mode k;
              Some (from_signed_cast fd, user, k)
            })
     | Some Read \<Rightarrow>
         if \<not> fits_within CInt arg1 then Some (conversion_error, user, k)
         else do {
           (ret, user, k) \<leftarrow> task_read (dev_read dev) i (to_signed_cast CInt arg1) arg2 arg3 (user, k);
           Some (from_signed_cast ret, user, k)
         }
     | Some Write \<Rightarrow>
         if \<not> fits_within CInt arg1 then Some (conversion_error, user, k)
         else do {
           (ret, user, k) \<leftarrow> task_write (dev_write dev) i (to_signed_cast CInt arg1) arg2 arg3 (user, k);
           Some (from_signed_cast ret, user, k)
         }
     | Some Close \<Rightarrow>
         if \<not> fits_within CInt arg1 then Some (conversion_error, user, k)
         else do {
           (ret, k) \<leftarrow> task_close (ke_fs env) i (to_signed_cast CInt arg1) k;
           Some (from_signed_cast ret, user, k)
         }
     | Some Dup \<Rightarrow>
         if \<not> fits_within CInt arg1 then Some (conversion_error, user, k)
         else do {
           (ret, k) \<leftarrow> task_dup (ke_fs env) i (to_signed_cast CInt arg1) k;
           Some (from_signed_cast ret, user, k)
         }
     | Some Sbrk \<Rightarrow> do {
         t \<leftarrow> get_task k i;
         (p, t) \<leftarrow> task_sbrk arg1 t;
         k \<leftarrow> put_task i t k;
         Some (p, user, k)
       }
     | Some Uptime \<Rightarrow> Some (k_jiffies k, user, k)
     | Some CPUTime \<Rightarrow> do { n \<leftarrow> task_cputime i k; Some (n, user, k) })"

section \<open>Decoding is exact\<close>

lemma sint_eq_small:
  assumes "0 \<le> n" and "n < 2 ^ 31"
  shows "sint (d :: u32) = n \<longleftrightarrow> d = of_int n"
proof
  assume "sint d = n"
  moreover have "of_int (sint d) = d" by simp
  ultimately show "d = of_int n" by simp
next
  assume "d = of_int n"
  then show "sint d = n" using assms by (simp add: sint_of_int_small)
qed

lemma syscall_decodes: "validate_syscall d = Some c \<longleftrightarrow> d = of_int (syscall_num c)"
proof -
  have "validate_syscall d = Some c \<longleftrightarrow> sint d = syscall_num c"
    by (cases c) (auto simp: validate_syscall_def Let_def split: if_splits)
  moreover have "0 \<le> syscall_num c" "syscall_num c < 2 ^ 31" by (cases c; simp)+
  ultimately show ?thesis using sint_eq_small by metis
qed

lemma mode_decodes: "validate_file_mode d = Some m \<longleftrightarrow> d = of_int (file_mode_num m)"
proof -
  have "validate_file_mode d = Some m \<longleftrightarrow> sint d = file_mode_num m"
    by (cases m) (auto simp: validate_file_mode_def Let_def split: if_splits)
  moreover have "0 \<le> file_mode_num m" "file_mode_num m < 2 ^ 31" by (cases m; simp)+
  ultimately show ?thesis using sint_eq_small by metis
qed

lemma validate_syscall_num: "validate_syscall (of_int (syscall_num c)) = Some c"
  by (cases c) (simp_all add: validate_syscall_def)

text \<open>
  The system call number and the file mode of \<open>open\<close> are decoded exactly: a register is accepted
  if and only if it holds the number of one of the eleven calls, or of the three modes, and is taken
  for that one.
\<close>

lemma validate_exact:
  "(validate_syscall d = Some c \<longleftrightarrow> d = of_int (syscall_num c))
   \<and> (validate_file_mode d = Some m \<longleftrightarrow> d = of_int (file_mode_num m))"
  using syscall_decodes mode_decodes by blast

section \<open>Errors\<close>

text \<open>What the kernel reports about an unknown call.\<close>

definition unknown_message :: "u32 \<Rightarrow> char list" where
  "unknown_message call = ''kernel:'' @ [CHR 0x09] @ ''Unknown syscall data  '' @ decimal (uint call) @ [CHR '' '', CHR 0x0A]"

lemma unknown_message_sent:
  "sends (consoleln [print_lit uart_printer_print (''kernel:'' @ [CHR 0x09] @ ''Unknown syscall data ''),
      print_with_int uart_printer_print CULong (uint (call :: u32))]) (unknown_message call)"
proof -
  have "sends (print_lit uart_printer_print (''kernel:'' @ [CHR 0x09] @ ''Unknown syscall data ''))
      (''kernel:'' @ [CHR 0x09] @ ''Unknown syscall data '')"
    by (rule sends_lit) simp
  then show ?thesis
    using consoleln_sends [of "[print_lit uart_printer_print (''kernel:'' @ [CHR 0x09] @ ''Unknown syscall data ''),
        print_with_int uart_printer_print CULong (uint call)]"
      "[''kernel:'' @ [CHR 0x09] @ ''Unknown syscall data '', decimal (uint call)]"] sends_unsigned [of call]
    by (simp add: unknown_message_def)
qed

text \<open>
  C9. A call that is refused has no effect: an unknown number, a file mode that does not exist, and a
  read or write of more than \<open>ssize_t\<close> can count return all ones, the first before anything else, and
  leave the kernel and the user's memory as they are, but for the message about an unknown number, which is
  sent on the UART.
\<close>

theorem refused_syscall_no_effect:
  assumes "(\<forall>c. call \<noteq> of_int (syscall_num c))
     \<or> (call = of_int (syscall_num Open) \<and> (\<forall>m. arg2 \<noteq> of_int (file_mode_num m)))
     \<or> (call \<in> {of_int (syscall_num Read), of_int (syscall_num Write)} \<and> fits_within CInt arg1 \<and> ssize_max < arg3)"
    and drains: "drains (k_uart k)"
  shows "\<exists>u. handle_syscall env dev call arg1 arg2 arg3 (user, k) = Some (0xFFFFFFFF, user, k\<lparr>k_uart := u\<rparr>)
    \<and> (if \<forall>c. call \<noteq> of_int (syscall_num c) then sent_more (k_uart k) (unknown_message call) u else u = k_uart k)"
proof -
  have err: "conversion_error = 0xFFFFFFFF" "from_signed_cast (- errno_int EFBIG) = (0xFFFFFFFF :: u32)"
    by (simp_all add: conversion_error_def from_signed_cast_def)
  consider "\<forall>c. call \<noteq> of_int (syscall_num c)"
    | "call = of_int (syscall_num Open)" "\<forall>m. arg2 \<noteq> of_int (file_mode_num m)"
    | c where "call = of_int (syscall_num c)" "c \<in> {Read, Write}" "fits_within CInt arg1" "ssize_max < arg3"
    using assms by blast
  then show ?thesis
  proof cases
    case 1
    then have "validate_syscall call = None" using syscall_decodes by (metis option.exhaust)
    moreover obtain u where "consoleln [print_lit uart_printer_print (''kernel:'' @ [CHR 0x09] @ ''Unknown syscall data ''),
        print_with_int uart_printer_print CULong (uint call)] (k_uart k) = Some u" "sent_more (k_uart k) (unknown_message call) u"
      using unknown_message_sent [of call] drains unfolding sends_def by blast
    ultimately show ?thesis using 1 by (intro exI [of _ u]) (simp add: handle_syscall_def err)
  next
    case 2
    then have "validate_file_mode arg2 = None" using mode_decodes by (metis option.exhaust)
    then have "handle_syscall env dev call arg1 arg2 arg3 (user, k) = Some (0xFFFFFFFF, user, k)"
      using 2 by (simp add: handle_syscall_def validate_syscall_num [of Open, simplified] err)
    moreover have "\<not> (\<forall>c. call \<noteq> of_int (syscall_num c))" using 2(1) by blast
    ultimately show ?thesis by (intro exI [of _ "k_uart k"]) auto
  next
    case 3
    then have "handle_syscall env dev call arg1 arg2 arg3 (user, k) = Some (0xFFFFFFFF, user, k)"
      using validate_syscall_num [of c] err(2)
      by (auto simp: handle_syscall_def task_read_def task_write_def userspace_buffer_is_valid_def)
    moreover have "\<not> (\<forall>c. call \<noteq> of_int (syscall_num c))" using 3(1) by blast
    ultimately show ?thesis by (intro exI [of _ "k_uart k"]) auto
  qed
qed

text \<open>
  Reading from or writing to a descriptor that is not open looks like the end of the file: the call
  returns 0, as \<open>EBADF\<close> is 0, and has no effect.
\<close>

lemma bad_descriptor_reads_nothing:
  assumes "call \<in> {of_int (syscall_num Read), of_int (syscall_num Write)}" and "fits_within CInt arg1" and "arg3 \<le> ssize_max"
    and "get_task k (unat (k_running_task_index k)) = Some t"
    and "fdt_try_get (to_signed_cast CInt arg1) (t_fd_table t) (k_fs k) = Some None"
  shows "handle_syscall env dev call arg1 arg2 arg3 (user, k) = Some (0, user, k)"
proof -
  obtain c where c: "call = of_int (syscall_num c)" "c \<in> {Read, Write}" using assms(1) by blast
  have "\<not> userspace_buffer_is_valid arg3 < 0" using assms(3) by (simp add: userspace_buffer_is_valid_def)
  then show ?thesis
    using c validate_syscall_num [of c] assms(2-5)
    by (auto simp: handle_syscall_def task_read_def task_write_def from_signed_cast_def)
qed

lemma fits_within_uint: "fits_within CUInt (w :: u32)"
proof -
  have "unat w < 2 ^ LENGTH(32)" by (rule unat_lt_exp)
  then have "\<not> (4294967295 :: u32) < w" unfolding unat_word_lt by simp
  then show ?thesis by (simp add: fits_within_def is_signed_def limits_def cint_max_def cint_min_def Let_def)
qed

lemma sleep_not_over:
  assumes "unat now + 8 * unat secs < 2 ^ 32" and "0 < secs"
  shows "\<not> waitable_is_finished now rq (sleep_waitable now secs)"
proof -
  have "unat (secs * 8) = 8 * unat secs"
    using assms(1) by (subst unat_mult_lem [THEN iffD1]) simp_all
  then have "unat (now + secs * 8) = unat now + 8 * unat secs"
    using assms(1) by (subst unat_add_lt) simp_all
  moreover have "0 < unat secs" using assms(2) by (simp add: unat_gt_0)
  ultimately show ?thesis
    by (simp add: sleep_waitable_def waitable_is_finished_def SYS_HZ_def unat_word_le)
qed

section \<open>Sleeping and reading switch to another task\<close>

text \<open>
  C29. The sleep call takes the processor away from the caller: another task runs after it (unless the
  sleep is over at once), and the caller is left waiting for 8 jiffies per second from now.
\<close>

theorem syscall_sleep_switches:
  assumes ts: "tasks_are k ts" "r < length ts" "unat (k_running_task_index k) = r"
    and s: "s < length ts" "s \<noteq> r" "t_state (ts ! s) \<noteq> Waiting"
    and secs: "0 < secs" "unat (k_jiffies k) + 8 * unat secs < 2 ^ 32"
  shows "\<exists>k' us. handle_syscall env dev (of_int (syscall_num Sleep)) secs arg2 arg3 (user, k) = Some (0, user, k')
    \<and> tasks_are k' us \<and> unat (k_running_task_index k') < length us \<and> unat (k_running_task_index k') \<noteq> r
    \<and> t_state (us ! unat (k_running_task_index k')) = Runnable
    \<and> t_state (us ! r) = Waiting \<and> t_waiting_for (us ! r) = Some (SleepWaitable (k_jiffies k + 8 * secs))"
proof -
  let ?w = "sleep_waitable (k_jiffies k) secs"
  let ?us = "ts[r := (ts ! r)\<lparr>t_state := Waiting, t_waiting_for := Some ?w\<rparr>]"
  obtain j k' where k': "reschedule_while_waiting_for ?w k = Some k'" "j < length ts" "ready k (?us ! j)"
      "tasks_are k' (after_schedule (k_jiffies k) r j ?us)" "unat (k_running_task_index k') = j"
    using wait_ok [OF ts s refl, of ?w] by blast
  have "\<not> ready k (?us ! r)"
    using ts(2) secs sleep_not_over [OF secs(2,1)] by (simp add: ready_iff)
  then have ne: "j \<noteq> r" using k'(3) by auto
  have "fits_within CUInt secs" by (rule fits_within_uint)
  moreover have "secs * SYS_HZ = 8 * secs" by (simp add: SYS_HZ_def)
  ultimately have "handle_syscall env dev (of_int (syscall_num Sleep)) secs arg2 arg3 (user, k) = Some (0, user, k')"
    using k'(1) validate_syscall_num [of Sleep] by (simp add: handle_syscall_def task_sleep_def)
  moreover have "t_state (after_schedule (k_jiffies k) r j ?us ! j) = Runnable"
    using ne k'(2) by (simp add: after_schedule_def started_def)
  moreover have "t_state (after_schedule (k_jiffies k) r j ?us ! r) = Waiting"
      "t_waiting_for (after_schedule (k_jiffies k) r j ?us ! r) = Some (SleepWaitable (k_jiffies k + 8 * secs))"
    using ne ts(2) by (simp_all add: after_schedule_def charge_def sleep_waitable_def SYS_HZ_def)
  ultimately show ?thesis using k' ne by (intro exI [of _ k'] exI conjI) (assumption | simp)+
qed

section \<open>Reading from the UART\<close>

text \<open>The UART's request while its interrupts arrive.\<close>

inductive uart_irqs :: "uart_request \<times> uart \<Rightarrow> uart_request \<times> uart \<Rightarrow> bool" where
  none: "uart_irqs s s"
| irq: "uart_irqs s s' \<Longrightarrow> request_handle_irq s' = Some s'' \<Longrightarrow> uart_irqs s s''"

lemma advances_refl: "request_ok rq \<Longrightarrow> advances rq rq"
  by (simp add: advances_def)

lemma advances_trans:
  assumes "advances a b" and "advances b c"
  shows "advances a c"
proof -
  have le: "unat (rq_size a) \<le> unat (rq_size b)" "unat (rq_size b) \<le> unat (rq_size c)"
    using assms by (simp_all add: advances_def unat_word_le)
  have "take (unat (rq_size a)) (rq_buf c) = take (unat (rq_size a)) (take (unat (rq_size b)) (rq_buf c))"
    using le by (simp add: min_absorb1)
  also have "\<dots> = take (unat (rq_size a)) (rq_buf a)"
    using assms le by (simp add: advances_def min_absorb1)
  finally have t: "take (unat (rq_size a)) (rq_buf c) = take (unat (rq_size a)) (rq_buf a)" .
  have "drop (unat (rq_size c)) (rq_buf b)
      = drop (unat (rq_size c) - unat (rq_size b)) (drop (unat (rq_size b)) (rq_buf b))"
    using le by simp
  also have "\<dots> = drop (unat (rq_size c)) (rq_buf a)"
    using assms(1) le by (simp add: advances_def)
  finally have "drop (unat (rq_size c)) (rq_buf b) = drop (unat (rq_size c)) (rq_buf a)" .
  then show ?thesis using assms t unfolding advances_def by (metis order.trans)
qed

lemma uart_irqs_advance:
  assumes "uart_irqs s s'" and "request_ok (fst s)" and "drains (snd s)"
  shows "advances (fst s) (fst s') \<and> drains (snd s')"
  using assms
proof (induction rule: uart_irqs.induct)
  case (none s)
  then show ?case by (simp add: advances_refl)
next
  case (irq s s' s'')
  then have IH: "advances (fst s) (fst s')" "drains (snd s')" by simp_all
  then have "request_ok (fst s')" by (simp add: advances_def)
  from handle_irq_ok [OF this IH(2)] irq.hyps(2)
  have "advances (fst s') (fst s'')" "drains (snd s'')" by auto
  then show ?case using advances_trans [OF IH(1)] by blast
qed

lemma uart_read_bound:
  assumes idle: "request_is_finished (k_request k)" and dev: "drains (k_uart k)"
    and n: "n \<le> ssize_max" "unat n \<le> length buf"
    and sched: "sched_inv s k" "unat (k_running_task_index k) \<noteq> s"
    and resume: "\<And>l l'. resume l = Some l' \<Longrightarrow> uart_irqs (k_request l, k_uart l) (k_request l', k_uart l')"
    and read: "uart_file_read resume buf n k = Some (ret, buf', k')"
  shows "0 \<le> ret \<and> ret \<le> int (unat n) \<and> length buf' = length buf \<and> drop (nat ret) buf' = drop (nat ret) buf"
proof -
  let ?rq = "\<lparr>rq_buf = buf, rq_size = 0, rq_capacity = n, rq_is_write_request = False\<rparr>"
  let ?u = "request_enable_irq ?rq (k_uart k)"
  have start: "uart_transfer_start False buf n (k_request k, k_uart k) = Some (?rq, ?u)"
    using idle set_irq_same [of ?rq "k_uart k"] by (simp add: uart_transfer_start_def uart_request_new_def Let_def)
  have ok: "request_ok ?rq" using n(2) by (simp add: request_ok_def)
  have d: "drains ?u"
    using dev by (simp add: drains_def request_enable_irq_def enable_read_irq_def mask_disable_def)
  obtain rq u l where l: "advances ?rq rq" "uart_transfer_result rq = Some ret" "buf' = rq_buf rq"
  proof (cases "request_is_finished ?rq")
    case True
    then show thesis
      using read start that [OF advances_refl [OF ok]]
      by (auto simp: uart_file_read_def uart_file_transfer_def split: bind_splits)
  next
    case False
    let ?k = "k\<lparr>k_request := ?rq, k_uart := ?u\<rparr>"
    obtain ts where ts: "tasks_are k ts" "unat (k_running_task_index k) < length ts" "s < length ts"
        "t_state (ts ! s) \<noteq> Waiting" using sched(1) by (auto simp: sched_inv_def)
    have "tasks_are ?k ts" "unat (k_running_task_index ?k) = unat (k_running_task_index k)"
      using ts(1) by (simp_all add: tasks_are_def)
    from wait_ok [OF this(1) ts(2) this(2) ts(3) sched(2) [symmetric] ts(4) refl, of RequestWaitable]
    obtain k1 where k1: "reschedule_while_waiting_for RequestWaitable ?k = Some k1"
        "k_request k1 = ?rq" "k_uart k1 = ?u" by auto
    from read start False k1(1) obtain k2 where k2: "resume k1 = Some k2"
        "uart_transfer_result (k_request k2) = Some ret" "buf' = rq_buf (k_request k2)"
      by (auto simp: uart_file_read_def uart_file_transfer_def Let_def split: bind_splits)
    have "advances ?rq (k_request k2)"
      using uart_irqs_advance [OF resume [OF k2(1)]] k1(2,3) ok d by simp
    then show thesis using that k2(2,3) by blast
  qed
  have cap: "rq_capacity rq \<le> n" "rq_size rq \<le> rq_capacity rq" "length (rq_buf rq) = length buf"
      "drop (unat (rq_size rq)) (rq_buf rq) = drop (unat (rq_size rq)) buf"
    using l(1) by (simp_all add: advances_def request_ok_def)
  then have "rq_size rq \<le> ssize_max" "unat (rq_size rq) \<le> unat n"
    using n(1) by (auto simp: unat_word_le)
  moreover have "ret = sint (rq_size rq)" using l(2) by (auto simp: uart_transfer_result_def split: if_splits)
  ultimately have ret: "ret = int (unat (rq_size rq))" and le: "unat (rq_size rq) \<le> unat n"
    using sint_ssize by simp_all
  then have "nat ret = unat (rq_size rq)" "0 \<le> ret" by simp_all
  moreover have "ret \<le> int (unat n)" unfolding ret using le by (simp only: of_nat_le_iff)
  ultimately show ?thesis using cap(3,4) l(3) by simp
qed

text \<open>
  C10. A read from the UART stays inside the user's buffer: with another task to run meanwhile, and a
  machine on which the request only changes by its interrupts, a read that returns gives a number of
  bytes between 0 and the requested one, and changes no byte of the user's memory behind them.
\<close>

theorem uart_read_bounded:
  assumes idle: "request_is_finished (k_request k)" and dev: "drains (k_uart k)"
    and n: "n \<le> ssize_max" "unat n \<le> length buf"
    and sched: "sched_inv s k" "unat (k_running_task_index k) \<noteq> s"
    and resume: "\<And>l l'. resume l = Some l' \<Longrightarrow> uart_irqs (k_request l, k_uart l) (k_request l', k_uart l')"
    and read: "uart_file_read resume buf n k = Some (ret, buf', k')"
  shows "0 \<le> ret \<and> ret \<le> int (unat n) \<and> length buf' = length buf \<and> drop (nat ret) buf' = drop (nat ret) buf"
  using assms by (rule uart_read_bound)

section \<open>Concrete calls\<close>

definition example_kernel_env :: "unit kernel_env" where
  "example_kernel_env = \<lparr>ke_fs = example_env, ke_garbage = \<lambda>p n. replicate n NUL, ke_halt_addr = 32768,
     ke_shell_addr = 36864, ke_spin_addr = 40960, ke_sizeof_task = 192\<rparr>"

definition example_devices :: "unit devices" where
  "example_devices = \<lparr>dev_read = file_read (\<lambda>buf n k. Some (0, buf, k)) Some,
     dev_write = file_write (\<lambda>buf n k. Some (0, k)) Some\<rparr>"

theorem refused_syscall_no_effect_witness:
  "\<exists>u. handle_syscall example_kernel_env example_devices 99 0 0 0 (Map.empty, example_kernel)
     = Some (0xFFFFFFFF, Map.empty, example_kernel\<lparr>k_uart := u\<rparr>) \<and> sent_more example_uart (unknown_message 99) u"
proof -
  have "(99 :: u32) \<noteq> of_int (syscall_num c)" for c by (cases c) simp_all
  then show ?thesis
    using refused_syscall_no_effect [of 99 0 0 0 example_kernel example_kernel_env example_devices Map.empty] example_drains
    by (simp add: example_kernel_def del: syscall_num.simps)
qed

theorem syscall_sleep_switches_witness:
  "\<exists>k'. handle_syscall example_kernel_env example_devices 1 2 0 0 (Map.empty, example_kernel)
     = Some (0, Map.empty, k') \<and> unat (k_running_task_index k') \<noteq> 0"
proof -
  have r: "0 < length example_tasks" "unat (k_running_task_index example_kernel) = 0"
      "2 < length example_tasks" "t_state (example_tasks ! 2) \<noteq> Waiting"
    by (simp_all add: example_kernel_def example_tasks_def example_task_def)
  have "k_jiffies example_kernel = 7" by (simp add: k_jiffies_def jiffies_def example_kernel_def)
  then show ?thesis
    using syscall_sleep_switches [OF example_tasks_are r(1,2,3) _ r(4), of 2 example_kernel_env example_devices 0 0 Map.empty]
    by auto
qed

text \<open>A resume that handles one interrupt.\<close>

definition resume_irq :: "'s kernel \<Rightarrow> 's kernel option" where
  "resume_irq k = do { (rq, u) \<leftarrow> request_handle_irq (k_request k, k_uart k); Some (k\<lparr>k_request := rq, k_uart := u\<rparr>) }"

lemma poll_put_never_full:
  "uart_fr u = (\<lambda>n. 0) \<Longrightarrow> poll_put ch u
     = Some (u\<lparr>uart_fr_readings := uart_fr_readings u + 1, uart_sent := uart_sent u @ [char_u32 ch]\<rparr>)"
  by (simp add: poll_put_def poll_full_step [of u] write_dr_def)

abbreviation example_request :: uart_request where
  "example_request \<equiv> \<lparr>rq_buf = ''....'', rq_size = 0, rq_capacity = 1, rq_is_write_request = False\<rparr>"

lemma example_irq:
  "\<exists>rq u. request_handle_irq (example_request, request_enable_irq example_request example_uart) = Some (rq, u)
     \<and> request_is_finished rq \<and> rq_size rq = 1"
  by (simp add: request_handle_irq_def fill_from_uart_def try_read_def read_fr_def read_dr_def clear_read_irq_def
    request_enable_irq_def enable_read_irq_def mask_disable_def example_uart_fields poll_put_never_full
    put_def u32_char_def char_of_def Let_def request_is_finished_def)

text \<open>Reading one byte into a buffer of four, while task 2 can run.\<close>

lemma resume_irq_is_irq:
  "resume_irq l = Some l' \<Longrightarrow> uart_irqs (k_request l, k_uart l) (k_request l', k_uart l')"
  by (auto simp: resume_irq_def split: bind_splits intro: uart_irqs.intros)

lemma uart_read_one:
  assumes "tasks_are k ts" and "k_request k = no_request" and "k_uart k = example_uart"
    and r: "0 < length ts" "2 < length ts" "t_state (ts ! 2) \<noteq> Waiting" "unat (k_running_task_index k) = 0"
  shows "\<exists>buf' k'. uart_file_read resume_irq ''....'' 1 k = Some (1, buf', k')"
proof -
  let ?u = "request_enable_irq example_request example_uart"
  let ?k = "k\<lparr>k_request := example_request, k_uart := ?u\<rparr>"
  have "tasks_are ?k ts" "unat (k_running_task_index ?k) = 0"
    using assms(1) r(4) by (simp_all add: tasks_are_def)
  from wait_ok [OF this(1) r(1) this(2) r(2) _ r(3) refl, of RequestWaitable]
  obtain k1 where k1: "reschedule_while_waiting_for RequestWaitable ?k = Some k1"
      "k_request k1 = example_request" "k_uart k1 = ?u" by auto
  obtain rq u where irq: "request_handle_irq (example_request, ?u) = Some (rq, u)" "request_is_finished rq" "rq_size rq = 1"
    using example_irq by blast
  have "uart_transfer_start False ''....'' 1 (no_request, example_uart) = Some (example_request, ?u)"
    using set_irq_same [of example_request example_uart]
    by (simp add: uart_transfer_start_def uart_request_new_def request_is_finished_def no_request_def Let_def)
  moreover have "\<not> request_is_finished example_request" by (simp add: request_is_finished_def)
  moreover have "resume_irq k1 = Some (k1\<lparr>k_request := rq, k_uart := u\<rparr>)"
    using irq(1) k1(2,3) by (simp add: resume_irq_def)
  moreover have "uart_transfer_result rq = Some 1" using irq by (simp add: uart_transfer_result_def)
  ultimately show ?thesis
    using k1(1) assms(2,3) by (simp add: uart_file_read_def uart_file_transfer_def)
qed

lemma example_idle: "request_is_finished no_request"
  by (simp add: no_request_def request_is_finished_def)

theorem uart_read_bounded_witness:
  "\<exists>buf' k'. uart_file_read resume_irq ''....'' 1 example_kernel = Some (1, buf', k') \<and> drop 1 buf' = ''...''"
proof -
  have fields: "k_request example_kernel = no_request" "k_uart example_kernel = example_uart"
      "unat (k_running_task_index example_kernel) = 0"
    by (simp_all add: example_kernel_def)
  have r: "0 < length example_tasks" "2 < length example_tasks" "t_state (example_tasks ! 2) \<noteq> Waiting"
    by (simp_all add: example_tasks_def example_task_def)
  have inv: "sched_inv 2 example_kernel" using example_tasks_are r fields(3) by (auto simp: sched_inv_def)
  obtain buf' k' where run: "uart_file_read resume_irq ''....'' 1 example_kernel = Some (1, buf', k')"
    using uart_read_one [OF example_tasks_are fields(1,2) r fields(3)] by blast
  have idle: "request_is_finished (k_request example_kernel)" "drains (k_uart example_kernel)"
    using fields example_idle example_drains by simp_all
  from uart_read_bounded [OF idle _ _ inv _ resume_irq_is_irq run] fields(3) show ?thesis
    using run by (simp add: ssize_max_def)
qed

end
