(* ===== verification/Display.thy ===== *)
theory Display
  imports Font Kfiles
begin

unbundle bit_operations_syntax

text \<open>
  The mailbox to the video processor (kernel/device/videocore/mailbox.hpp and mailbox.cpp) and the
  display (kernel/device/bcm2835/display.hpp and display.cpp).

  The processor on the other side is given by what the n-th reading of a register shows, and by what
  the n-th look at the message's memory finds after it was sent. The frame buffer is the list of
  its pixels; a pixel outside is \<open>None\<close>, and so are a panic and an endless loop.
\<close>

section \<open>The mailbox\<close>

definition MAILBOX_FULL :: u32 where "MAILBOX_FULL = 0x80000000"

definition MAILBOX_EMPTY :: u32 where "MAILBOX_EMPTY = 0x40000000"

definition MAILBOX_RESPONSE :: u32 where "MAILBOX_RESPONSE = 0x80000000"

definition MAILBOX_ERROR :: u32 where "MAILBOX_ERROR = 0x80000001"

record mailbox =
  mb_status :: "nat \<Rightarrow> u32"
  mb_status_readings :: nat
  mb_read :: "nat \<Rightarrow> u32"
  mb_readings :: nat
  mb_contents :: "nat \<Rightarrow> u32 list"
  mb_looks :: nat
  mb_sent :: "(u32 \<times> u32 list) list"

definition mailbox_status :: "mailbox \<Rightarrow> u32 \<times> mailbox" where
  "mailbox_status mb = (mb_status mb (mb_status_readings mb), mb\<lparr>mb_status_readings := mb_status_readings mb + 1\<rparr>)"

definition mailbox_read :: "mailbox \<Rightarrow> u32 \<times> mailbox" where
  "mailbox_read mb = (mb_read mb (mb_readings mb), mb\<lparr>mb_readings := mb_readings mb + 1\<rparr>)"

definition mailbox_write :: "u32 \<Rightarrow> u32 list \<Rightarrow> mailbox \<Rightarrow> mailbox" where
  "mailbox_write data contents mb = mb\<lparr>mb_sent := mb_sent mb @ [(data, contents)]\<rparr>"

partial_function (option) mailbox_wait_full :: "mailbox \<Rightarrow> mailbox option" where
  "mailbox_wait_full mb =
     (let (status, mb) = mailbox_status mb
      in if status AND MAILBOX_FULL \<noteq> 0 then mailbox_wait_full mb else Some mb)"

text \<open>The inner loop: \<open>Some None\<close> when a message for someone else was read.\<close>

partial_function (option) mailbox_replies ::
    "u32 \<Rightarrow> mailbox \<Rightarrow> ((bool \<times> u32 list) option \<times> mailbox) option" where
  "mailbox_replies message mb =
     (let (data, mb) = mailbox_read mb
      in if data = message then
           (let contents = mb_contents mb (mb_looks mb); mb = mb\<lparr>mb_looks := mb_looks mb + 1\<rparr>
            in case arr_at contents 1 of
                 None \<Rightarrow> None
               | Some response \<Rightarrow>
                   if response = MAILBOX_RESPONSE then Some (Some (True, contents), mb)
                   else if response = MAILBOX_ERROR then Some (Some (False, contents), mb)
                   else mailbox_replies message mb)
         else Some (None, mb))"

partial_function (option) mailbox_await :: "u32 \<Rightarrow> mailbox \<Rightarrow> ((bool \<times> u32 list) \<times> mailbox) option" where
  "mailbox_await message mb =
     (let (status, mb) = mailbox_status mb
      in if status AND MAILBOX_EMPTY \<noteq> 0 then mailbox_await message mb
         else (case mailbox_replies message mb of
                 None \<Rightarrow> None
               | Some (None, mb) \<Rightarrow> mailbox_await message mb
               | Some (Some r, mb) \<Rightarrow> Some (r, mb)))"

declare mailbox_wait_full.simps [code] mailbox_replies.simps [code] mailbox_await.simps [code]

text \<open>The result carries the message's memory when it was accepted or refused.\<close>

definition send_in_property_channel ::
    "u32 \<Rightarrow> u32 list \<Rightarrow> mailbox \<Rightarrow> ((bool \<times> u32 list) \<times> mailbox) option" where
  "send_in_property_channel message_addr contents mb =
     (if \<not> is_aligned_two message_addr (16 :: u32) then None
      else do {
        let message = message_addr OR 8;
        mb \<leftarrow> mailbox_wait_full mb;
        mailbox_await message (mailbox_write message contents mb)
      })"

record serial_num =
  serial_bottom :: u32
  serial_top :: u32

definition try_retrieve_serial_num ::
    "u32 \<Rightarrow> u32 list \<Rightarrow> mailbox \<Rightarrow> (serial_num option \<times> mailbox) option" where
  "try_retrieve_serial_num addr message_contents mb = do {
     contents \<leftarrow> arr_insert message_contents 0 32;
     contents \<leftarrow> arr_insert contents 1 0;
     contents \<leftarrow> arr_insert contents 2 0x10004;
     contents \<leftarrow> arr_insert contents 3 8;
     contents \<leftarrow> arr_insert contents 4 8;
     contents \<leftarrow> arr_insert contents 7 0;
     ((ok, contents), mb) \<leftarrow> send_in_property_channel addr contents mb;
     (if \<not> ok then Some (None, mb)
      else do {
        bottom \<leftarrow> arr_at contents 5;
        top \<leftarrow> arr_at contents 6;
        Some (Some \<lparr>serial_bottom = bottom, serial_top = top\<rparr>, mb)
      })
   }"

section \<open>The display\<close>

record display =
  dp_width :: u32
  dp_height :: u32
  dp_depth :: u32
  dp_pitch :: u32
  dp_buffer :: ptr
  dp_size :: size_t
  dp_pixels :: "u32 list"

definition display_depth :: u32 where "display_depth = 4 * 8"

text \<open>The message as the words of its packed struct.\<close>

definition display_message :: "u32 \<Rightarrow> u32 \<Rightarrow> u32 list" where
  "display_message width height =
     [124, 0,
      0x48003, 8, 8, width, height,
      0x48004, 8, 8, width, height,
      0x48005, 4, 4, display_depth,
      0x48009, 8, 8, 0, 0,
      0x40001, 8, 8, PageSize, 0,
      0x40008, 4, 4, 0,
      0]"

text \<open>\<open>vram\<close> are the pixels the allocated frame buffer holds.\<close>

definition display_init ::
    "u32 \<Rightarrow> u32 list \<Rightarrow> u32 \<Rightarrow> u32 \<Rightarrow> mailbox \<Rightarrow> (display \<times> mailbox) option" where
  "display_init addr vram width height mb = do {
     ((ok, message), mb) \<leftarrow> send_in_property_channel addr (display_message width height) mb;
     (if \<not> ok then None
      else do {
        phys_width \<leftarrow> arr_at message 5;
        phys_height \<leftarrow> arr_at message 6;
        virt_width \<leftarrow> arr_at message 10;
        virt_height \<leftarrow> arr_at message 11;
        depth \<leftarrow> arr_at message 15;
        buffer \<leftarrow> arr_at message 24;
        sz \<leftarrow> arr_at message 25;
        pitch \<leftarrow> arr_at message 29;
        (if phys_width \<noteq> virt_width then None
         else if phys_height \<noteq> virt_height then None
         else if depth \<noteq> display_depth then None
         else Some (\<lparr>dp_width = phys_width, dp_height = phys_height, dp_depth = depth, dp_pitch = pitch,
           dp_buffer = buffer AND NOT 0xC0000000, dp_size = sz, dp_pixels = vram\<rparr>, mb))
      })
   }"

definition draw_pixel :: "u32 \<Rightarrow> u32 \<Rightarrow> u32 \<Rightarrow> display \<Rightarrow> display option" where
  "draw_pixel x y color d =
     (let bytes_per_pixel = dp_depth d div 8 in
      if bytes_per_pixel = 0 then None
      else do {
        let offset = x + (y * dp_pitch d) div bytes_per_pixel;
        pixels \<leftarrow> arr_insert (dp_pixels d) (unat offset) color;
        Some (d\<lparr>dp_pixels := pixels\<rparr>)
      })"

text \<open>The two loops over the font's pixels, as one over their positions in the same order.\<close>

definition font_positions :: "(u32 \<times> u32) list" where
  "font_positions = concat (map (\<lambda>font_y. map (\<lambda>font_x. (of_nat font_x, of_nat font_y)) [0..<unat font_width])
     [0..<unat font_height])"

fun draw_pixels :: "char \<Rightarrow> u32 \<Rightarrow> u32 \<Rightarrow> u32 \<Rightarrow> (u32 \<times> u32) list \<Rightarrow> display \<Rightarrow> display option" where
  "draw_pixels ch x y color [] d = Some d"
| "draw_pixels ch x y color ((font_x, font_y) # ps) d = do {
     visible \<leftarrow> character_has_visible_pixel ch font_x font_y;
     d \<leftarrow> (if \<not> visible then Some d else draw_pixel (x + font_x) (y + font_y) color d);
     draw_pixels ch x y color ps d
   }"

definition draw_character :: "char \<Rightarrow> u32 \<Rightarrow> u32 \<Rightarrow> u32 \<Rightarrow> display \<Rightarrow> display option" where
  "draw_character ch x y color d = draw_pixels ch x y color font_positions d"

fun draw_string_loop :: "u32 \<Rightarrow> char list \<Rightarrow> u32 \<Rightarrow> u32 \<Rightarrow> u32 \<Rightarrow> display \<Rightarrow> display option" where
  "draw_string_loop original_x [] x y color d = Some d"
| "draw_string_loop original_x (ch # string) x y color d =
     (if ch = CHR 0x0A then draw_string_loop original_x string original_x (y + (font_height + 2)) color d
      else if dp_width d < x + font_width then draw_string_loop original_x string x y color d
      else if dp_width d < y then draw_string_loop original_x string x y color d
      else do {
        d \<leftarrow> draw_character ch x y color d;
        draw_string_loop original_x string (x + (font_width + 2)) y color d
      })"

definition draw_string :: "char list \<Rightarrow> u32 \<Rightarrow> u32 \<Rightarrow> u32 \<Rightarrow> display \<Rightarrow> display option" where
  "draw_string string x y color d = draw_string_loop x string x y color d"

section \<open>The display file\<close>

record 's display_file =
  df_displayed_string :: str
  df_bytes :: bytes
  df_alloc :: 's
  df_display :: display

definition display_file_read ::
    "char list \<Rightarrow> size_t \<Rightarrow> 's display_file \<Rightarrow> (int \<times> char list \<times> 's display_file) option" where
  "display_file_read buf at_most_bytes f =
     (if s_length (df_displayed_string f) = 0 then Some (0, buf, f)
      else do {
        from \<leftarrow> df_bytes f (s_string (df_displayed_string f));
        (buf, amount_copied) \<leftarrow> strbufcopy buf 0 (unat at_most_bytes) from;
        Some (int amount_copied, buf, f)
      })"

definition display_file_write ::
    "(size_t \<Rightarrow> 's \<Rightarrow> (allocation \<times> 's) option) \<Rightarrow> (allocation \<Rightarrow> 's \<Rightarrow> (size_t \<times> 's) option)
       \<Rightarrow> (ptr \<Rightarrow> nat \<Rightarrow> char list) \<Rightarrow> char list \<Rightarrow> size_t \<Rightarrow> 's display_file \<Rightarrow> (int \<times> 's display_file) option" where
  "display_file_write allocate free garbage buf n f = do {
     (displayed, b, a) \<leftarrow> str_clear free (df_displayed_string f) (df_bytes f, df_alloc f);
     let f = f\<lparr>df_displayed_string := displayed, df_bytes := b, df_alloc := a\<rparr>;
     (maybe_string, b, a) \<leftarrow> str_try_create_n allocate garbage buf n (df_bytes f, df_alloc f);
     let f = f\<lparr>df_bytes := b, df_alloc := a\<rparr>;
     (case maybe_string of
        None \<Rightarrow> Some (- errno_int ENOMEM, f)
      | Some s \<Rightarrow> do {
          let f = f\<lparr>df_displayed_string := s\<rparr>;
          chars \<leftarrow> df_bytes f (s_string s);
          (if length chars < unat (s_length s) then None
           else do {
             d \<leftarrow> draw_string (take (unat (s_length s)) chars) 20 20 0x21dd7f (df_display f);
             Some (sint n, f\<lparr>df_display := d\<rparr>)
           })
        })
   }"

section \<open>Drawing stays inside, or does not\<close>

text \<open>
  A display with 4 bytes per pixel and no gap between its rows, whose frame buffer has exactly its
  pixels; no pixel's byte offset wraps, down to the last row that a line starting on a row up to the
  display's width can reach.
\<close>

definition display_ok :: "display \<Rightarrow> bool" where
  "display_ok d \<longleftrightarrow> dp_depth d = 32 \<and> dp_pitch d = dp_width d * 4
     \<and> length (dp_pixels d) = unat (dp_width d) * unat (dp_height d)
     \<and> (unat (dp_width d) + unat (dp_height d) + 32) * (unat (dp_width d) * 4 + 4) < 2 ^ 32"

definition same_geometry :: "display \<Rightarrow> display \<Rightarrow> bool" where
  "same_geometry d d' \<longleftrightarrow> (\<exists>ps. d' = d\<lparr>dp_pixels := ps\<rparr> \<and> length ps = length (dp_pixels d))"

lemma same_geometry_refl [simp]: "same_geometry d d"
  unfolding same_geometry_def by (intro exI [of _ "dp_pixels d"]) simp

lemma same_geometry_trans: "same_geometry d e \<Longrightarrow> same_geometry e f \<Longrightarrow> same_geometry d f"
  by (auto simp: same_geometry_def)

lemma same_geometry_fields:
  assumes "same_geometry d d'"
  shows "dp_width d' = dp_width d" "dp_height d' = dp_height d" "display_ok d' = display_ok d"
  using assms by (auto simp: same_geometry_def display_ok_def)

lemma pixel_offset:
  assumes ok: "display_ok d" and y: "unat y \<le> unat (dp_width d) + unat (dp_height d) + 31" and x: "unat x < unat (dp_width d) + 4"
  shows "unat (x + (y * dp_pitch d) div 4) = unat x + unat y * unat (dp_width d)"
proof -
  let ?w = "unat (dp_width d)"
  have "unat y * (?w * 4) + (?w * 4 + 4) \<le> (?w + unat (dp_height d) + 32) * (?w * 4 + 4)"
  proof -
    have "unat y * (?w * 4) + (?w * 4 + 4) \<le> unat y * (?w * 4 + 4) + (?w * 4 + 4)" by simp
    also have "\<dots> = (unat y + 1) * (?w * 4 + 4)" by simp
    also have "\<dots> \<le> (?w + unat (dp_height d) + 32) * (?w * 4 + 4)"
      using y by (intro mult_le_mono1) simp
    finally show ?thesis .
  qed
  also have "\<dots> < 2 ^ 32" using ok by (simp add: display_ok_def)
  finally have b: "unat y * (?w * 4) + (?w * 4 + 4) < 2 ^ 32" .
  have p: "unat (dp_width d * 4) = ?w * 4"
  proof -
    have "?w * 4 < 2 ^ 32" by (rule le_less_trans [OF _ b]) simp
    then show ?thesis using unat_mult_lem [of "dp_width d" 4] by simp
  qed
  have m: "unat (y * dp_pitch d) = unat y * (?w * 4)"
  proof -
    have pitch: "unat (dp_pitch d) = ?w * 4" using ok p by (simp add: display_ok_def)
    moreover have "unat y * (?w * 4) < 2 ^ 32" by (rule le_less_trans [OF _ b]) simp
    ultimately have "unat y * unat (dp_pitch d) < 2 ^ LENGTH(32)" by simp
    then show ?thesis using unat_mult_lem [of y "dp_pitch d"] pitch by metis
  qed
  have "unat ((y * dp_pitch d) div 4) = unat y * ?w" by (simp add: unat_div m)
  moreover have "unat x + unat y * ?w < 2 ^ 32"
    by (rule le_less_trans [OF _ b]) (use x in \<open>simp add: trans_le_add2 add.commute\<close>)
  ultimately show ?thesis by (subst unat_add_lt) simp_all
qed

lemma draw_pixel_inside:
  assumes ok: "display_ok d" and x: "unat x < unat (dp_width d)" and y: "unat y < unat (dp_height d)"
  shows "\<exists>d'. draw_pixel x y color d = Some d' \<and> same_geometry d d'"
proof -
  let ?w = "unat (dp_width d)"
  have "unat x + unat y * ?w < ?w * unat (dp_height d)"
  proof -
    have "unat x + unat y * ?w < (unat y + 1) * ?w" using x by simp
    also have "\<dots> \<le> unat (dp_height d) * ?w" using y by (intro mult_le_mono1) simp
    finally show ?thesis by (simp add: mult.commute)
  qed
  moreover have "dp_depth d div 8 = 4" using ok by (simp add: display_ok_def)
  moreover have "unat (x + (y * dp_pitch d) div 4) = unat x + unat y * ?w"
    using pixel_offset [OF ok, of y x] x y by simp
  ultimately show ?thesis
    using ok by (auto simp: draw_pixel_def arr_insert_def same_geometry_def display_ok_def)
qed

lemma draw_pixel_outside:
  assumes ok: "display_ok d" and x: "unat x < unat (dp_width d)"
    and y: "unat (dp_height d) \<le> unat y" "unat y \<le> unat (dp_width d) + unat (dp_height d) + 31"
  shows "draw_pixel x y color d = None"
proof -
  let ?w = "unat (dp_width d)"
  have "?w * unat (dp_height d) \<le> unat x + unat y * ?w"
    using mult_le_mono1 [OF y(1), of ?w] by (simp add: mult.commute trans_le_add2)
  moreover have "dp_depth d div 8 = 4" using ok by (simp add: display_ok_def)
  ultimately show ?thesis
    using ok pixel_offset [OF ok, of y x] x y by (simp add: draw_pixel_def arr_insert_def display_ok_def)
qed

lemma visible_row: "character_has_visible_pixel ch x y = Some True \<Longrightarrow> y < 16"
  by (auto simp: character_has_visible_pixel_def char_height_def linorder_not_le split: if_splits)

lemma unat_add_small:
  assumes "a < (c :: u32)" "unat x + unat c \<le> unat (m :: u32)"
  shows "unat (x + a) = unat x + unat a"
proof -
  have "unat a < unat c" using assms(1) by (simp add: unat_word_lt)
  moreover have "unat m < 2 ^ LENGTH(32)" by (rule unat_lt_exp)
  ultimately have "unat x + unat a < 2 ^ LENGTH(32)" using assms(2) by linarith
  then show ?thesis by (subst unat_add_lt) simp_all
qed

lemma draw_pixels_inside:
  assumes "display_ok d" and "\<forall>(fx, fy)\<in>set ps. fx < 8"
    and "unat x + 8 \<le> unat (dp_width d)" and "unat y + 16 \<le> unat (dp_height d)"
  shows "\<exists>d'. draw_pixels ch x y color ps d = Some d' \<and> same_geometry d d'"
  using assms
proof (induction ps arbitrary: d)
  case (Cons p ps)
  obtain fx fy where p: "p = (fx, fy)" by (cases p)
  then have fx: "fx < 8" using Cons.prems(2) by simp
  then have "fx < 32" by (simp add: unat_word_lt)
  then obtain b where b: "character_has_visible_pixel ch fx fy = Some b"
    using font_lookup_ok by blast
  have "\<exists>e. (if \<not> b then Some d else draw_pixel (x + fx) (y + fy) color d) = Some e \<and> same_geometry d e"
  proof (cases b)
    case True
    then have fy: "fy < 16" using b visible_row by simp
    have "unat (x + fx) = unat x + unat fx" using unat_add_small [OF fx, of x "dp_width d"] Cons.prems(3) by simp
    moreover have "unat (y + fy) = unat y + unat fy" using unat_add_small [OF fy, of y "dp_height d"] Cons.prems(4) by simp
    ultimately show ?thesis
      using draw_pixel_inside [OF Cons.prems(1), of "x + fx" "y + fy" color] True fx fy Cons.prems(3,4)
      by (simp add: unat_word_lt)
  qed simp
  then obtain e where e: "(if \<not> b then Some d else draw_pixel (x + fx) (y + fy) color d) = Some e" "same_geometry d e"
    by blast
  have "\<exists>d'. draw_pixels ch x y color ps e = Some d' \<and> same_geometry e d'"
    using Cons.prems same_geometry_fields [OF e(2)] by (intro Cons.IH) simp_all
  then show ?case using p b e same_geometry_trans by auto
qed simp

lemma font_positions_set:
  "(fx, fy) \<in> set font_positions \<longleftrightarrow> fx < 8 \<and> fy < 19"
proof
  assume "(fx, fy) \<in> set font_positions"
  then obtain a b where "fx = of_nat a" "fy = of_nat b" "a < 8" "b < 19"
    by (auto simp: font_positions_def font_width_def font_height_def char_height_def font_padding_def)
  then show "fx < 8 \<and> fy < 19" by (simp add: unat_word_lt unat_of_nat_lt)
next
  assume "fx < 8 \<and> fy < 19"
  then have "unat fx < 8" "unat fy < 19" by (simp_all add: unat_word_lt)
  then show "(fx, fy) \<in> set font_positions"
    by (auto simp: font_positions_def font_width_def font_height_def char_height_def font_padding_def
      intro!: bexI [of _ "unat fy"] image_eqI [of _ _ "unat fx"])
qed

lemma font_positions_inside: "\<forall>(fx, fy)\<in>set font_positions. fx < 8"
  by (auto simp: font_positions_set)

lemma draw_pixels_outside:
  assumes "display_ok d" and "\<forall>(fx, fy)\<in>set ps. fx < 8"
    and "unat x + 8 \<le> unat (dp_width d)" and "unat (dp_height d) \<le> unat y" "unat y \<le> unat (dp_width d)"
    and "(fx, fy) \<in> set ps" "character_has_visible_pixel ch fx fy = Some True"
  shows "draw_pixels ch x y color ps d = None"
  using assms
proof (induction ps)
  case (Cons p ps)
  obtain gx gy where p: "p = (gx, gy)" by (cases p)
  then have gx: "gx < 8" using Cons.prems(2) by simp
  then have "gx < 32" by (simp add: unat_word_lt)
  then obtain b where b: "character_has_visible_pixel ch gx gy = Some b" using font_lookup_ok by blast
  show ?case
  proof (cases b)
    case True
    then have gy: "gy < 16" using b visible_row by simp
    have x: "unat (x + gx) = unat x + unat gx" using unat_add_small [OF gx, of x "dp_width d"] Cons.prems(3) by simp
    have big: "unat y + 16 < 2 ^ 32"
    proof -
      have "unat y + 16 \<le> (unat (dp_width d) + unat (dp_height d) + 32) * 1" using Cons.prems(5) by simp
      also have "\<dots> \<le> (unat (dp_width d) + unat (dp_height d) + 32) * (unat (dp_width d) * 4 + 4)"
        by (rule mult_le_mono2) simp
      also have "\<dots> < 2 ^ 32" using Cons.prems(1) by (simp add: display_ok_def)
      finally show ?thesis .
    qed
    have gy': "unat gy < 16" using gy by (simp add: unat_word_lt)
    have y: "unat (y + gy) = unat y + unat gy" using big gy' by (subst unat_add_lt) simp_all
    have "draw_pixel (x + gx) (y + gy) color d = None"
      using x y gx gy' Cons.prems(3-5) by (intro draw_pixel_outside [OF Cons.prems(1)]) (simp_all add: unat_word_lt)
    then show ?thesis using p b True by simp
  next
    case False
    then have "(fx, fy) \<in> set ps" using p b Cons.prems(6,7) by auto
    then show ?thesis using Cons.IH Cons.prems p b False by simp
  qed
qed simp

lemma font_height_eq: "font_height = 19"
  by (simp add: font_height_def char_height_def font_padding_def)

definition newlines :: "char list \<Rightarrow> nat" where
  "newlines s = length (filter (\<lambda>ch. ch = CHR 0x0A) s)"

lemma draw_string_loop_inside:
  assumes "display_ok d" and "unat x \<le> unat (dp_width d) + 2" and "unat x0 \<le> unat (dp_width d) + 2"
    and "unat y + 21 * newlines s + 16 \<le> unat (dp_height d)" and "unat (dp_width d) + 12 < 2 ^ 32"
  shows "\<exists>d'. draw_string_loop x0 s x y color d = Some d' \<and> same_geometry d d'"
  using assms
proof (induction s arbitrary: x y d)
  case (Cons ch s)
  have h: "unat (dp_height d) < 2 ^ LENGTH(32)" by (rule unat_lt_exp)
  show ?case
  proof (cases "ch = CHR 0x0A")
    case True
    have "unat y + 21 < 2 ^ LENGTH(32)" using Cons.prems(4) True h by (simp add: newlines_def)
    then have "unat (y + 21) = unat y + 21" by (subst unat_add_lt) simp_all
    then have "\<exists>d'. draw_string_loop x0 s x0 (y + 21) color d = Some d' \<and> same_geometry d d'"
      using Cons.prems True by (intro Cons.IH) (simp_all add: newlines_def)
    then show ?thesis using True by (simp add: font_height_eq)
  next
    case False
    then have lines: "unat y + 21 * newlines s + 16 \<le> unat (dp_height d)"
      using Cons.prems(4) by (simp add: newlines_def)
    note IH = Cons.IH [OF _ _ Cons.prems(3)]
    show ?thesis
    proof (cases "dp_width d < x + font_width \<or> dp_width d < y")
      case True
      have "\<exists>d'. draw_string_loop x0 s x y color d = Some d' \<and> same_geometry d d'"
        using Cons.prems(1-3,5) lines by (intro Cons.IH)
      then show ?thesis using True False by auto
    next
      case fits: False
      have "unat x + 8 < 2 ^ LENGTH(32)" using Cons.prems(2,5) by simp
      then have "unat (x + 8) = unat x + 8" by (subst unat_add_lt) simp_all
      then have x8: "unat x + 8 \<le> unat (dp_width d)"
        using fits by (simp add: font_width_def linorder_not_less unat_word_le)
      have "unat y + 16 \<le> unat (dp_height d)" using lines by simp
      then obtain e where e: "draw_character ch x y color d = Some e" "same_geometry d e"
        using draw_pixels_inside [OF Cons.prems(1) font_positions_inside x8, of y ch color]
        by (auto simp: draw_character_def)
      note g = same_geometry_fields [OF e(2)]
      have "unat x + 10 < 2 ^ LENGTH(32)" using Cons.prems(2,5) by simp
      then have x10: "unat (x + 10) = unat x + 10" by (subst unat_add_lt) simp_all
      have "\<exists>d'. draw_string_loop x0 s (x + 10) y color e = Some d' \<and> same_geometry e d'"
        using Cons.prems(1,3,5) lines x8 x10 g by (intro Cons.IH) simp_all
      then obtain d' where d': "draw_string_loop x0 s (x + 10) y color e = Some d'" "same_geometry e d'" by blast
      show ?thesis
        using False fits e(1) d'(1) same_geometry_trans [OF e(2) d'(2)] by (simp add: font_width_def)
    qed
  qed
qed simp

text \<open>
  C38. Text that fits is drawn inside the frame buffer: when the lines of a string end above the bottom of
  the display, drawing it returns, whatever their lengths, and changes nothing but pixels.
\<close>

theorem draw_string_inside:
  assumes "display_ok d" and "unat x \<le> unat (dp_width d)" and "unat (dp_width d) + 12 < 2 ^ 32"
    and "unat y + 21 * newlines s + 16 \<le> unat (dp_height d)"
  shows "\<exists>d'. draw_string s x y color d = Some d' \<and> same_geometry d d'"
  unfolding draw_string_def using assms by (intro draw_string_loop_inside) simp_all

lemma draw_newlines:
  assumes "unat y + 21 * n < 2 ^ 32"
  shows "draw_string_loop x0 (replicate n (CHR 0x0A) @ s) x y color d
    = draw_string_loop x0 s (if n = 0 then x else x0) (y + 21 * of_nat n) color d"
  using assms
proof (induction n arbitrary: x y)
  case (Suc n)
  have "unat (y + 21) = unat y + 21" using Suc.prems by (subst unat_add_lt) simp_all
  then show ?case using Suc.prems Suc.IH [of "y + 21" x0] by (simp add: font_height_eq algebra_simps)
qed simp

text \<open>
  Text that is too long is drawn behind the frame buffer: the check compares the row with the width
  of the display, so on a display that is wider than high, a visible character below the bottom row is
  still drawn, outside the buffer.
\<close>

lemma draw_string_overruns:
  assumes "display_ok d" and "unat x + 8 \<le> unat (dp_width d)"
    and "unat (dp_height d) \<le> unat y + 21 * n" and "unat y + 21 * n \<le> unat (dp_width d)"
    and "character_has_visible_pixel ch fx fy = Some True" and "fx < 8" and "ch \<noteq> CHR 0x0A"
  shows "draw_string (replicate n (CHR 0x0A) @ ch # s) x y color d = None"
proof -
  have w: "unat (dp_width d) < 2 ^ LENGTH(32)" by (rule unat_lt_exp)
  let ?y = "y + 21 * of_nat n :: u32"
  have n: "21 * n < 2 ^ LENGTH(32)" using assms(4) w by linarith
  have "unat (21 * of_nat n :: u32) = 21 * n"
    using n unat_of_nat_lt [of "21 * n", where ?'a = 32] by simp
  then have y: "unat ?y = unat y + 21 * n" using assms(4) w by (subst unat_add_lt) simp_all
  have x: "unat (x + 8) = unat x + 8" using assms(2) w by (subst unat_add_lt) simp_all
  have "fy < 16" by (rule visible_row [OF assms(5)])
  then have pos: "(fx, fy) \<in> set font_positions" using assms(6) by (simp add: font_positions_set unat_word_lt)
  have "draw_character ch x ?y color d = None"
    unfolding draw_character_def
    using assms(3,4) y by (intro draw_pixels_outside [OF assms(1) font_positions_inside assms(2) _ _ pos assms(5)]) simp_all
  moreover have "\<not> dp_width d < x + font_width" "\<not> dp_width d < ?y"
    using assms(2,4) x y by (simp_all add: font_width_def unat_word_lt)
  moreover have "unat y + 21 * n < 2 ^ 32" using assms(4) w by simp
  ultimately show ?thesis
    using assms(7) by (simp add: draw_string_def draw_newlines)
qed

section \<open>A concrete display\<close>

text \<open>64 pixels wide and 24 high.\<close>

definition example_display :: display where
  "example_display = \<lparr>dp_width = 64, dp_height = 24, dp_depth = 32, dp_pitch = 256, dp_buffer = 1048576,
     dp_size = 6144, dp_pixels = replicate 1536 0\<rparr>"

lemma example_display_ok: "display_ok example_display"
  by (simp add: display_ok_def example_display_def)

theorem draw_string_inside_witness:
  "\<exists>d. draw_string ''Hi'' 2 4 1 example_display = Some d"
  using draw_string_inside [OF example_display_ok, of 2 4 "''Hi''" 1]
  by (auto simp: example_display_def newlines_def)

lemma visible_A: "character_has_visible_pixel (CHR ''A'') 3 2 = Some True"
  by (simp add: character_has_visible_pixel_def char_height_def start_ch_def font_data_def font_data_low_def arr_at_def)

end
