(* ===== verification/Printing.thy ===== *)
theory Printing
  imports Mmu Processor Console
begin

unbundle bit_operations_syntax

text \<open>
  The \<open>print\_with\<close> functions of the classes (pine/linked\_list.hpp, pine/page.hpp, pine/malloc.cpp,
  kernel/arch/aarch32/processor.cpp and mmu.cpp), over any printer.
\<close>

section \<open>Regions and lists\<close>

definition print_with_region :: "'s printer \<Rightarrow> region \<Rightarrow> 's \<Rightarrow> 's option" where
  "print_with_region print r st = do {
     st \<leftarrow> print_each_with_spacing print [print_lit print ''(''] st;
     st \<leftarrow> print_each_with_spacing print
       [print_with_int print CUInt (uint (rg_offset r)), print_lit print '','',
        print_with_int print CUInt (uint (rg_length r))] st;
     print_lit print '')'' st
   }"

partial_function (option) print_list_loop ::
    "'s printer \<Rightarrow> ('c \<Rightarrow> 's \<Rightarrow> 's option) \<Rightarrow> 'c heap \<Rightarrow> mll \<Rightarrow> ptr_iter \<Rightarrow> 's \<Rightarrow> 's option" where
  "print_list_loop print print_content h l it st =
     (if it \<noteq> mll_end l then
        Option.bind (pi_deref it) (\<lambda>x. Option.bind (get_node h x) (\<lambda>n.
          Option.bind (print_content (nd_content n) st) (\<lambda>st.
            Option.bind (pi_incr h it) (\<lambda>it.
              Option.bind (if it \<noteq> mll_end l then print_lit print '' <-> '' st else Some st)
                (print_list_loop print print_content h l it)))))
      else Some st)"

declare print_list_loop.simps [code]

definition print_with_list ::
    "'s printer \<Rightarrow> ('c \<Rightarrow> 's \<Rightarrow> 's option) \<Rightarrow> 'c heap \<Rightarrow> mll \<Rightarrow> 's \<Rightarrow> 's option" where
  "print_with_list print print_content h l st = do {
     st \<leftarrow> print_lit print ''['' st;
     st \<leftarrow> print_list_loop print print_content h l (mll_begin l) st;
     print_lit print '']'' st
   }"

section \<open>The page allocator\<close>

fun print_free_lists :: "'s printer \<Rightarrow> region heap \<Rightarrow> mll list \<Rightarrow> 's \<Rightarrow> 's option" where
  "print_free_lists print h [] st = Some st"
| "print_free_lists print h (l # ls) st = do {
     st \<leftarrow> print_lit print [CHR 0x09] st;
     st \<leftarrow> print_with_list print (print_with_region print) h l st;
     st \<leftarrow> print_lit print ('','' @ [CHR 0x0A]) st;
     print_free_lists print h ls st
   }"

definition print_with_backend :: "'s printer \<Rightarrow> page_backend \<Rightarrow> 's \<Rightarrow> 's option" where
  "print_with_backend print alloc st = do {
     st \<leftarrow> print_lit print (''PageAllocator {'' @ [CHR 0x0A]) st;
     st \<leftarrow> print_free_lists print (pb_heap alloc) (pb_free_lists alloc) st;
     print_lit print ''}'' st
   }"

definition print_with_broker :: "'s printer \<Rightarrow> page_broker \<Rightarrow> 's \<Rightarrow> 's option" where
  "print_with_broker print page_broker st = do {
     st \<leftarrow> print_with_backend print (br_page_allocator page_broker) st;
     st \<leftarrow> print_lit print '' [runway='' st;
     st \<leftarrow> print_with_int print CUInt (uint (br_curr_runway page_broker)) st;
     print_lit print '' bytes]'' st
   }"

section \<open>The processor\<close>

definition bit_arg :: "1 word \<Rightarrow> va_arg" where "bit_arg b = VaWord (ucast b)"

definition print_with_mode :: "'s printer \<Rightarrow> 5 word \<Rightarrow> 's \<Rightarrow> 's option" where
  "print_with_mode print mode st = print_lit print (mode_str mode) st"

definition print_with_cpsr :: "'s printer \<Rightarrow> cpsr \<Rightarrow> 's \<Rightarrow> 's option" where
  "print_with_cpsr print c st = do {
     st \<leftarrow> print_lit print ''CPSR(mode: '' st;
     st \<leftarrow> print_with_mode print (cpsr_m c) st;
     (_, buf) \<leftarrow> sbufprintf (zeroed 24) 24 (lit '', fia:%d%d%d, qvczn:%d%d%d%d%d)'')
       (map bit_arg [cpsr_t c, cpsr_i c, cpsr_a c, cpsr_q c, cpsr_v c, cpsr_c c, cpsr_z c, cpsr_n c]);
     print_with_string print buf st
   }"

section \<open>Translation tables\<close>

text \<open>The field of \<open>n\<close> bits from bit \<open>k\<close> of an entry, masked as the code does.\<close>

definition field_arg :: "u32 \<Rightarrow> nat \<Rightarrow> nat \<Rightarrow> u32 \<Rightarrow> va_arg" where
  "field_arg e k n m = VaWord (take_bit n (drop_bit k e) AND m)"

definition all_bits :: u32 where "all_bits = -1"

definition print_with_l2ptr :: "'s printer \<Rightarrow> u32 \<Rightarrow> 's \<Rightarrow> 's option" where
  "print_with_l2ptr print e st = do {
     (_, buf) \<leftarrow> sbufprintf (zeroed 64) 64 (lit ''L2(sbz:%d%d%d, domain:%d%d%d%d, p:%d, addr:%#x)'')
       [field_arg e 2 3 1, field_arg e 2 3 (push_bit 2 1), field_arg e 2 3 (push_bit 3 1),
        field_arg e 5 4 1, field_arg e 5 4 (push_bit 2 1), field_arg e 5 4 (push_bit 3 1), field_arg e 5 4 (push_bit 4 1),
        field_arg e 9 1 all_bits,
        VaWord (l2ptr_table e)];
     print_with_string print buf st
   }"

definition section_args :: "u32 \<Rightarrow> va_arg list" where
  "section_args e =
     [field_arg e 2 1 all_bits, field_arg e 3 1 all_bits,
      field_arg e 4 1 all_bits,
      field_arg e 5 4 1, field_arg e 5 4 (push_bit 2 1), field_arg e 5 4 (push_bit 3 1), field_arg e 5 4 (push_bit 4 1),
      field_arg e 9 1 all_bits, field_arg e 10 2 1, field_arg e 10 2 (push_bit 2 1),
      field_arg e 12 3 1, field_arg e 12 3 (push_bit 2 1), field_arg e 12 3 (push_bit 3 1),
      field_arg e 15 1 all_bits, field_arg e 16 1 all_bits, field_arg e 17 1 all_bits]"

definition print_with_section :: "'s printer \<Rightarrow> u32 \<Rightarrow> 's \<Rightarrow> 's option" where
  "print_with_section print e st = do {
     (_, buf) \<leftarrow> sbufprintf (zeroed 128) 128 (lit (''Section(bc:%d%d, xn:%d, domain:%d%d%d%d, pap:%d%d%d, '' @
         ''tex:%d%d%d, apx:%d, s:%d, nG:%d, sbz:%d, addr:%#x)''))
       (section_args e @ [field_arg e 19 1 all_bits, VaWord (section_physical_address e)]);
     print_with_string print buf st
   }"

definition print_with_super_section :: "'s printer \<Rightarrow> u32 \<Rightarrow> 's \<Rightarrow> 's option" where
  "print_with_super_section print e st = do {
     (_, buf) \<leftarrow> sbufprintf (zeroed 128) 128 (lit (''SuperSection(bc:%d%d, xn:%d, domain:%d%d%d%d, pap:%d%d%d, '' @
         ''tex:%d%d%d, apx:%d, s:%d, nG:%d, sbz:%d, addr:%x)''))
       (section_args e @ [field_arg e 19 5 all_bits, VaWord (super_section_physical_address e)]);
     print_with_string print buf st
   }"

text \<open>A row of a table; the entries of the table at \<open>table\<close> have four bytes each.\<close>

definition print_l2_row :: "'s printer \<Rightarrow> ptr \<Rightarrow> nat \<Rightarrow> u32 \<Rightarrow> 's \<Rightarrow> 's option" where
  "print_l2_row print table i e st = do {
     st \<leftarrow> print_lit print [CHR 0x09] st;
     st \<leftarrow> print_with_ptr print (va_from_l2_index (of_nat i)) st;
     st \<leftarrow> print_lit print ''|'' st;
     let entry = print_with_ptr print (table + 4 * of_nat i);
     st \<leftarrow> (case l2_entry_type e of
         Some L2Fault \<Rightarrow> print_each_with
           [print_lit print ''fault'', print_lit print ''|'', entry, print_lit print ''|'', print_lit print ''fault''] st
       | Some L2Page \<Rightarrow> print_each_with
           [print_with_ptr print (page_physical_address e), print_lit print ''|'', entry, print_lit print ''|'',
            print_lit print ''page''] st
       | Some L2HugePage \<Rightarrow> print_each_with
           [print_with_ptr print (huge_page_physical_address e), print_lit print ''|'', entry, print_lit print ''|'',
            print_lit print ''huge_page''] st
       | None \<Rightarrow> Some st);
     print_lit print [CHR 0x0A] st
   }"

fun print_l2_rows :: "'s printer \<Rightarrow> ptr \<Rightarrow> nat \<Rightarrow> u32 list \<Rightarrow> 's \<Rightarrow> 's option" where
  "print_l2_rows print table i [] st = Some st"
| "print_l2_rows print table i (e # es) st = do {
     st \<leftarrow> print_l2_row print table i e st;
     print_l2_rows print table (i + 1) es st
   }"

definition print_with_l2_table :: "'s printer \<Rightarrow> ptr \<Rightarrow> u32 list \<Rightarrow> 's \<Rightarrow> 's option" where
  "print_with_l2_table print table es st = do {
     st \<leftarrow> print_lit print ([CHR 0x09] @ ''Virtual Offset|Physical|Entry Addr|Entry'' @ [CHR 0x0A]) st;
     print_l2_rows print table 0 es st
   }"

definition print_l1_row ::
    "'s printer \<Rightarrow> (ptr \<Rightarrow> u32 list option) \<Rightarrow> ptr \<Rightarrow> nat \<Rightarrow> u32 \<Rightarrow> 's \<Rightarrow> 's option" where
  "print_l1_row print l2_tables table i e st = do {
     st \<leftarrow> print_with_ptr print (va_from_l1_index (of_nat i)) st;
     st \<leftarrow> print_lit print ''|'' st;
     let entry = print_with_ptr print (table + 4 * of_nat i);
     st \<leftarrow> (case l1_entry_type e of
         L1Fault \<Rightarrow> print_each_with
           [print_lit print ''fault'', print_lit print ''|'', entry, print_lit print ''|'', print_lit print ''fault''] st
       | L1L2Ptr \<Rightarrow> print_each_with
           [print_with_ptr print (l2ptr_table e), print_lit print ''|'', entry, print_lit print [CHR 0x0A],
            \<lambda>st. do { es \<leftarrow> l2_tables (l2ptr_table e); print_with_l2_table print (l2ptr_table e) es st }] st
       | L1Section \<Rightarrow> print_each_with
           [print_with_ptr print (section_physical_address e), print_lit print ''|'', entry, print_lit print ''|'',
            print_with_section print e] st
       | L1SuperSection \<Rightarrow> print_each_with
           [print_with_ptr print (super_section_physical_address e), print_lit print ''|'', entry, print_lit print ''|'',
            print_with_super_section print e] st);
     print_lit print [CHR 0x0A] st
   }"

fun print_l1_rows :: "'s printer \<Rightarrow> (ptr \<Rightarrow> u32 list option) \<Rightarrow> ptr \<Rightarrow> nat \<Rightarrow> u32 list \<Rightarrow> 's \<Rightarrow> 's option" where
  "print_l1_rows print l2_tables table i [] st = Some st"
| "print_l1_rows print l2_tables table i (e # es) st = do {
     st \<leftarrow> print_l1_row print l2_tables table i e st;
     print_l1_rows print l2_tables table (i + 1) es st
   }"

definition print_with_l1_table ::
    "'s printer \<Rightarrow> (ptr \<Rightarrow> u32 list option) \<Rightarrow> ptr \<Rightarrow> u32 list \<Rightarrow> 's \<Rightarrow> 's option" where
  "print_with_l1_table print l2_tables table es st = do {
     st \<leftarrow> print_lit print (''Virtual|Physical|Entry Addr|Entry'' @ [CHR 0x0A]) st;
     print_l1_rows print l2_tables table 0 es st
   }"

section \<open>What is printed\<close>

text \<open>A printer that collects the text.\<close>

definition text_printer :: "char list printer" where
  "text_printer v st = Some (st @ take (sv_length v) (sv_chars v))"

lemma print_text: "NUL \<in> set s \<Longrightarrow> print_with_string text_printer s st = Some (st @ cstring s)"
  using takeWhile_eq_take [of "\<lambda>c. c \<noteq> NUL" s]
  by (simp add: print_with_string_def print_with_view_def string_view_of_def strlen_eq text_printer_def)

lemma print_lit_text: "NUL \<notin> set s \<Longrightarrow> print_lit text_printer s st = Some (st @ s)"
  by (simp add: print_lit_def lit_def print_text)

lemma print_list_loop_text:
  assumes "list_rep h l (ys @ zs)" and "it = (if zs = [] then mll_end l else \<lparr>it_ptr = hd zs, it_at_end = False\<rparr>)"
    and "\<And>c st. print_content c st = Some (st @ f c)"
  shows "print_list_loop text_printer print_content h l it st
    = Some (st @ joined '' <-> '' (map (\<lambda>x. f (nd_content (the (h x)))) zs))"
  using assms(1,2)
proof (induction zs arbitrary: ys it st)
  case Nil
  then show ?case by (simp add: print_list_loop.simps)
next
  case (Cons x zs)
  let ?it = "if zs = [] then mll_end l else \<lparr>it_ptr = hd zs, it_at_end = False\<rparr>"
  obtain n where n: "h x = Some n" "x \<noteq> nullptr" using list_rep_node [OF Cons.prems(1), of x] by auto
  have on: "iter_on h l it (x # zs)" using Cons.prems by (auto simp: iter_on_def)
  from pi.seq_Cons [OF on] have it: "it \<noteq> mll_end l" "pi_deref it = Some x" and incr: "pi_incr h it = Some ?it"
    by (auto simp: iter_on_def)
  have "list_rep h l ((ys @ [x]) @ zs)" using Cons.prems(1) by simp
  note IH = Cons.IH [OF this refl]
  have sep: "print_lit text_printer '' <-> '' st' = Some (st' @ '' <-> '')" for st' by (rule print_lit_text) simp
  have ne: "(?it \<noteq> mll_end l) = (zs \<noteq> [])" by (simp add: mll_end_def)
  have "print_list_loop text_printer print_content h l it st =
      print_list_loop text_printer print_content h l ?it (st @ f (nd_content n) @ (if zs = [] then [] else '' <-> ''))"
    using it incr n ne by (subst print_list_loop.simps) (simp add: get_node_def assms(3) sep)
  then show ?case using IH n by (cases zs) simp_all
qed

text \<open>
  Printing a list visits its nodes in order and prints their contents, separated by arrows and between
  brackets, as long as the list is well formed; it ends.
\<close>

lemma print_with_list_text:
  assumes "list_rep h l xs" and "\<And>c st. print_content c st = Some (st @ f c)"
  shows "print_with_list text_printer print_content h l st
    = Some (st @ ''['' @ joined '' <-> '' (map (\<lambda>x. f (nd_content (the (h x)))) xs) @ '']'')"
proof -
  have "mll_begin l = (if xs = [] then mll_end l else \<lparr>it_ptr = hd xs, it_at_end = False\<rparr>)"
    using iter_on_begin [OF assms(1)] by (simp add: iter_on_def)
  then have "print_list_loop text_printer print_content h l (mll_begin l) st'
      = Some (st' @ joined '' <-> '' (map (\<lambda>x. f (nd_content (the (h x)))) xs))" for st'
    using print_list_loop_text [of h l "[]" xs "mll_begin l" print_content f] assms by simp
  then show ?thesis by (simp add: print_with_list_def print_lit_text)
qed

section \<open>The status register\<close>

lemma collect_literal:
  "ch \<noteq> CHR ''%'' \<Longrightarrow> ch \<noteq> NUL \<Longrightarrow>
    vfnprintf_loop collect (ch # fmt) args out = vfnprintf_loop collect fmt args (out @ [ch])"
  by (simp add: collect_eq)

definition bit_char :: "1 word \<Rightarrow> char" where
  "bit_char b = (if b = 0 then CHR ''0'' else CHR ''1'')"

lemma one_bit: "b = 0 \<or> b = (1 :: 1 word)"
proof -
  have "unat b < 2" using unat_lt_exp [of b] by simp
  then have "unat b = 0 \<or> unat b = 1" by linarith
  then show ?thesis by (auto simp: word_unat_eq_iff)
qed

lemma decimal_bit: "decimal (sint (ucast (b :: 1 word) :: u32)) = [bit_char b]"
proof -
  have c: "char_of (48 :: nat) = CHR ''0''" "char_of (49 :: nat) = CHR ''1''"
    by (simp_all add: char_of_def bit_Suc_0_iff)
  show ?thesis using one_bit [of b] c by (auto simp: decimal_def bit_char_def log_small)
qed

lemma collect_bit:
  "vfnprintf_loop collect (CHR ''%'' # CHR ''d'' # fmt) (bit_arg b # args) out
    = vfnprintf_loop collect fmt args (out @ [bit_char b])"
proof -
  let ?w = "ucast b :: u32"
  have "sint ?w \<noteq> - (2 ^ 31)" using one_bit [of b] by auto
  then obtain str where str: "convert FlagNone ArgNone (CHR ''d'') (VaWord ?w # args) = Some (Some (str, args))"
      "cstring str = decimal (sint ?w)" "NUL \<in> set str"
    using convert_signed by blast
  then show ?thesis
    by (simp add: parse_flag_def parse_modifier_def peek_def bit_arg_def collect_eq decimal_bit)
qed

definition cpsr_flags :: "cpsr \<Rightarrow> char list" where
  "cpsr_flags c = '', fia:'' @ map bit_char [cpsr_t c, cpsr_i c, cpsr_a c] @
    '', qvczn:'' @ map bit_char [cpsr_q c, cpsr_v c, cpsr_c c, cpsr_z c, cpsr_n c] @ '')''"

lemma cpsr_flags_buffer:
  "\<exists>buf. sbufprintf (zeroed 24) 24 (lit '', fia:%d%d%d, qvczn:%d%d%d%d%d)'')
      (map bit_arg [cpsr_t c, cpsr_i c, cpsr_a c, cpsr_q c, cpsr_v c, cpsr_c c, cpsr_z c, cpsr_n c]) = Some (23, buf)
    \<and> cstring buf = cpsr_flags c \<and> NUL \<in> set buf"
proof -
  let ?fmt = "'', fia:%d%d%d, qvczn:%d%d%d%d%d)''"
  let ?args = "map bit_arg [cpsr_t c, cpsr_i c, cpsr_a c, cpsr_q c, cpsr_v c, cpsr_c c, cpsr_z c, cpsr_n c]"
  let ?text = "'', fia:'' @ map bit_char [cpsr_t c, cpsr_i c, cpsr_a c] @
    '', qvczn:'' @ map bit_char [cpsr_q c, cpsr_v c, cpsr_c c, cpsr_z c, cpsr_n c] @ '')''"
  have "vfnprintf_loop collect ?fmt ?args [] = Some (True, ?text)"
    by (simp add: collect_literal collect_bit del: vfnprintf_loop.simps(2))
  then have "vfnprintf collect (lit ?fmt) ?args [] = Some (True, ?text)"
    by (simp add: vfnprintf_def string_view_of_def strlen_eq lit_def del: vfnprintf_loop.simps)
  from vsbufprintf_fits [OF this, of 24 "zeroed 24"]
  have "sbufprintf (zeroed 24) 24 (lit ?fmt) ?args = Some (23, overwrite (zeroed 24) 0 (?text @ [NUL]))"
    by (simp add: sbufprintf_def zeroed_def)
  moreover have "NUL \<notin> set ?text" by (simp add: bit_char_def)
  then have "cstring (overwrite (zeroed 24) 0 (?text @ [NUL])) = ?text"
    by (rule cstring_overwrite) (simp add: zeroed_def)
  moreover have "NUL \<in> set (overwrite (zeroed 24) 0 (?text @ [NUL]))" by (simp add: overwrite_def)
  ultimately show ?thesis unfolding cpsr_flags_def by blast
qed

text \<open>
  Printing a status register shows its mode and eight of its flags; the text of the flags, 23 characters,
  just fits its buffer of 24. (The flags after \<open>fia\<close> are \<open>t\<close>, \<open>i\<close> and \<open>a\<close>.)
\<close>

definition cpsr_text :: "cpsr \<Rightarrow> char list" where
  "cpsr_text c = ''CPSR(mode: '' @ mode_str (cpsr_m c) @ cpsr_flags c"

lemma mode_str_nonul: "NUL \<notin> set (mode_str m)"
  by (simp add: mode_str_def)

lemma cpsr_printed_in_full: "print_with_cpsr text_printer c st = Some (st @ cpsr_text c)"
proof -
  obtain buf where buf: "sbufprintf (zeroed 24) 24 (lit '', fia:%d%d%d, qvczn:%d%d%d%d%d)'')
      (map bit_arg [cpsr_t c, cpsr_i c, cpsr_a c, cpsr_q c, cpsr_v c, cpsr_c c, cpsr_z c, cpsr_n c]) = Some (23, buf)"
      "cstring buf = cpsr_flags c" "NUL \<in> set buf"
    using cpsr_flags_buffer [of c] by blast
  have "NUL \<notin> set ''CPSR(mode: ''" by simp
  then show ?thesis
    using print_text [OF buf(3)] buf(1,2) mode_str_nonul
    by (simp only: print_with_cpsr_def print_with_mode_def print_lit_text bind.simps prod.case append_assoc not_False_eq_True
        cpsr_text_def)
qed

text \<open>On the console it is the same text.\<close>

lemma sends_cpsr: "sends (print_with_cpsr uart_printer_print c) (cpsr_text c)"
proof -
  obtain buf where buf: "sbufprintf (zeroed 24) 24 (lit '', fia:%d%d%d, qvczn:%d%d%d%d%d)'')
      (map bit_arg [cpsr_t c, cpsr_i c, cpsr_a c, cpsr_q c, cpsr_v c, cpsr_c c, cpsr_z c, cpsr_n c]) = Some (23, buf)"
      "cstring buf = cpsr_flags c" "NUL \<in> set buf"
    using cpsr_flags_buffer [of c] by blast
  have "sends (print_lit uart_printer_print ''CPSR(mode: '') ''CPSR(mode: ''" by (rule sends_lit) simp
  moreover have "sends (print_lit uart_printer_print (mode_str (cpsr_m c))) (mode_str (cpsr_m c))"
    by (rule sends_lit) (rule mode_str_nonul)
  ultimately have "sends (\<lambda>u. Option.bind (print_lit uart_printer_print ''CPSR(mode: '' u) (\<lambda>u.
      Option.bind (print_lit uart_printer_print (mode_str (cpsr_m c)) u) (print_with_string uart_printer_print buf)))
      (cpsr_text c)"
    unfolding cpsr_text_def buf(2) [symmetric] by (intro sends_bind sends_string buf(3))
  then show ?thesis
    by (simp only: sends_def print_with_cpsr_def print_with_mode_def buf(1) bind.simps prod.case)
qed

end
