(* ===== verification/User_Lib.thy ===== *)
theory User_Lib
  imports Syscalls Formatting
begin

text \<open>
  The library of user programs, userspace/lib.hpp and lib.cpp, over a function \<open>sys\<close> that makes a system
  call: it takes the four registers, and the memory of the task together with the kernel's state.
  \<open>handle\_syscall\<close> is such a function. The registers that a call leaves unused are 0; the kernel does
  not read them.

  A process keeps its memory, the last contents of what it freed, and the statistics of \<open>malloc\<close>;
  its allocator binds an intrusive free list to \<open>sbrk\<close>. What fresh memory holds is arbitrary
  (\<open>fresh\<close>, which may depend on everything before).
\<close>

section \<open>System calls\<close>

type_synonym 'w sys = "u32 \<Rightarrow> u32 \<Rightarrow> u32 \<Rightarrow> u32 \<Rightarrow> bytes \<times> 'w \<Rightarrow> (u32 \<times> bytes \<times> 'w) option"

definition software_interrupt_handler :: "'s kernel_env \<Rightarrow> 's devices \<Rightarrow> 's kernel sys" where
  "software_interrupt_handler env dev call arg1 arg2 arg3 = handle_syscall env dev call arg1 arg2 arg3"

record malloc_stats =
  ms_heap_size :: size_t
  ms_used_size :: size_t
  ms_num_mallocs :: u32
  ms_num_frees :: u32

record 'w process =
  pr_memory :: bytes
  pr_freed :: bytes
  pr_kernel :: 'w
  pr_stats :: malloc_stats

definition syscall3 :: "'w sys \<Rightarrow> syscall \<Rightarrow> u32 \<Rightarrow> u32 \<Rightarrow> u32 \<Rightarrow> 'w process \<Rightarrow> (u32 \<times> 'w process) option" where
  "syscall3 sys call arg1 arg2 arg3 p = do {
     (r, memory, w) \<leftarrow> sys (of_int (syscall_num call)) arg1 arg2 arg3 (pr_memory p, pr_kernel p);
     Some (r, p\<lparr>pr_memory := memory, pr_kernel := w\<rparr>)
   }"

definition syscall2 :: "'w sys \<Rightarrow> syscall \<Rightarrow> u32 \<Rightarrow> u32 \<Rightarrow> 'w process \<Rightarrow> (u32 \<times> 'w process) option" where
  "syscall2 sys call arg1 arg2 p = syscall3 sys call arg1 arg2 0 p"

definition syscall1 :: "'w sys \<Rightarrow> syscall \<Rightarrow> u32 \<Rightarrow> 'w process \<Rightarrow> (u32 \<times> 'w process) option" where
  "syscall1 sys call arg1 p = syscall3 sys call arg1 0 0 p"

definition syscall0 :: "'w sys \<Rightarrow> syscall \<Rightarrow> 'w process \<Rightarrow> (u32 \<times> 'w process) option" where
  "syscall0 sys call p = syscall3 sys call 0 0 0 p"

section \<open>Files and time\<close>

text \<open>A path is the address of its text; making a \<open>StringView\<close> of it measures it.\<close>

definition user_open :: "'w sys \<Rightarrow> ptr \<Rightarrow> file_mode \<Rightarrow> 'w process \<Rightarrow> (int \<times> 'w process) option" where
  "user_open sys path mode p = do {
     _ \<leftarrow> string_view_of (user_bytes (pr_memory p) path);
     (result, p) \<leftarrow> syscall2 sys Open path (from_signed_cast (file_mode_num mode)) p;
     Some (to_signed_cast CInt result, p)
   }"

text \<open>\<open>buf[i] = c\<close> for a signed \<open>i\<close>; \<open>buf\<close> is where its object starts.\<close>

definition store_char :: "ptr \<Rightarrow> int \<Rightarrow> char \<Rightarrow> 'w process \<Rightarrow> 'w process option" where
  "store_char buf i c p = do {
     cs \<leftarrow> pr_memory p buf;
     (if 0 \<le> i \<and> i < int (length cs) then Some (p\<lparr>pr_memory := (pr_memory p)(buf \<mapsto> cs[nat i := c])\<rparr>) else None)
   }"

definition user_read :: "'w sys \<Rightarrow> int \<Rightarrow> ptr \<Rightarrow> size_t \<Rightarrow> 'w process \<Rightarrow> (int \<times> 'w process) option" where
  "user_read sys fd buf at_most_bytes p = do {
     (result, p) \<leftarrow> syscall3 sys Read (from_signed_cast fd) buf (at_most_bytes - 1) p;
     let bytes_read = sint result;
     p \<leftarrow> store_char buf bytes_read NUL p;
     Some (bytes_read, p)
   }"

definition user_write :: "'w sys \<Rightarrow> int \<Rightarrow> ptr \<Rightarrow> size_t \<Rightarrow> 'w process \<Rightarrow> (int \<times> 'w process) option" where
  "user_write sys fd buf n p = do {
     (result, p) \<leftarrow> syscall3 sys Write (from_signed_cast fd) buf n p;
     Some (sint result, p)
   }"

definition user_close :: "'w sys \<Rightarrow> int \<Rightarrow> 'w process \<Rightarrow> (int \<times> 'w process) option" where
  "user_close sys fd p = do {
     (result, p) \<leftarrow> syscall1 sys Close (from_signed_cast fd) p;
     Some (to_signed_cast CInt result, p)
   }"

definition user_dup :: "'w sys \<Rightarrow> int \<Rightarrow> 'w process \<Rightarrow> (int \<times> 'w process) option" where
  "user_dup sys fd p = do {
     (result, p) \<leftarrow> syscall1 sys Dup (from_signed_cast fd) p;
     Some (to_signed_cast CInt result, p)
   }"

definition user_yield :: "'w sys \<Rightarrow> 'w process \<Rightarrow> 'w process option" where
  "user_yield sys p = do { (_, p) \<leftarrow> syscall0 sys Yield p; Some p }"

definition user_sleep :: "'w sys \<Rightarrow> u32 \<Rightarrow> 'w process \<Rightarrow> 'w process option" where
  "user_sleep sys secs p = do { (_, p) \<leftarrow> syscall1 sys Sleep secs p; Some p }"

definition user_uptime :: "'w sys \<Rightarrow> 'w process \<Rightarrow> (u32 \<times> 'w process) option" where
  "user_uptime sys p = syscall0 sys Uptime p"

definition user_cputime :: "'w sys \<Rightarrow> 'w process \<Rightarrow> (u32 \<times> 'w process) option" where
  "user_cputime sys p = syscall0 sys CPUTime p"

definition user_exit :: "'w sys \<Rightarrow> int \<Rightarrow> 'w process \<Rightarrow> 'w process option" where
  "user_exit sys code p = do { (_, p) \<leftarrow> syscall1 sys Exit (of_int code) p; Some p }"

section \<open>The allocator of a process\<close>

definition user_sbrk :: "'w sys \<Rightarrow> size_t \<Rightarrow> 'w process \<Rightarrow> (ptr \<times> 'w process) option" where
  "user_sbrk sys increase p = syscall1 sys Sbrk increase p"

definition heap_extender_allocate :: "'w sys \<Rightarrow> size_t \<Rightarrow> 'w process \<Rightarrow> (allocation \<times> 'w process) option" where
  "heap_extender_allocate sys requested_size p = do {
     let increase = align_up_two requested_size PageSize;
     (heap_start_ptr, p) \<leftarrow> user_sbrk sys increase p;
     (if heap_start_ptr = nullptr then Some (no_allocation, p)
      else Some (\<lparr>al_ptr = heap_start_ptr, al_size = increase\<rparr>,
                 p\<lparr>pr_stats := (pr_stats p)\<lparr>ms_heap_size := ms_heap_size (pr_stats p) + increase\<rparr>\<rparr>))
   }"

definition heap_extender_preferred_size :: "size_t \<Rightarrow> size_t" where
  "heap_extender_preferred_size requested_size = align_up_two requested_size PageSize"

type_synonym 'w user_state = "('w process, fl_state) bound_state"

text \<open>\<open>mem\_allocator().allocate\<close> and \<open>free\<close>; the memory handed out becomes an object, and stops being one.\<close>

definition own_memory :: "('w process \<Rightarrow> ptr \<Rightarrow> char) \<Rightarrow> allocation \<Rightarrow> 'w process \<Rightarrow> 'w process" where
  "own_memory fresh al p =
     (if al_ptr al = nullptr then p
      else p\<lparr>pr_memory := (pr_memory p)(al_ptr al \<mapsto> map (\<lambda>i. fresh p (al_ptr al + of_nat i)) [0..<unat (al_size al)])\<rparr>)"

definition mem_allocate ::
    "'w sys \<Rightarrow> ('w process \<Rightarrow> ptr \<Rightarrow> char) \<Rightarrow> size_t \<Rightarrow> 'w user_state \<Rightarrow> (allocation \<times> 'w user_state) option" where
  "mem_allocate sys fresh requested_size st = do {
     (al, (p, i)) \<leftarrow> binder_allocate (heap_extender_allocate sys) fl_allocate fl_add fl_preferred_size requested_size st;
     Some (al, (own_memory fresh al p, i))
   }"

definition mem_free :: "allocation \<Rightarrow> 'w user_state \<Rightarrow> (size_t \<times> 'w user_state) option" where
  "mem_free al st = do {
     (n, (p, i)) \<leftarrow> binder_free fl_free al st;
     Some (n, (p\<lparr>pr_memory := (pr_memory p)(al_ptr al := None),
       pr_freed := (pr_freed p)(al_ptr al := pr_memory p (al_ptr al))\<rparr>, i))
   }"

definition user_free :: "allocation \<Rightarrow> 'w user_state \<Rightarrow> 'w user_state option" where
  "user_free alloc st = do {
     (n, (p, i)) \<leftarrow> mem_free alloc st;
     Some (p\<lparr>pr_stats := (pr_stats p)\<lparr>ms_used_size := ms_used_size (pr_stats p) - n,
       ms_num_frees := ms_num_frees (pr_stats p) + 1\<rparr>\<rparr>, i)
   }"

section \<open>printf and malloc\<close>

text \<open>
  \<open>printf\<close> and \<open>malloc\<close> call each other: \<open>printf\<close> takes \<open>malloc\<close> as an argument. Its buffer is the
  object at \<open>print\_buf\<close>, which stays the first one when a larger one is allocated.
\<close>

definition printf_try_add ::
    "(size_t \<Rightarrow> 'w user_state \<Rightarrow> (allocation \<times> 'w user_state) option) \<Rightarrow> ptr \<Rightarrow> char list
       \<Rightarrow> size_t \<times> size_t \<times> allocation \<times> 'w user_state
       \<Rightarrow> (bool \<times> size_t \<times> size_t \<times> allocation \<times> 'w user_state) option" where
  "printf_try_add malloc print_buf message = (\<lambda>(print_buf_pos, bufsize, print_alloc, st). do {
     n \<leftarrow> strlen message;
     let message_size = of_nat n;
     (ok, bufsize, print_alloc, st) \<leftarrow>
       (if bufsize \<le> print_buf_pos + message_size then do {
          st \<leftarrow> user_free print_alloc st;
          let bufsize = bufsize + message_size + 64;
          (print_alloc, st) \<leftarrow> malloc bufsize st;
          Some (allocation_bool print_alloc, bufsize, print_alloc, st)
        }
        else Some (True, bufsize, print_alloc, st));
     (if \<not> ok then Some (False, print_buf_pos, bufsize, print_alloc, st)
      else do {
        let (p, i) = st;
        buf \<leftarrow> pr_memory p print_buf;
        (buf, _) \<leftarrow> strcopy buf (unat print_buf_pos) message;
        Some (True, print_buf_pos + message_size, bufsize, print_alloc,
          (p\<lparr>pr_memory := (pr_memory p)(print_buf \<mapsto> buf)\<rparr>, i))
      })
   })"

definition STDIN_FILENO :: int where "STDIN_FILENO = 0"

definition STDOUT_FILENO :: int where "STDOUT_FILENO = 1"

definition printf_using ::
    "'w sys \<Rightarrow> (size_t \<Rightarrow> 'w user_state \<Rightarrow> (allocation \<times> 'w user_state) option)
       \<Rightarrow> char list \<Rightarrow> va_arg list \<Rightarrow> 'w user_state \<Rightarrow> (int \<times> 'w user_state) option" where
  "printf_using sys malloc fmt args st = do {
     n \<leftarrow> strlen fmt;
     let bufsize = of_nat n * 2;
     (print_alloc, st) \<leftarrow> malloc bufsize st;
     (if \<not> allocation_bool print_alloc then Some (0, st)
      else do {
        let print_buf = al_ptr print_alloc;
        (_, print_buf_pos, _, print_alloc, (p, i)) \<leftarrow>
          vfnprintf (printf_try_add malloc print_buf) fmt args (0, bufsize, print_alloc, st);
        (_, p) \<leftarrow> user_write sys STDOUT_FILENO print_buf print_buf_pos p;
        st \<leftarrow> user_free print_alloc (p, i);
        Some (0, st)
      })
   }"

definition no_space_message :: "char list" where
  "no_space_message = ''malloc:'' @ [CHR 0x09] @ ''No free space available?!'' @ [CHR 0x0A, NUL]"

text \<open>\<open>depth\<close> bounds how deep \<open>malloc\<close> may call itself through \<open>printf\<close>; beyond it is \<open>None\<close>.\<close>

primrec user_malloc ::
    "'w sys \<Rightarrow> ('w process \<Rightarrow> ptr \<Rightarrow> char) \<Rightarrow> nat \<Rightarrow> size_t \<Rightarrow> 'w user_state \<Rightarrow> (allocation \<times> 'w user_state) option" where
  "user_malloc sys fresh 0 = (\<lambda>requested_size st. None)"
| "user_malloc sys fresh (Suc depth) = (\<lambda>requested_size st. do {
     (alloc, st) \<leftarrow> mem_allocate sys fresh requested_size st;
     st \<leftarrow> (if \<not> allocation_bool alloc then do {
              (_, st) \<leftarrow> printf_using sys (user_malloc sys fresh depth) no_space_message [] st;
              Some st
            } else Some st);
     let (p, i) = st;
     Some (alloc, (p\<lparr>pr_stats := (pr_stats p)\<lparr>ms_used_size := ms_used_size (pr_stats p) + al_size alloc,
       ms_num_mallocs := ms_num_mallocs (pr_stats p) + 1\<rparr>\<rparr>, i))
   })"

definition printf ::
    "'w sys \<Rightarrow> ('w process \<Rightarrow> ptr \<Rightarrow> char) \<Rightarrow> nat \<Rightarrow> char list \<Rightarrow> va_arg list \<Rightarrow> 'w user_state \<Rightarrow> (int \<times> 'w user_state) option" where
  "printf sys fresh depth = printf_using sys (user_malloc sys fresh depth)"

definition memstats :: "'w user_state \<Rightarrow> malloc_stats" where
  "memstats st = pr_stats (fst st)"

section \<open>Registers a call does not read\<close>

lemma unused_registers:
  "c \<in> {Yield, Uptime, CPUTime} \<Longrightarrow>
    handle_syscall env dev (of_int (syscall_num c)) arg1 arg2 arg3 s = handle_syscall env dev (of_int (syscall_num c)) 0 0 0 s"
  "c \<in> {Sleep, Close, Dup, Sbrk, Exit} \<Longrightarrow>
    handle_syscall env dev (of_int (syscall_num c)) arg1 arg2 arg3 s = handle_syscall env dev (of_int (syscall_num c)) arg1 0 0 s"
  "handle_syscall env dev (of_int (syscall_num Open)) arg1 arg2 arg3 s
    = handle_syscall env dev (of_int (syscall_num Open)) arg1 arg2 0 s"
  using validate_syscall_num by (auto simp: handle_syscall_def simp del: syscall_num.simps split: prod.splits)

section \<open>Reading\<close>

text \<open>
  What \<open>read\<close> relies on: a descriptor that is \<open>readable\<close> gives at most as many bytes as asked for, and
  changes nothing behind them.
\<close>

locale read_call =
  fixes sys :: "'w sys" and readable :: "'w \<Rightarrow> int \<Rightarrow> bool"
  assumes read_bounded: "readable w fd \<Longrightarrow> n \<le> ssize_max \<Longrightarrow> memory buf = Some cs \<Longrightarrow> unat n \<le> length cs \<Longrightarrow>
      sys (of_int (syscall_num Read)) (from_signed_cast fd) buf n (memory, w) = Some (r, memory', w') \<Longrightarrow>
      unat r \<le> unat n \<and> (\<exists>cs'. memory' = memory(buf \<mapsto> cs') \<and> length cs' = length cs
        \<and> drop (unat r) cs' = drop (unat r) cs)"
begin

lemma read_terminated:
  assumes "readable (pr_kernel p) fd" and n: "0 < n" "n \<le> ssize_max + 1" "unat n \<le> length cs"
    and buf: "pr_memory p buf = Some cs"
    and read: "user_read sys fd buf n p = Some (ret, p')"
  shows "0 \<le> ret \<and> ret < int (unat n) \<and> (\<exists>cs'. pr_memory p' = (pr_memory p)(buf \<mapsto> cs') \<and> length cs' = length cs
    \<and> cs' ! nat ret = NUL \<and> drop (nat ret + 1) cs' = drop (nat ret + 1) cs)"
proof -
  have n1: "unat (n - 1) = unat n - 1" "0 < unat n" using n(1) by (simp_all add: unat_minus_one unat_gt_0 word_neq_0_conv)
  then have le: "n - 1 \<le> ssize_max" using n(2) by (simp add: unat_word_le ssize_max_def)
  obtain r memory w where sys: "sys (of_int (syscall_num Read)) (from_signed_cast fd) buf (n - 1) (pr_memory p, pr_kernel p)
        = Some (r, memory, w)"
      and st: "store_char buf (sint r) NUL (p\<lparr>pr_memory := memory, pr_kernel := w\<rparr>) = Some p'" and ret: "ret = sint r"
    using read by (auto simp: user_read_def syscall3_def Let_def simp del: syscall_num.simps elim!: bind_eq_SomeE)
  have "unat (n - 1) \<le> length cs" using n(3) n1 by simp
  from read_bounded [OF assms(1) le buf this sys] obtain cs' where
      r: "unat r \<le> unat (n - 1)" "memory = (pr_memory p)(buf \<mapsto> cs')" "length cs' = length cs"
        "drop (unat r) cs' = drop (unat r) cs" by blast
  have "unat (n - 1) \<le> unat ssize_max" using le by (simp only: unat_word_le)
  then have "r \<le> ssize_max" using r(1) by (simp only: unat_word_le)
  then have ri: "sint r = int (unat r)" by (rule sint_ssize)
  then have lt: "unat r < unat n" "unat r < length cs" using r(1) n1 n(3) by simp_all
  have mem: "pr_memory p' = (pr_memory p)(buf \<mapsto> cs'[unat r := NUL])"
    using st r(2,3) ri lt by (auto simp: store_char_def split: if_splits)
  have "drop (Suc (unat r)) (cs'[unat r := NUL]) = drop 1 (drop (unat r) cs')" by simp
  also have "\<dots> = drop (Suc (unat r)) cs" using r(4) by simp
  finally have "drop (Suc (unat r)) (cs'[unat r := NUL]) = drop (Suc (unat r)) cs" .
  moreover have "ret < int (unat n)" "0 \<le> ret" "nat ret = unat r"
    using ret ri lt(1) by (simp_all only: of_nat_less_iff of_nat_0_le_iff nat_int)
  ultimately show ?thesis using lt(2) r(3) mem by auto
qed

end

text \<open>
  A descriptor of the UART that is open for reading, while another task can run. The machine changes the
  request only by its interrupts.
\<close>

definition uart_readable :: "('s kernel \<Rightarrow> 's kernel option) \<Rightarrow> 's kernel \<Rightarrow> int \<Rightarrow> bool" where
  "uart_readable resume k fd \<longleftrightarrow> in_range CInt fd
     \<and> (\<exists>t q j fdn. get_task k (unat (k_running_task_index k)) = Some t
          \<and> fdt_try_get fd (t_fd_table t) (k_fs k) = Some (Some (q, j))
          \<and> slot_get (fs_descriptions (k_fs k)) q j = Some fdn
          \<and> fdn_mode fdn \<noteq> ModeWrite \<and> fdn_class fdn = UARTFile)
     \<and> request_is_finished (k_request k) \<and> drains (k_uart k)
     \<and> (\<exists>s. sched_inv s k \<and> unat (k_running_task_index k) \<noteq> s)
     \<and> (\<forall>l l'. resume l = Some l' \<longrightarrow> uart_irqs (k_request l, k_uart l) (k_request l', k_uart l'))"

lemma cast_fd:
  assumes "in_range CInt fd"
  shows "to_signed_cast CInt (from_signed_cast fd :: u32) = fd" and "fits_within CInt (from_signed_cast fd :: u32)"
proof -
  have b: "- (2 ^ 31) \<le> fd" "fd < 2 ^ 31"
    using assms by (simp_all add: in_range_def cint_min_def cint_max_def is_signed_def)
  then have s: "sint (of_int fd :: u32) = fd" by (intro sint_of_int_small) simp_all
  show "to_signed_cast CInt (from_signed_cast fd :: u32) = fd"
    using b by (simp add: to_signed_cast_def from_signed_cast_def s cint_wrap_def is_signed_def signed_take_bit_int_eq_self)
  show "fits_within CInt (from_signed_cast fd :: u32)"
    using fits_within_signed [of CInt "from_signed_cast fd :: u32"] assms
    by (simp add: from_signed_cast_def s is_signed_def)
qed

lemma unat_of_int_nonneg:
  assumes "0 \<le> (i :: int)" and "i \<le> int (unat (n :: u32))"
  shows "unat (from_signed_cast i :: u32) = nat i"
proof -
  have "unat n < 4294967296" using unat_lt_exp [of n] by simp
  moreover have "nat i \<le> unat n" using assms(2) by (simp only: nat_le_iff)
  ultimately have "nat i < 4294967296" by linarith
  then have "unat (of_nat (nat i) :: u32) = nat i" by (simp add: unat_of_nat take_bit_nat_eq_self)
  then show ?thesis using assms(1) by (simp add: from_signed_cast_def)
qed

interpretation uart_reader: read_call
  "software_interrupt_handler env (dev\<lparr>dev_read := file_read display_read resume\<rparr>)" "uart_readable resume"
  for env dev display_read resume
proof
  fix w :: "'a kernel" and fd n memory buf cs r memory' w'
  assume rd: "uart_readable resume w fd" and n: "n \<le> ssize_max" "memory buf = Some cs" "unat n \<le> length cs"
    and call: "software_interrupt_handler env (dev\<lparr>dev_read := file_read display_read resume\<rparr>)
      (of_int (syscall_num Read)) (from_signed_cast fd) buf n (memory, w) = Some (r, memory', w')"
  from rd obtain t q j fdn s where t: "get_task w (unat (k_running_task_index w)) = Some t"
      "fdt_try_get fd (t_fd_table t) (k_fs w) = Some (Some (q, j))"
      "slot_get (fs_descriptions (k_fs w)) q j = Some fdn"
      "fdn_mode fdn \<noteq> ModeWrite" "fdn_class fdn = UARTFile" "in_range CInt fd"
      "request_is_finished (k_request w)" "drains (k_uart w)" "sched_inv s w" "unat (k_running_task_index w) \<noteq> s"
      and resume: "\<And>l l'. resume l = Some l' \<Longrightarrow> uart_irqs (k_request l, k_uart l) (k_request l', k_uart l')"
    unfolding uart_readable_def by blast
  have big: "\<not> ssize_max < n" using n(1) by simp
  obtain ret cs' where read: "uart_file_read resume cs n w = Some (ret, cs', w')"
      and r: "r = from_signed_cast ret" "memory' = memory(buf \<mapsto> cs')"
    using call t(1-5) n(2) big cast_fd [OF t(6)]
    by (auto simp: software_interrupt_handler_def handle_syscall_def validate_syscall_num task_read_def fdn_read_def
        file_read_def userspace_buffer_is_valid_def user_bytes_def simp del: syscall_num.simps elim!: bind_eq_SomeE)
  from uart_read_bound [OF t(7,8) n(1,3) t(9,10) resume read]
  have b: "0 \<le> ret" "ret \<le> int (unat n)" "length cs' = length cs" "drop (nat ret) cs' = drop (nat ret) cs" by simp_all
  then show "unat r \<le> unat n \<and> (\<exists>cs'. memory' = memory(buf \<mapsto> cs') \<and> length cs' = length cs
      \<and> drop (unat r) cs' = drop (unat r) cs)"
    using r unat_of_int_nonneg [OF b(1,2)] by (auto simp: nat_le_iff)
qed

text \<open>
  C19. A user's \<open>read\<close> from the UART leaves a string: the call, through the kernel and the interrupts of the
  device, returns less than the size of the buffer, puts a NUL behind the bytes it read, and changes
  nothing after it and no other memory.
\<close>

theorem user_read_terminated:
  assumes "uart_readable resume (pr_kernel p) fd" and "0 < n" and "n \<le> ssize_max + 1" and "unat n \<le> length cs"
    and "pr_memory p buf = Some cs"
    and "user_read (software_interrupt_handler env (dev\<lparr>dev_read := file_read display_read resume\<rparr>)) fd buf n p = Some (ret, p')"
  shows "0 \<le> ret \<and> ret < int (unat n) \<and> (\<exists>cs'. pr_memory p' = (pr_memory p)(buf \<mapsto> cs') \<and> length cs' = length cs
    \<and> cs' ! nat ret = NUL \<and> drop (nat ret + 1) cs' = drop (nat ret + 1) cs)"
  using assms by (rule uart_reader.read_terminated)

lemma syscall3_Read:
  "syscall3 sys Read arg1 arg2 arg3 p = do {
     (r, memory, w) \<leftarrow> sys (of_int (syscall_num Read)) arg1 arg2 arg3 (pr_memory p, pr_kernel p);
     Some (r, p\<lparr>pr_memory := memory, pr_kernel := w\<rparr>)
   }"
  by (simp only: syscall3_def)

text \<open>
  A \<open>read\<close> into a buffer of size 0 is undefined: it asks the kernel for all bytes but one of the address
  space, which the kernel refuses with -1, and then writes a NUL before the buffer. The same holds for every
  size above 2 GiB.
\<close>

lemma user_read_refused_undefined:
  assumes "n = 0 \<or> ssize_max + 1 < n"
  shows "user_read (software_interrupt_handler env dev) fd buf n p = None"
proof -
  have big: "ssize_max < n - 1"
  proof (cases "n = 0")
    case False
    then have "unat (n - 1) = unat n - 1" by (simp add: unat_minus_one)
    then show ?thesis using assms False by (simp add: unat_word_lt ssize_max_def)
  qed (simp add: ssize_max_def)
  have err: "from_signed_cast (- errno_int EFBIG) = (0xFFFFFFFF :: u32)" "conversion_error = 0xFFFFFFFF"
    by (simp_all add: conversion_error_def from_signed_cast_def)
  have "handle_syscall env dev (of_int (syscall_num Read)) (from_signed_cast fd) buf (n - 1) (pr_memory p, pr_kernel p)
      = Some (0xFFFFFFFF, pr_memory p, pr_kernel p)"
    using big err
    by (simp add: handle_syscall_def validate_syscall_num task_read_def userspace_buffer_is_valid_def
        del: syscall_num.simps)
  then show ?thesis
    by (simp add: user_read_def syscall3_Read software_interrupt_handler_def store_char_def del: syscall_num.simps
        split: bind_splits)
qed

section \<open>printf\<close>

text \<open>What \<open>printf\<close> has written when its buffer is large enough for the text so far.\<close>

definition printed ::
    "char list \<Rightarrow> ptr \<Rightarrow> size_t \<Rightarrow> allocation \<Rightarrow> 'w user_state \<Rightarrow> char list
       \<Rightarrow> size_t \<times> size_t \<times> allocation \<times> 'w user_state \<Rightarrow> bool" where
  "printed cs print_buf bufsize al st out = (\<lambda>(pos, sz, al', (p, i)).
     pos = of_nat (length out) \<and> sz = bufsize \<and> al' = al \<and> i = snd st
     \<and> (\<exists>buf. p = (fst st)\<lparr>pr_memory := (pr_memory (fst st))(print_buf \<mapsto> buf)\<rparr>
          \<and> length buf = length cs \<and> take (length out) buf = out))"

lemma printf_try_add_fits:
  assumes "printed cs print_buf bufsize al st out s" and "NUL \<in> set message"
    and "length (out @ cstring message) < unat bufsize" and "unat bufsize \<le> length cs"
  shows "\<exists>s'. printf_try_add malloc print_buf message s = Some (True, s')
    \<and> printed cs print_buf bufsize al st (out @ cstring message) s'"
proof -
  obtain pos sz al' p i where s: "s = (pos, sz, al', (p, i))" by (metis surj_pair)
  let ?n = "length (cstring message)"
  from assms(1) s obtain buf where b: "pos = of_nat (length out)" "sz = bufsize" "al' = al" "i = snd st"
      "p = (fst st)\<lparr>pr_memory := (pr_memory (fst st))(print_buf \<mapsto> buf)\<rparr>" "length buf = length cs"
      "take (length out) buf = out"
    by (auto simp: printed_def)
  have small: "length out + ?n < 2 ^ 32" using assms(3) unat_lt_exp [of bufsize] by simp
  then have pos: "unat (pos + of_nat ?n) = length out + ?n"
    using b(1) by (simp add: unat_of_nat take_bit_nat_eq_self flip: of_nat_add)
  have upos: "unat pos = length out" using b(1) small by (simp add: unat_of_nat take_bit_nat_eq_self)
  have room: "\<not> bufsize \<le> pos + of_nat ?n" using assms(3) pos by (simp only: unat_word_le) simp
  have copy: "strcopy buf (unat pos) message = Some (overwrite buf (length out) (cstring message @ [NUL]), ?n)"
    using strcopy_eq [OF assms(2), of "length out" buf] assms(3,4) b(6) upos by simp
  have len: "strlen message = Some ?n" using assms(2) by (simp add: strlen_eq)
  have "take (length out + ?n) (overwrite buf (length out) (cstring message @ [NUL])) = out @ cstring message"
    using b(7) assms(3,4) b(6) by (simp add: overwrite_def)
  then show ?thesis
    using len room copy b(1-6) s assms(3,4)
    by (auto simp: printf_try_add_def printed_def Let_def)
qed

text \<open>
  C20. \<open>printf\<close> allocates, writes exactly the text of its format and arguments to the standard output with one
  system call, and frees: if the text is shorter than twice the format, the buffer of that size holds it.
\<close>

theorem printf_writes_text:
  assumes text_of: "vfnprintf collect fmt args [] = Some (ok, out)"
    and fits: "NUL \<in> set fmt" "length out < 2 * length (cstring fmt)" "2 * length (cstring fmt) < 2 ^ 32"
    and alloc: "user_malloc sys fresh depth (of_nat (2 * length (cstring fmt))) st = Some (al, (p, i))"
      "allocation_bool al" "pr_memory p (al_ptr al) = Some cs" "2 * length (cstring fmt) \<le> length cs"
  shows "\<exists>buf. length buf = length cs \<and> take (length out) buf = out
    \<and> printf sys fresh depth fmt args st = do {
        (_, p) \<leftarrow> user_write sys STDOUT_FILENO (al_ptr al) (of_nat (length out))
          (p\<lparr>pr_memory := (pr_memory p)(al_ptr al \<mapsto> buf)\<rparr>);
        st \<leftarrow> user_free al (p, i);
        Some (0, st)
      }"
proof -
  let ?n = "length (cstring fmt)" and ?b = "al_ptr al"
  let ?sz = "of_nat ?n * 2 :: size_t"
  have arg: "of_nat (2 * ?n) = ?sz" by simp
  have sz: "unat ?sz = 2 * ?n"
    unfolding arg [symmetric] using fits(3) by (simp only: unat_of_nat) (simp add: take_bit_nat_eq_self)
  let ?s0 = "(0 :: size_t, ?sz, al, (p, i))"
  have "(pr_memory p)(?b \<mapsto> cs) = pr_memory p" using alloc(3) by (simp add: fun_upd_idem)
  then have start: "printed cs ?b ?sz al (p, i) [] ?s0"
    by (auto simp: printed_def intro!: exI [of _ cs])
  have step: "\<exists>s'. printf_try_add (user_malloc sys fresh depth) ?b str s = Some (True, s')
      \<and> printed cs ?b ?sz al (p, i) (o1 @ cstring str) s'"
    if "NUL \<in> set str" "printed cs ?b ?sz al (p, i) o1 s" "out = o1 @ cstring str @ zs" for str o1 s zs
    using printf_try_add_fits [OF that(2,1)] that(3) fits(2) alloc(4) sz by simp
  have "\<exists>s. vfnprintf (printf_try_add (user_malloc sys fresh depth) ?b) fmt args ?s0 = Some (ok, s)
      \<and> printed cs ?b ?sz al (p, i) out s"
    using vfnprintf_sim_within [OF text_of, where R = "printed cs ?b ?sz al (p, i)" and s = ?s0] start step by blast
  then obtain s where s: "vfnprintf (printf_try_add (user_malloc sys fresh depth) ?b) fmt args ?s0 = Some (ok, s)"
      "printed cs ?b ?sz al (p, i) out s" by blast
  from s(2) obtain buf where buf: "s = (of_nat (length out), ?sz, al, (p\<lparr>pr_memory := (pr_memory p)(?b \<mapsto> buf)\<rparr>, i))"
      "length buf = length cs" "take (length out) buf = out"
    by (cases s) (auto simp: printed_def)
  have "strlen fmt = Some ?n" using fits(1) by (simp add: strlen_eq)
  then show ?thesis
    using alloc(1,2) s(1) buf unfolding arg
    by (intro exI [of _ buf]) (simp add: printf_def printf_using_def Let_def)
qed

text \<open>
  A text that outgrows the buffer is undefined when the larger buffer is elsewhere: \<open>printf\<close> goes on writing
  to the first one, which it has freed.
\<close>

lemma printf_moved_undefined:
  assumes "strlen message = Some n" and "bufsize \<le> pos + of_nat n" and "user_free al st = Some st1"
    and "malloc (bufsize + of_nat n + 64) st1 = Some (al', (p, i))" and "allocation_bool al'" and "pr_memory p print_buf = None"
  shows "printf_try_add malloc print_buf message (pos, bufsize, al, st) = None"
  using assms by (simp add: printf_try_add_def Let_def)

section \<open>malloc\<close>

text \<open>
  C21. When memory is exhausted, \<open>malloc\<close> does not come back: to report the failure it calls \<open>printf\<close>, which
  calls \<open>malloc\<close> again, to any depth.
\<close>

theorem malloc_failure_recurses:
  assumes "\<And>m st. st \<in> S \<Longrightarrow> \<exists>st'\<in>S. mem_allocate sys fresh m st = Some (no_allocation, st')" and "st \<in> S"
  shows "user_malloc sys fresh depth n st = None"
  using assms(2)
proof (induction depth arbitrary: n st)
  case (Suc depth)
  obtain st' where st': "st' \<in> S" "mem_allocate sys fresh n st = Some (no_allocation, st')"
    using assms(1) [OF Suc.prems] by blast
  have "NUL \<in> set no_space_message" by (simp add: no_space_message_def)
  then obtain m where m: "strlen no_space_message = Some m" by (simp add: strlen_eq)
  have "printf_using sys (user_malloc sys fresh depth) no_space_message [] st' = None"
    using Suc.IH [OF st'(1)] m by (simp add: printf_using_def)
  then show ?case using st'(2) by (simp add: allocation_bool_def no_allocation_def)
qed simp

section \<open>A concrete reader\<close>

definition uart_description :: file_description where
  "uart_description = file_description_new 12288 UARTFile ModeRead"

text \<open>A kernel whose running task has descriptor 0 on the UART, and a process with a buffer of four bytes.\<close>

definition reading_tasks :: "task list" where
  "reading_tasks = example_tasks[0 := (example_task Runnable None)\<lparr>t_fd_table := example_table\<rparr>]"

definition reading_kernel :: "unit kernel" where
  "reading_kernel = example_kernel\<lparr>k_task_store := Map.empty(4096 \<mapsto> map Some reading_tasks),
     k_fs := example_fs\<lparr>fs_descriptions := Map.empty(4096 \<mapsto> [Some uart_description])\<rparr>\<rparr>"

definition no_stats :: malloc_stats where
  "no_stats = \<lparr>ms_heap_size = 0, ms_used_size = 0, ms_num_mallocs = 0, ms_num_frees = 0\<rparr>"

definition reading_process :: "unit kernel process" where
  "reading_process = \<lparr>pr_memory = Map.empty(8192 \<mapsto> ''....''), pr_freed = Map.empty, pr_kernel = reading_kernel,
     pr_stats = no_stats\<rparr>"

lemma reading_tasks_are: "tasks_are reading_kernel reading_tasks"
  unfolding tasks_are_def
  by (intro exI [of _ 1]) (simp add: vec_rep_def reading_kernel_def example_kernel_def reading_tasks_def example_tasks_def)

theorem user_read_terminated_witness:
  "\<exists>p' cs'. user_read (software_interrupt_handler example_kernel_env (example_devices\<lparr>dev_read :=
      file_read (\<lambda>buf n k. Some (0, buf, k)) resume_irq\<rparr>)) 0 8192 2 reading_process = Some (1, p')
    \<and> pr_memory p' 8192 = Some cs' \<and> cs' ! 1 = NUL \<and> drop 2 cs' = ''..''"
proof -
  let ?sys = "software_interrupt_handler example_kernel_env (example_devices\<lparr>dev_read :=
      file_read (\<lambda>buf n k. Some (0, buf, k)) resume_irq\<rparr>)"
  have fields: "k_request reading_kernel = no_request" "k_uart reading_kernel = example_uart"
      "unat (k_running_task_index reading_kernel) = 0"
    by (simp_all add: reading_kernel_def example_kernel_def)
  have r: "0 < length reading_tasks" "2 < length reading_tasks" "t_state (reading_tasks ! 2) \<noteq> Waiting"
    by (simp_all add: reading_tasks_def example_tasks_def example_task_def)
  have task: "get_task reading_kernel 0 = Some (reading_tasks ! 0)"
    using get_task_ok [OF reading_tasks_are r(1)] .
  have table: "t_fd_table (reading_tasks ! 0) = example_table"
    by (simp add: reading_tasks_def example_tasks_def)
  have fd: "fdt_try_get 0 example_table (k_fs reading_kernel) = Some (Some (4096, 0))"
    by (simp add: fdt_try_get_def reading_kernel_def example_table_def example_fs_def slot_get_def)
  have desc: "slot_get (fs_descriptions (k_fs reading_kernel)) 4096 0 = Some uart_description"
    by (simp add: reading_kernel_def slot_get_def)
  have inv: "sched_inv 2 reading_kernel" using reading_tasks_are r fields(3) by (auto simp: sched_inv_def)
  have fd0: "in_range CInt 0" by (simp add: in_range_def cint_min_def cint_max_def is_signed_def)
  have rd: "uart_readable resume_irq (pr_kernel reading_process) 0"
    unfolding uart_readable_def
    using task table fd desc inv fields example_idle example_drains resume_irq_is_irq fd0
    by (auto simp: reading_process_def uart_description_def file_description_new_def)
  obtain buf' k' where run: "uart_file_read resume_irq ''....'' 1 reading_kernel = Some (1, buf', k')"
    using uart_read_one [OF reading_tasks_are fields(1,2) r fields(3)] by blast
  have len: "length buf' = 4"
    using uart_read_bound [OF _ _ _ _ inv _ resume_irq_is_irq run] fields example_idle example_drains
    by (simp add: ssize_max_def)
  have "\<exists>p'. user_read ?sys 0 8192 2 reading_process = Some (1, p')"
    using run task table fd desc cast_fd [OF fd0] fields len
    by (simp add: user_read_def syscall3_def software_interrupt_handler_def handle_syscall_def
        validate_syscall_num [of Read, simplified] task_read_def fdn_read_def file_read_def userspace_buffer_is_valid_def
        user_bytes_def reading_process_def uart_description_def file_description_new_def ssize_max_def
        store_char_def from_signed_cast_def)
  then obtain p' where p': "user_read ?sys 0 8192 2 reading_process = Some (1, p')" by blast
  have two: "drop 2 cs = drop (Suc (Suc 0)) cs" for cs :: "char list" by (simp only: numeral_2_eq_2)
  from user_read_terminated [OF rd _ _ _ _ p', of "''....''"] show ?thesis
    using p' by (auto simp: reading_process_def ssize_max_def two simp del: drop_Suc)
qed

section \<open>Concrete programs\<close>

text \<open>A kernel that records what is written, and refuses memory.\<close>

definition recording_sys :: "char list sys" where
  "recording_sys call arg1 arg2 arg3 = (\<lambda>(memory, w).
     if call = of_int (syscall_num Write) then Some (arg3, memory, w @ take (unat arg3) (user_bytes memory arg2))
     else Some (0, memory, w))"

definition example_process :: "char list process" where
  "example_process = \<lparr>pr_memory = Map.empty, pr_freed = Map.empty, pr_kernel = [], pr_stats = no_stats\<rparr>"

lemma example_malloc:
  "\<exists>a s. user_malloc recording_sys (\<lambda>p x. CHR ''?'') 1 10 (example_process, (example_heap, example_list)) = Some (a,
      (own_memory (\<lambda>p x. CHR ''?'') a example_process\<lparr>pr_stats := no_stats\<lparr>ms_used_size := al_size a, ms_num_mallocs := 1\<rparr>\<rparr>, s))
    \<and> al_ptr a \<noteq> nullptr \<and> 10 \<le> al_size a \<and> (\<exists>n s'. fl_free a s = Some (n, s'))"
proof -
  let ?a = "\<lparr>al_ptr = 4112, al_size = 104\<rparr> :: allocation"
  have live: "fl_live (example_heap, example_list) {?a}" using example_inv by (auto simp: fl_live_def)
  have "find (\<lambda>p. 10 \<le> hsz example_heap p) [4216] = Some 4216" by simp
  from fl_allocate_some [OF example_inv this] obtain a s
    where a: "fl_allocate 10 (example_heap, example_list) = Some (a, s)" "al_ptr a \<noteq> nullptr" by auto
  from fl.allocate_returned [OF live TrueI a] have r: "10 \<le> al_size a" "fl_live s (insert a {?a})" by simp_all
  then obtain n s' where "fl_free a s = Some (n, s')" using fl.free_live [OF r(2), of a] by auto
  moreover have "al_size a \<noteq> 0" using r(1) by auto
  then have "user_malloc recording_sys (\<lambda>p x. CHR ''?'') 1 10 (example_process, (example_heap, example_list)) = Some (a,
      (own_memory (\<lambda>p x. CHR ''?'') a example_process\<lparr>pr_stats := no_stats\<lparr>ms_used_size := al_size a, ms_num_mallocs := 1\<rparr>\<rparr>, s))"
    using a by (simp add: mem_allocate_def binder_allocate_def allocation_bool_def own_memory_def example_process_def no_stats_def)
  ultimately show ?thesis using a(2) r(1) by blast
qed

theorem printf_writes_text_witness:
  "\<exists>st'. printf recording_sys (\<lambda>p x. CHR ''?'') 1 (''hi %s'' @ [NUL]) [VaString (''bo'' @ [NUL])]
      (example_process, (example_heap, example_list)) = Some (0, st') \<and> pr_kernel (fst st') = ''hi bo''"
proof -
  let ?f = "\<lambda>p x. CHR ''?''" and ?fmt = "''hi %s'' @ [NUL]" and ?args = "[VaString (''bo'' @ [NUL])]"
  obtain a s n s' where m: "user_malloc recording_sys ?f 1 10 (example_process, (example_heap, example_list)) = Some (a,
      (own_memory ?f a example_process\<lparr>pr_stats := no_stats\<lparr>ms_used_size := al_size a, ms_num_mallocs := 1\<rparr>\<rparr>, s))"
      "al_ptr a \<noteq> nullptr" "10 \<le> al_size a" "fl_free a s = Some (n, s')"
    using example_malloc by blast
  let ?p = "own_memory ?f a example_process\<lparr>pr_stats := no_stats\<lparr>ms_used_size := al_size a, ms_num_mallocs := 1\<rparr>\<rparr>"
  have c: "vfnprintf collect ?fmt ?args [] = Some (True, ''hi bo'')"
    by (simp add: vfnprintf_def string_view_of_def strlen_eq collect_eq parse_flag_def parse_modifier_def
        peek_def convert_def)
  have al: "allocation_bool a" using m(3) by (auto simp: allocation_bool_def)
  have cs: "pr_memory ?p (al_ptr a) = Some (replicate (unat (al_size a)) CHR ''?'')"
    using m(2) by (simp add: own_memory_def map_replicate_trivial map_replicate_const)
  have size: "NUL \<in> set ?fmt" "length ''hi bo'' < 2 * length (cstring ?fmt)" "2 * length (cstring ?fmt) < 2 ^ 32"
      "2 * length (cstring ?fmt) \<le> length (replicate (unat (al_size a)) CHR ''?'')"
      "(of_nat (2 * length (cstring ?fmt)) :: size_t) = 10" and five: "length ''hi bo'' = 5"
    using m(3) by (simp_all add: unat_word_le)
  have malloc: "user_malloc recording_sys ?f 1 (of_nat (2 * length (cstring ?fmt))) (example_process, (example_heap, example_list))
      = Some (a, (?p, s))" using m(1) by (simp only: size(5))
  from printf_writes_text [OF c size(1-3) malloc al cs size(4)]
  obtain buf where b: "length buf = length (replicate (unat (al_size a)) CHR ''?'')" "take (length ''hi bo'') buf = ''hi bo''"
    "printf recording_sys ?f 1 ?fmt ?args (example_process, (example_heap, example_list)) = do {
        (_, p) \<leftarrow> user_write recording_sys STDOUT_FILENO (al_ptr a) (of_nat (length ''hi bo''))
          (?p\<lparr>pr_memory := (pr_memory ?p)(al_ptr a \<mapsto> buf)\<rparr>);
        st \<leftarrow> user_free a (p, s);
        Some (0, st)
      }" by blast
  have "take 5 buf = ''hi bo''" using b(2) unfolding five .
  then show ?thesis
    using b(3) m(2,4) unfolding five
    by (simp add: user_write_def syscall3_def recording_sys_def user_bytes_def user_free_def mem_free_def binder_free_def
        own_memory_def example_process_def)
qed

theorem malloc_failure_recurses_witness:
  "user_malloc recording_sys (\<lambda>p x. CHR ''?'') 1000 8 (example_process, (Map.empty, empty_mll)) = None"
proof -
  have none: "fl_allocate m (Map.empty, empty_mll) = Some (no_allocation, (Map.empty, empty_mll))" for m
    using fl_allocate_none [OF fl_inv_empty, of m Map.empty] by simp
  have "mem_allocate recording_sys (\<lambda>p x. CHR ''?'') m (example_process, (Map.empty, empty_mll))
      = Some (no_allocation, (example_process, (Map.empty, empty_mll)))" for m
    using none [of m] by (simp add: mem_allocate_def binder_allocate_def heap_extender_allocate_def user_sbrk_def syscall1_def
        syscall3_def recording_sys_def no_allocation_def own_memory_def example_process_def)
  then show ?thesis
    using malloc_failure_recurses [where S = "{(example_process, (Map.empty, empty_mll))}"] by simp
qed

end
