(* ===== verification/Shell.thy ===== *)
theory Shell
  imports User_Lib
begin

text \<open>
  The user shell, userspace/shell.cpp. Where the linker put a string literal is an argument, as is what a
  process needs to run (the record \<open>user\_env\<close>). A failed assertion leaves the shell for good: the parts
  of the shell give \<open>Inl\<close> the final state when the task has exited, and \<open>Inr\<close> the state to go on with.
\<close>

section \<open>The environment of a program\<close>

record 'w user_env =
  ue_sys :: "'w sys"
  ue_fresh :: "'w process \<Rightarrow> ptr \<Rightarrow> char"
  ue_depth :: nat
  ue_literal :: "char list \<Rightarrow> ptr"

text \<open>A literal, from its pieces and line ends, with its terminator.\<close>

abbreviation newline :: "char list" where "newline \<equiv> [CHR 0x0A]"

abbreviation tab :: "char list" where "tab \<equiv> [CHR 0x09]"

definition put_text :: "'w user_env \<Rightarrow> char list \<Rightarrow> va_arg list \<Rightarrow> 'w user_state \<Rightarrow> 'w user_state option" where
  "put_text e fmt args st = do {
     (_, st) \<leftarrow> printf (ue_sys e) (ue_fresh e) (ue_depth e) (fmt @ [NUL]) args st;
     Some st
   }"

text \<open>A system call of the library, which leaves the free list alone.\<close>

definition on_process :: "('w process \<Rightarrow> ('a \<times> 'w process) option) \<Rightarrow> 'w user_state \<Rightarrow> ('a \<times> 'w user_state) option" where
  "on_process f = (\<lambda>(p, i). do { (r, p) \<leftarrow> f p; Some (r, (p, i)) })"

definition on_process_void :: "('w process \<Rightarrow> 'w process option) \<Rightarrow> 'w user_state \<Rightarrow> 'w user_state option" where
  "on_process_void f = (\<lambda>(p, i). do { p \<leftarrow> f p; Some (p, i) })"

section \<open>Assertions\<close>

text \<open>\<open>exit\<close> does not come back to the task.\<close>

definition user_assert ::
    "'w user_env \<Rightarrow> bool \<Rightarrow> char list \<Rightarrow> 'w user_state \<Rightarrow> ('w user_state + 'w user_state) option" where
  "user_assert e cond cond_text st =
     (if \<not> cond then do {
        st \<leftarrow> put_text e (''Assertion failed: '' @ cond_text) [] st;
        st \<leftarrow> on_process_void (user_exit (ue_sys e) 1) st;
        Some (Inl st)
      }
      else Some (Inr st))"

definition and_then ::
    "('w user_state + 'a) option \<Rightarrow> ('a \<Rightarrow> ('w user_state + 'b) option) \<Rightarrow> ('w user_state + 'b) option" where
  "and_then r f = do { s \<leftarrow> r; (case s of Inl st \<Rightarrow> Some (Inl st) | Inr st \<Rightarrow> f st) }"

section \<open>The builtin commands\<close>

definition heap_percent :: "malloc_stats \<Rightarrow> u32 option" where
  "heap_percent s = (if ms_heap_size s = 0 then None else Some (ms_used_size s * 100 div ms_heap_size s))"

definition builtin_memstat :: "'w user_env \<Rightarrow> 'w user_state \<Rightarrow> 'w user_state option" where
  "builtin_memstat e st = do {
     let malloc_stats = memstats st;
     pct_of_heap \<leftarrow> heap_percent malloc_stats;
     put_text e (''heap size: %zu bytes'' @ newline @ ''requested: %zu bytes (%u%% of heap)'' @ newline @
         ''nmallocs: %u'' @ newline @ ''nfrees: %u'' @ newline)
       [VaWord (ms_heap_size malloc_stats), VaWord (ms_used_size malloc_stats), VaWord pct_of_heap,
        VaWord (ms_num_mallocs malloc_stats), VaWord (ms_num_frees malloc_stats)] st
   }"

definition cpu_usage :: "u32 \<Rightarrow> u32 \<Rightarrow> u32" where
  "cpu_usage cputime_jiffies uptime_jiffies = cputime_jiffies * 100 div max uptime_jiffies 1"

definition builtin_uptime :: "'w user_env \<Rightarrow> 'w user_state \<Rightarrow> 'w user_state option" where
  "builtin_uptime e st = do {
     (uptime_jiffies, st) \<leftarrow> on_process (user_uptime (ue_sys e)) st;
     let uptime_seconds = drop_bit SYS_HZ_BITS uptime_jiffies;
     (cputime_jiffies, st) \<leftarrow> on_process (user_cputime (ue_sys e)) st;
     put_text e (''up %us, usage: %u%% (%u / %u jiffies)'' @ newline)
       [VaWord uptime_seconds, VaWord (cpu_usage cputime_jiffies uptime_jiffies), VaWord cputime_jiffies,
        VaWord uptime_jiffies] st
   }"

definition help_lines :: "char list list" where
  "help_lines =
     [''The following commands are available to you:'' @ newline,
      ''  - memstat'' @ tab @ ''Provides statistics on the amount of memory used by this task.'' @ newline,
      ''  - uptime'' @ tab @ ''Provides statistics on the time since boot in seconds, as well as the CPU time used by this task.'' @ newline,
      ''  - yield'' @ tab @ ''Yields to the spin task. The spin task simply spins until it is preempted. You should see control return to this task shortly.'' @ newline,
      ''  - sleep'' @ tab @ ''Puts this task to sleep for 2 seconds.'' @ newline,
      ''  - spin'' @ tab @ ''Spins in a loop for a couple seconds.'' @ newline,
      ''  - exit'' @ tab @ ''Says goodbye. Please hit Ctrl-C to actually exit.'' @ newline,
      newline,
      ''Known Bugs (because we're honest around here!):'' @ newline,
      ''  - You may encounter periods of a second or more of unresponsiveness. This is a known issue related to emulation and the design the system timer peripheral.'' @ newline,
      ''  - 'sleep' can sleep for more than 2 seconds. Related to the above issue.'' @ newline,
      ''  - Time slowly drifts away from real time.'' @ newline]"

fun put_lines :: "'w user_env \<Rightarrow> char list list \<Rightarrow> 'w user_state \<Rightarrow> 'w user_state option" where
  "put_lines e [] st = Some st"
| "put_lines e (l # ls) st = do { st \<leftarrow> put_text e l [] st; put_lines e ls st }"

section \<open>Setting up\<close>

definition setup_uart_as_stdio :: "'w user_env \<Rightarrow> 'w user_state \<Rightarrow> ('w user_state + 'w user_state) option" where
  "setup_uart_as_stdio e st = do {
     (uart_read_fd, st) \<leftarrow> on_process (user_open (ue_sys e) (ue_literal e ''/dev/uart0'') ModeRead) st;
     and_then (user_assert e (uart_read_fd > 0) ''uart_read_fd > 0'' st) (\<lambda>st. do {
     (uart_write_fd, st) \<leftarrow> on_process (user_open (ue_sys e) (ue_literal e ''/dev/uart0'') ModeWrite) st;
     and_then (user_assert e (uart_write_fd > 0) ''uart_write_fd > 0'' st) (\<lambda>st. do {
     (r, st) \<leftarrow> on_process (user_close (ue_sys e) STDIN_FILENO) st;
     and_then (user_assert e (r \<ge> 0) ''close(STDIN_FILENO) >= 0'' st) (\<lambda>st. do {
     (r, st) \<leftarrow> on_process (user_dup (ue_sys e) uart_read_fd) st;
     and_then (user_assert e (r \<ge> 0) ''dup(uart_read_fd) >= 0'' st) (\<lambda>st. do {
     (r, st) \<leftarrow> on_process (user_close (ue_sys e) STDOUT_FILENO) st;
     and_then (user_assert e (r \<ge> 0) ''close(STDOUT_FILENO) >= 0'' st) (\<lambda>st. do {
     (r, st) \<leftarrow> on_process (user_dup (ue_sys e) uart_write_fd) st;
     user_assert e (r \<ge> 0) ''dup(uart_write_fd) >= 0'' st
     }) }) }) }) })
   }"

definition display_welcome :: "'w user_env \<Rightarrow> 'w user_state \<Rightarrow> ('w user_state + 'w user_state) option" where
  "display_welcome e st = do {
     (display_fd, st) \<leftarrow> on_process (user_open (ue_sys e) (ue_literal e ''/dev/display'') ModeReadWrite) st;
     and_then (user_assert e (display_fd > 0) ''display_fd > 0'' st) (\<lambda>st. do {
     let message = ''Welcome to Pinyon!'';
     n \<leftarrow> strlen (message @ [NUL]);
     (r, st) \<leftarrow> on_process (user_write (ue_sys e) display_fd (ue_literal e message) (of_nat n)) st;
     and_then (user_assert e (r > 0) ''write(display_fd, message, strlen(message)) > 0'' st) (\<lambda>st. do {
     (r, st) \<leftarrow> on_process (user_close (ue_sys e) display_fd) st;
     user_assert e (r \<ge> 0) ''close(display_fd) >= 0'' st
     }) })
   }"

section \<open>The command loop\<close>

datatype 'w shell_flow = Break "'w user_state" | Continue "'w user_state"

definition is_command :: "string_view \<Rightarrow> char list \<Rightarrow> bool option" where
  "is_command command name = do { other \<leftarrow> string_view_of (name @ [NUL]); string_view_eq command other }"

definition continue_with :: "'w user_state option \<Rightarrow> 'w shell_flow option" where
  "continue_with r = do { st \<leftarrow> r; Some (Continue st) }"

definition shell_command :: "'w user_env \<Rightarrow> string_view \<Rightarrow> 'w user_state \<Rightarrow> 'w shell_flow option" where
  "shell_command e command st = do {
     is_exit \<leftarrow> is_command command ''exit'';
     if is_exit then Some (Break st) else do {
     is_memstat \<leftarrow> is_command command ''memstat'';
     if is_memstat then continue_with (builtin_memstat e st) else do {
     is_uptime \<leftarrow> is_command command ''uptime'';
     if is_uptime then continue_with (builtin_uptime e st) else do {
     is_yield \<leftarrow> is_command command ''yield'';
     if is_yield then continue_with (on_process_void (user_yield (ue_sys e)) st) else do {
     is_spin \<leftarrow> is_command command ''spin'';
     if is_spin then Some (Continue st) else do {
     is_sleep \<leftarrow> is_command command ''sleep'';
     if is_sleep then continue_with (do {
       st \<leftarrow> put_text e (''Sleeping for 2 seconds.'' @ newline) [] st;
       on_process_void (user_sleep (ue_sys e) 2) st
     }) else do {
     is_help \<leftarrow> is_command command ''help'';
     if is_help then continue_with (put_lines e help_lines st)
     else continue_with (put_text e (''Unknown command '%s'. Use 'help'.'' @ newline) [VaString (sv_chars command)] st)
     } } } } } }
   }"

text \<open>One turn of the loop: \<open>buf\<close> is the address of the vector's memory.\<close>

definition shell_turn :: "'w user_env \<Rightarrow> ptr \<Rightarrow> 'w user_state \<Rightarrow> ('w user_state + 'w shell_flow) option" where
  "shell_turn e buf st = do {
     st \<leftarrow> put_text e ''# '' [] st;
     (amount_read, st) \<leftarrow> on_process (user_read (ue_sys e) STDIN_FILENO buf 1024) st;
     and_then (user_assert e (amount_read \<ge> 0) ''amount_read >= 0'' st) (\<lambda>st. do {
       chars \<leftarrow> pr_memory (fst st) buf;
       flow \<leftarrow> shell_command e \<lparr>sv_chars = chars, sv_length = nat amount_read\<rparr> st;
       Some (Inr flow)
     })
   }"

partial_function (option) shell_loop :: "'w user_env \<Rightarrow> ptr \<Rightarrow> 'w user_state \<Rightarrow> ('w user_state + 'w user_state) option" where
  "shell_loop e buf st =
     Option.bind (shell_turn e buf st) (\<lambda>r. case r of
       Inl st \<Rightarrow> Some (Inl st)
     | Inr flow \<Rightarrow> (case flow of Break st \<Rightarrow> Some (Inr st) | Continue st \<Rightarrow> shell_loop e buf st))"

declare shell_loop.simps [code]

text \<open>The shell ends when the task exits; \<open>None\<close> is a shell that runs for ever or goes wrong.\<close>

definition shell :: "'w user_env \<Rightarrow> 'w user_state \<Rightarrow> 'w user_state option" where
  "shell e st = do {
     r \<leftarrow> and_then (setup_uart_as_stdio e st) (\<lambda>st.
       and_then (display_welcome e st) (\<lambda>st. do {
         (ok, (buf, _, st)) \<leftarrow> vec_ensure (mem_allocate (ue_sys e) (ue_fresh e)) mem_free 1 1024
           (vec_empty, Map.empty :: char store, st);
         (if \<not> ok then do {
            st \<leftarrow> put_text e (''Could not allocate memory for buf!!'' @ newline) [] st;
            st \<leftarrow> on_process_void (user_exit (ue_sys e) 1) st;
            Some (Inl st)
          }
          else do {
            st \<leftarrow> put_text e ''Use 'help' for a list of commands to run.'' [] st;
            and_then (shell_loop e (v_contents buf) st) (\<lambda>st. do {
              st \<leftarrow> put_text e (''goodbye.'' @ newline) [] st;
              st \<leftarrow> on_process_void (user_exit (ue_sys e) 0) st;
              Some (Inr st)
            })
          })
       }));
     Some (case r of Inl st \<Rightarrow> st | Inr st \<Rightarrow> st)
   }"

section \<open>Commands are found by name\<close>

lemma is_command_name:
  assumes "NUL \<in> set chars" and "NUL \<notin> set name"
  shows "is_command \<lparr>sv_chars = chars, sv_length = length (cstring chars)\<rparr> name = Some (cstring chars = name)"
proof -
  have nul: "NUL \<in> set (name @ [NUL])" by simp
  have "cstring (name @ [NUL]) = name" using assms(2) by simp
  with strcmp_decides_equality [OF assms(1) nul] show ?thesis
    using assms(1) nul by (auto simp: is_command_def string_view_of_def strlen_eq)
qed

text \<open>The commands of the shell by name, as one table.\<close>

definition builtins :: "'w user_env \<Rightarrow> (char list \<times> ('w user_state \<Rightarrow> 'w shell_flow option)) list" where
  "builtins e =
     [(''exit'', \<lambda>st. Some (Break st)),
      (''memstat'', \<lambda>st. continue_with (builtin_memstat e st)),
      (''uptime'', \<lambda>st. continue_with (builtin_uptime e st)),
      (''yield'', \<lambda>st. continue_with (on_process_void (user_yield (ue_sys e)) st)),
      (''spin'', \<lambda>st. Some (Continue st)),
      (''sleep'', \<lambda>st. continue_with (do {
         st \<leftarrow> put_text e (''Sleeping for 2 seconds.'' @ newline) [] st;
         on_process_void (user_sleep (ue_sys e) 2) st
       })),
      (''help'', \<lambda>st. continue_with (put_lines e help_lines st))]"


section \<open>Usage\<close>

text \<open>
  The processor usage that the shell shows is the exact quotient, in percent, as long as the task has
  run for less than 42949673 jiffies (62 days); from then on the product wraps around.
\<close>

lemma cpu_usage_exact:
  assumes "unat c < 42949673" and "0 < up"
  shows "unat (cpu_usage c up) = 100 * unat c div unat up"
proof -
  have "unat (c * 100) = unat c * 100" using assms(1) by (subst unat_mult_lem [THEN iffD1]) simp_all
  moreover have "max up 1 = up" using assms(2) by (metis max.absorb1 word_le_sub1 word_gt_0 word_less_1 not_le le_less)
  ultimately show ?thesis by (simp add: cpu_usage_def unat_div mult.commute)
qed

section \<open>The standard streams\<close>

text \<open>The descriptors of the running task.\<close>

definition fd_table_is :: "'s kernel \<Rightarrow> fdn_ptr option list \<Rightarrow> bool" where
  "fd_table_is k ds \<longleftrightarrow> (\<exists>sz t. get_task k (unat (k_running_task_index k)) = Some t
     \<and> vec_rep sz (t_fd_table t) (fs_descriptors (k_fs k)) ds)"

lemma get_task_set_fs: "get_task (set_fs fs k) i = get_task k i"
  by (simp add: get_task_def set_fs_def)

lemma put_task_id:
  assumes "get_task k i = Some t"
  shows "put_task i t k = Some k"
proof -
  obtain slots where "k_task_store k (v_contents (k_tasks k)) = Some slots" "i < length slots" "slots ! i = Some t"
    using assms by (auto simp: get_task_def slot_get_def split: bind_splits if_splits)
  moreover from this have "slots[i := Some t] = slots" by (metis list_update_id)
  ultimately show ?thesis by (simp add: put_task_def slot_put_def fun_upd_idem)
qed

lemma in_range_fd: "n \<le> 2147483647 \<Longrightarrow> in_range CInt (int n)"
  by (simp add: in_range_def cint_min_def cint_max_def is_signed_def)

lemma redirect:
  assumes t: "get_task (pr_kernel p) (unat (k_running_task_index (pr_kernel p))) = Some t"
      "vec_rep sz (t_fd_table t) (fs_descriptors (k_fs (pr_kernel p))) ds" "length ds \<le> 2147483647"
    and n: "n < length ds" "ds ! n = Some x" "\<forall>k<n. ds ! k \<noteq> None"
    and m: "m < length ds" "ds ! m = Some d" "m \<noteq> n"
    and close: "file_table_close (ke_fs env) x (k_fs (pr_kernel p)) = Some fs"
  shows "\<exists>p1 st2. user_close (software_interrupt_handler env dev) (int n) p = Some (0, p1)
    \<and> user_dup (software_interrupt_handler env dev) (int m) p1
        = Some (int n, p\<lparr>pr_kernel := set_fs (fs\<lparr>fs_descriptors := st2\<rparr>) (pr_kernel p)\<rparr>)
    \<and> vec_rep sz (t_fd_table t) st2 (ds[n := Some d])"
proof -
  let ?k = "pr_kernel p"
  obtain st st2 where f: "fdt_close (ke_fs env) (int n) (t_fd_table t) (k_fs ?k) = Some (0, fs\<lparr>fs_descriptors := st\<rparr>)"
      "fdt_dup (ke_fs env) (int m) (t_fd_table t) (fs\<lparr>fs_descriptors := st\<rparr>) = Some (int n, t_fd_table t, fs\<lparr>fs_descriptors := st2\<rparr>)"
      "vec_rep sz (t_fd_table t) st2 (ds[n := Some d])"
    using fdt_close_dup [OF t(2,3) n m close] by blast
  let ?k1 = "set_fs (fs\<lparr>fs_descriptors := st\<rparr>) ?k"
  have idx: "k_running_task_index ?k1 = k_running_task_index ?k" by (simp add: set_fs_def)
  have fit: "in_range CInt (int n)" "in_range CInt (int m)" "in_range CInt 0"
    using n(1) m(1) t(3) by (auto intro: in_range_fd simp: in_range_def cint_min_def cint_max_def is_signed_def)
  have "user_close (software_interrupt_handler env dev) (int n) p = Some (0, p\<lparr>pr_kernel := ?k1\<rparr>)"
    using t(1) f(1) cast_fd [OF fit(1)] cast_fd [OF fit(3)]
    by (simp add: user_close_def syscall1_def syscall3_def software_interrupt_handler_def handle_syscall_def
        validate_syscall_num task_close_def del: syscall_num.simps)
  moreover have t1: "get_task (set_fs fs' ?k) (unat (k_running_task_index ?k)) = Some t" for fs'
    using t(1) by (simp add: get_task_set_fs)
  have "put_task (unat (k_running_task_index ?k)) t (set_fs fs' ?k) = Some (set_fs fs' ?k)" for fs'
    by (rule put_task_id) (rule t1)
  then have "user_dup (software_interrupt_handler env dev) (int m) (p\<lparr>pr_kernel := ?k1\<rparr>)
      = Some (int n, p\<lparr>pr_kernel := set_fs (fs\<lparr>fs_descriptors := st2\<rparr>) ?k\<rparr>)"
    using t1 f(2) cast_fd [OF fit(1)] cast_fd [OF fit(2)]
    by (simp add: user_dup_def syscall1_def syscall3_def software_interrupt_handler_def handle_syscall_def
        validate_syscall_num task_dup_def set_fs_def del: syscall_num.simps)
  ultimately show ?thesis using f(3) by blast
qed

text \<open>
  C23. The shell makes the UART its standard streams: when both opens have given descriptors, closing and
  duplicating puts the one opened for reading in the place of descriptor 0 and the one opened for
  writing in the place of descriptor 1, through the kernel's system calls, and leaves every other descriptor.
\<close>

theorem setup_uart_redirects:
  assumes sys: "ue_sys e = software_interrupt_handler env dev"
    and opens: "user_open (ue_sys e) (ue_literal e ''/dev/uart0'') ModeRead p = Some (int r, p1)"
      "user_open (ue_sys e) (ue_literal e ''/dev/uart0'') ModeWrite p1 = Some (int w, p2)" "1 < r" "1 < w"
    and table: "get_task (pr_kernel p2) (unat (k_running_task_index (pr_kernel p2))) = Some t"
      "vec_rep sz (t_fd_table t) (fs_descriptors (k_fs (pr_kernel p2))) ds" "length ds \<le> 2147483647"
    and fds: "ds ! 0 = Some a" "ds ! 1 = Some b" "r < length ds" "w < length ds" "ds ! r = Some dr" "ds ! w = Some dw"
    and close: "file_table_close (ke_fs env) a (k_fs (pr_kernel p2)) = Some fs1"
      "file_table_close (ke_fs env) b fs1 = Some fs2"
  shows "\<exists>st. setup_uart_as_stdio e (p, i)
      = Some (Inr (p2\<lparr>pr_kernel := set_fs (fs2\<lparr>fs_descriptors := st\<rparr>) (pr_kernel p2)\<rparr>, i))
    \<and> vec_rep sz (t_fd_table t) st (ds[0 := Some dr, 1 := Some dw])"
proof -
  have lens: "0 < length ds" "1 < length ds" "r \<noteq> 0" using fds opens(3) by linarith+
  obtain p3 st where r1: "user_close (ue_sys e) 0 p2 = Some (0, p3)"
      "user_dup (ue_sys e) (int r) p3 = Some (0, p2\<lparr>pr_kernel := set_fs (fs1\<lparr>fs_descriptors := st\<rparr>) (pr_kernel p2)\<rparr>)"
      "vec_rep sz (t_fd_table t) st (ds[0 := Some dr])"
    using redirect [OF table lens(1) fds(1) _ fds(3,5) lens(3) close(1), of dev] unfolding sys by auto
  let ?p4 = "p2\<lparr>pr_kernel := set_fs (fs1\<lparr>fs_descriptors := st\<rparr>) (pr_kernel p2)\<rparr>"
  have t4: "get_task (pr_kernel ?p4) (unat (k_running_task_index (pr_kernel ?p4))) = Some t"
    using table(1) by (simp add: get_task_set_fs) (simp add: set_fs_def)
  have v4: "vec_rep sz (t_fd_table t) (fs_descriptors (k_fs (pr_kernel ?p4))) (ds[0 := Some dr])"
    using r1(3) by (simp add: set_fs_def)
  have c4: "file_table_close (ke_fs env) b (k_fs (pr_kernel ?p4)) = Some (fs2\<lparr>fs_descriptors := st\<rparr>)"
    using close(2) by (simp add: set_fs_def file_table_close_descriptors)
  have n4: "length (ds[0 := Some dr]) \<le> 2147483647" "1 < length (ds[0 := Some dr])" "ds[0 := Some dr] ! 1 = Some b"
      "\<forall>k<1. ds[0 := Some dr] ! k \<noteq> None" "w < length (ds[0 := Some dr])" "ds[0 := Some dr] ! w = Some dw" "w \<noteq> 1"
    using table(3) fds lens opens(4) by auto
  obtain p5 st2 where r2: "user_close (ue_sys e) 1 ?p4 = Some (0, p5)"
      "user_dup (ue_sys e) (int w) p5 = Some (1, ?p4\<lparr>pr_kernel := set_fs (fs2\<lparr>fs_descriptors := st2\<rparr>) (pr_kernel ?p4)\<rparr>)"
      "vec_rep sz (t_fd_table t) st2 (ds[0 := Some dr, 1 := Some dw])"
    using redirect [OF t4 v4 n4 c4, of dev] unfolding sys by auto
  have "?p4\<lparr>pr_kernel := set_fs fs' (pr_kernel ?p4)\<rparr> = p2\<lparr>pr_kernel := set_fs fs' (pr_kernel p2)\<rparr>" for fs'
    by (simp add: set_fs_def)
  then show ?thesis
    using opens r1(1,2) r2
    by (intro exI [of _ st2])
      (simp add: setup_uart_as_stdio_def on_process_def user_assert_def and_then_def STDIN_FILENO_def STDOUT_FILENO_def)
qed

section \<open>A concrete shell\<close>

definition shell_kernel_env :: "unit kernel_env" where
  "shell_kernel_env = example_kernel_env\<lparr>ke_fs := \<lparr>env_allocate = \<lambda>n a. Some (\<lparr>al_ptr = 16384, al_size = 8\<rparr>, a),
     env_free = \<lambda>al a. Some (16, a), env_sizeof_file = \<lambda>c. 4\<rparr>\<rparr>"

text \<open>The descriptions of the first \<open>n\<close> files, the descriptors, and the files opened by the shell.\<close>

definition shell_fs :: "file_description list \<Rightarrow> fdn_ptr option list \<Rightarrow> unit fs" where
  "shell_fs fdns ds = \<lparr>fs_files = \<lparr>v_count = of_nat (length fdns), v_capacity = 128, v_contents = 4096\<rparr>,
     fs_descriptions = Map.empty(4096 \<mapsto> map Some fdns @ replicate (8 - length fdns) None),
     fs_descriptors = Map.empty(8192 \<mapsto> map Some ds), fs_alloc = ()\<rparr>"

definition shell_files :: "file_description list" where
  "shell_files = [file_description_new 12288 DevZeroFile ModeRead, file_description_new 12320 DevNullFile ModeWrite,
     file_description_new 16384 UARTFile ModeRead, file_description_new 16384 UARTFile ModeWrite]"

definition shell_fd_table :: vector where
  "shell_fd_table = \<lparr>v_count = 4, v_capacity = 16, v_contents = 8192\<rparr>"

definition shell_task :: task where
  "shell_task = (example_task Runnable None)\<lparr>t_fd_table := shell_fd_table\<rparr>"

definition shell_process :: "unit fs \<Rightarrow> unit kernel process" where
  "shell_process fs = \<lparr>pr_memory = Map.empty(36864 \<mapsto> ''/dev/uart0'' @ [NUL]), pr_freed = Map.empty,
     pr_kernel = example_kernel\<lparr>k_task_store := Map.empty(4096 \<mapsto> [Some shell_task, None, None]), k_fs := fs\<rparr>,
     pr_stats = no_stats\<rparr>"

definition shell_env :: "unit kernel user_env" where
  "shell_env = \<lparr>ue_sys = software_interrupt_handler shell_kernel_env example_devices, ue_fresh = \<lambda>p x. NUL, ue_depth = 1,
     ue_literal = \<lambda>s. 36864\<rparr>"

lemma shell_get_task: "get_task (pr_kernel (shell_process fs)) 0 = Some shell_task"
  "k_running_task_index (pr_kernel (shell_process fs)) = 0"
  by (simp_all add: get_task_def slot_get_def shell_process_def example_kernel_def)

lemma uart_path: "path_class (''/dev/uart0'' @ [NUL]) = Some (Some UARTFile)"
  by code_simp

abbreviation first_fds :: "fdn_ptr option list" where "first_fds \<equiv> [Some (4096, 0), Some (4096, 1)]"

lemma insert_null_four:
  "insert_null_loop st p d i 4 = insert_null_loop st p d i (Suc (Suc (Suc (Suc 0))))"
  by (simp add: numeral_eq_Suc)

lemma unused_slots:
  "replicate 6 None = [None, None, None, None, None, None]" "replicate 5 None = [None, None, None, None, None]"
  "replicate 4 None = [None, None, None, None]"
  by (simp_all add: numeral_eq_Suc)

lemma shell_fdt_open:
  "fdt_open (ke_fs shell_kernel_env) (''/dev/uart0'' @ [NUL]) ModeRead shell_fd_table
      (shell_fs (take 2 shell_files) (first_fds @ [None, None]))
    = Some (2, shell_fd_table, shell_fs (take 3 shell_files) (first_fds @ [Some (4096, 2), None]))"
  "fdt_open (ke_fs shell_kernel_env) (''/dev/uart0'' @ [NUL]) ModeWrite shell_fd_table
      (shell_fs (take 3 shell_files) (first_fds @ [Some (4096, 2), None]))
    = Some (3, shell_fd_table, shell_fs shell_files (first_fds @ [Some (4096, 2), Some (4096, 3)]))"
  unfolding fdt_open_def file_table_open_def uart_path
  by (simp_all add: shell_kernel_env_def shell_fs_def shell_files_def owner_try_create_def
      vec_append_def vec_ensure_def vec_emplace_unensured_def slot_put_def slot_get_def fdt_try_insert_def
      shell_fd_table_def insert_null_four unused_slots Let_def)

lemma shell_open:
  assumes "fdt_open (ke_fs shell_kernel_env) (''/dev/uart0'' @ [NUL]) mode shell_fd_table fs = Some (fd, shell_fd_table, fs')"
    and "in_range CInt fd"
  shows "user_open (ue_sys shell_env) (ue_literal shell_env ''/dev/uart0'') mode (shell_process fs) = Some (fd, shell_process fs')"
proof -
  have mode: "validate_file_mode (of_int (file_mode_num mode)) = Some mode"
    using mode_decodes by blast
  have path: "user_bytes (pr_memory (shell_process fs)) 36864 = ''/dev/uart0'' @ [NUL]"
    by (simp add: user_bytes_def shell_process_def)
  have table: "t_fd_table shell_task = shell_fd_table" by (simp add: shell_task_def)
  have k: "k_fs (pr_kernel (shell_process fs)) = fs" by (simp add: shell_process_def)
  have put: "put_task 0 shell_task (set_fs fs' (pr_kernel (shell_process fs))) = Some (set_fs fs' (pr_kernel (shell_process fs)))"
    by (rule put_task_id) (simp add: get_task_set_fs shell_get_task)
  have same: "shell_task\<lparr>t_fd_table := shell_fd_table\<rparr> = shell_task" by (simp add: shell_task_def)
  have result: "(shell_process fs)\<lparr>pr_kernel := set_fs fs' (pr_kernel (shell_process fs))\<rparr> = shell_process fs'"
    by (simp add: shell_process_def set_fs_def)
  show ?thesis
    using assms(1) cast_fd [OF assms(2)] path
    by (simp add: user_open_def shell_env_def string_view_of_def strlen_eq syscall2_def syscall3_def
        software_interrupt_handler_def handle_syscall_def validate_syscall_num task_open_def from_signed_cast_def mode
        shell_get_task table k put same result del: syscall_num.simps file_mode_num.simps append.simps)
qed

theorem setup_uart_redirects_witness:
  "\<exists>st. setup_uart_as_stdio shell_env
        (shell_process (shell_fs (take 2 shell_files) (first_fds @ [None, None])), (Map.empty, empty_mll)) = Some (Inr st)
    \<and> fd_table_is (pr_kernel (fst st)) [Some (4096, 2), Some (4096, 3), Some (4096, 2), Some (4096, 3)]"
proof -
  let ?p = "shell_process (shell_fs (take 2 shell_files) (first_fds @ [None, None]))"
  let ?p1 = "shell_process (shell_fs (take 3 shell_files) (first_fds @ [Some (4096, 2), None]))"
  let ?fs2 = "shell_fs shell_files (first_fds @ [Some (4096, 2), Some (4096, 3)])"
  let ?ds = "first_fds @ [Some (4096, 2), Some (4096, 3)]"
  have sys: "ue_sys shell_env = software_interrupt_handler shell_kernel_env example_devices" by (simp add: shell_env_def)
  have fit: "in_range CInt (int 2)" "in_range CInt (int 3)" by (rule in_range_fd, simp)+
  have o: "user_open (ue_sys shell_env) (ue_literal shell_env ''/dev/uart0'') ModeRead ?p = Some (int 2, ?p1)"
    "user_open (ue_sys shell_env) (ue_literal shell_env ''/dev/uart0'') ModeWrite ?p1 = Some (int 3, shell_process ?fs2)"
    by (rule shell_open; use shell_fdt_open fit in simp)+
  have t: "get_task (pr_kernel (shell_process ?fs2)) (unat (k_running_task_index (pr_kernel (shell_process ?fs2)))) = Some shell_task"
    by (simp add: shell_get_task)
  have v: "vec_rep 4 (t_fd_table shell_task) (fs_descriptors (k_fs (pr_kernel (shell_process ?fs2)))) ?ds"
    by (simp add: vec_rep_def shell_task_def shell_fd_table_def shell_process_def shell_fs_def)
  obtain fs3 where c1: "file_table_close (ke_fs shell_kernel_env) (4096, 0) (k_fs (pr_kernel (shell_process ?fs2))) = Some fs3"
      "fs_descriptions fs3 = (fs_descriptions ?fs2)(4096 \<mapsto> (map Some shell_files @ replicate 4 None)[0 := None])"
    by (simp add: file_table_close_def shell_process_def shell_fs_def shell_files_def slot_get_def slot_put_def
        file_description_new_def owner_dtor_def default_destroy_def shell_kernel_env_def)
  obtain fs4 where c2: "file_table_close (ke_fs shell_kernel_env) (4096, 1) fs3 = Some fs4"
    using c1(2) by (simp add: file_table_close_def shell_files_def slot_get_def slot_put_def
        file_description_new_def owner_dtor_def default_destroy_def shell_kernel_env_def)
  from setup_uart_redirects [OF sys o _ _ t v _ _ _ _ _ _ _ c1(1) c2, of "(4096, 2)" "(4096, 3)" "(Map.empty, empty_mll)"]
  obtain st where st: "setup_uart_as_stdio shell_env (?p, (Map.empty, empty_mll))
        = Some (Inr ((shell_process ?fs2)\<lparr>pr_kernel := set_fs (fs4\<lparr>fs_descriptors := st\<rparr>) (pr_kernel (shell_process ?fs2))\<rparr>, (Map.empty, empty_mll)))"
      "vec_rep 4 (t_fd_table shell_task) st (?ds[0 := Some (4096, 2), 1 := Some (4096, 3)])"
    by auto
  have "get_task (set_fs f (pr_kernel (shell_process ?fs2))) (unat (k_running_task_index (set_fs f (pr_kernel (shell_process ?fs2))))) = Some shell_task" for f
    using t by (simp add: get_task_set_fs) (simp add: set_fs_def)
  then show ?thesis using st by (auto simp: fd_table_is_def set_fs_def intro!: exI [of _ 4])
qed


end
