(* ===== verification/Boot.thy ===== *)
theory Boot
  imports Printing Interrupts Syscalls Display Allocators
begin

text \<open>
  Booting and dying: \<open>init\<close> of kernel/kernel.cpp with the initialisers it calls, the kernel's allocator
  (kernel/kmalloc.cpp), panics (kernel/arch/panic.hpp and aarch32/panic.hpp) and the handlers of
  exceptions (kernel/arch/aarch32/exception.cpp). What a panic leaves is the device when the processor
  halts, with the report sent; the registers it prints are an argument.
\<close>

section \<open>Panics\<close>

record live_registers =
  live_sp :: ptr
  live_lr :: ptr
  live_cpsr :: u32

definition panic :: "live_registers \<Rightarrow> (uart \<Rightarrow> uart option) list \<Rightarrow> uart \<Rightarrow> uart option" where
  "panic live args u = do {
     u \<leftarrow> consoleln [print_lit uart_printer_print (CHR 0x0A # ''KERNEL PANIC! (!!!)'')] u;
     u \<leftarrow> consoleln args u;
     consoleln [print_lit uart_printer_print ''cpsr:'', print_with_cpsr uart_printer_print (cpsr_from_data (live_cpsr live)),
       print_lit uart_printer_print ''sp:'', print_with_ptr uart_printer_print (live_sp live),
       print_lit uart_printer_print ''lr:'', print_with_ptr uart_printer_print (live_lr live)] u
   }"

text \<open>The arguments of \<open>panic\<close> in \<open>PANIC_MESSAGE_IF\<close>, at a line of a file in a function.\<close>

definition panic_message_args ::
    "char list \<Rightarrow> int \<Rightarrow> char list \<Rightarrow> char list \<Rightarrow> char list \<Rightarrow> (uart \<Rightarrow> uart option) list" where
  "panic_message_args file line function cond message =
     [print_lit uart_printer_print file, print_lit uart_printer_print '':'', print_with_int uart_printer_print CInt line,
      print_lit uart_printer_print '' '', print_lit uart_printer_print function,
      print_lit uart_printer_print [CHR 0x09, CHR 0x22], print_lit uart_printer_print cond,
      print_lit uart_printer_print (CHR 0x22 # '' condition failed. ''), print_lit uart_printer_print message,
      print_lit uart_printer_print [CHR 0x0A, CHR 0x0A]]"

section \<open>Exceptions\<close>

definition red :: "char list \<Rightarrow> char list" where
  "red s = CHR 0x1B # ''[31m'' @ s @ CHR 0x1B # ''[0m''"

definition reset_handler :: "live_registers \<Rightarrow> uart \<Rightarrow> uart option" where
  "reset_handler live = panic live [print_lit uart_printer_print ''Resetting. Goodbye.'']"

definition undefined_instruction_handler :: "live_registers \<Rightarrow> u32 \<Rightarrow> ptr \<Rightarrow> ptr \<Rightarrow> uart \<Rightarrow> uart option" where
  "undefined_instruction_handler live old_cpsr_as_u32 old_pc old_lr =
     (let old_cpsr = cpsr_from_data old_cpsr_as_u32
      in panic live
        [print_lit uart_printer_print (red ''Undefined instruction! halting.'' @ [CHR 0x0A, CHR 0x0A] @ ''old cpsr:''),
         print_with_cpsr uart_printer_print old_cpsr,
         print_lit uart_printer_print (CHR 0x09 # ''old pc:''), print_with_ptr uart_printer_print old_pc,
         print_lit uart_printer_print (CHR 0x09 # ''old lr: ''), print_with_ptr uart_printer_print old_lr])"

definition prefetch_abort_handler :: "live_registers \<Rightarrow> uart \<Rightarrow> uart option" where
  "prefetch_abort_handler live =
     panic live [print_lit uart_printer_print (''interrupt:'' @ CHR 0x09 # red ''Prefetch abort! halting.'')]"

text \<open>The table is printed as it stands, at the address in the register, where the boot code put it.\<close>

definition data_abort_handler ::
    "live_registers \<Rightarrow> mmu \<Rightarrow> u32 \<Rightarrow> ptr \<Rightarrow> ptr \<Rightarrow> uart \<Rightarrow> uart option" where
  "data_abort_handler live m old_cpsr_as_u32 old_pc addr =
     (let old_cpsr = cpsr_from_data old_cpsr_as_u32
      in panic live
        [print_lit uart_printer_print
           (''interrupt:'' @ CHR 0x09 # red ''Data abort! halting.'' @ [CHR 0x0A, CHR 0x0A] @ ''old cpsr:''),
         print_with_cpsr uart_printer_print old_cpsr,
         print_lit uart_printer_print (CHR 0x09 # ''old pc:''), print_with_ptr uart_printer_print old_pc,
         print_lit uart_printer_print (CHR 0x09 # ''addr:''), print_with_ptr uart_printer_print addr,
         print_lit uart_printer_print [CHR 0x0A],
         print_with_l1_table uart_printer_print (mm_l2_tables m) (l1_table m) (mm_l1_table m)])"

definition fast_irq_handler :: "live_registers \<Rightarrow> uart \<Rightarrow> uart option" where
  "fast_irq_handler live =
     panic live [print_lit uart_printer_print (''interrupt:'' @ CHR 0x09 # ''Handling fast IRQ...'')]"

definition irq_handler :: "interrupt_registers \<Rightarrow> 's kernel \<Rightarrow> 's kernel option" where
  "irq_handler = interrupts_handle_irq"

section \<open>The runtime's hooks\<close>

definition operator_delete :: "live_registers \<Rightarrow> ptr \<Rightarrow> uart \<Rightarrow> uart option" where
  "operator_delete live p = panic live
     [print_lit uart_printer_print (''operator delete got called! (new() doesn'' @ CHR 0x27 # ''t exist?!): ptr''),
      print_with_ptr uart_printer_print p]"

definition operator_delete_sized :: "live_registers \<Rightarrow> ptr \<Rightarrow> size_t \<Rightarrow> uart \<Rightarrow> uart option" where
  "operator_delete_sized live p n = panic live
     [print_lit uart_printer_print (''operator delete got called! (new() doesn'' @ CHR 0x27 # ''t exist?!): ptr''),
      print_with_ptr uart_printer_print p, print_lit uart_printer_print '', size'',
      print_with_int uart_printer_print CUInt (uint n)]"

definition cxa_pure_virtual :: "live_registers \<Rightarrow> uart \<Rightarrow> uart option" where
  "cxa_pure_virtual live = panic live [print_lit uart_printer_print ''A pure virtual function was called!'']"

text \<open>The routines of pine/arch/eabi.cpp that the compiler calls to clear and to copy, over memory as bytes.\<close>

definition aeabi_memclr4 :: "char list \<Rightarrow> nat \<Rightarrow> nat \<Rightarrow> char list option" where
  "aeabi_memclr4 dest off n = bzero dest off n"

definition aeabi_memclr8 :: "char list \<Rightarrow> nat \<Rightarrow> nat \<Rightarrow> char list option" where
  "aeabi_memclr8 dest off n = bzero dest off n"

definition aeabi_memcpy4 :: "char list \<Rightarrow> nat \<Rightarrow> char list \<Rightarrow> nat \<Rightarrow> char list option" where
  "aeabi_memcpy4 to_mem off from n = memcpy to_mem off from n"

section \<open>The kernel's allocator\<close>

type_synonym kernel_memory = "(mmu, fl_state) bound_state"

definition kmalloc :: "nat \<Rightarrow> size_t \<Rightarrow> kernel_memory \<Rightarrow> (allocation \<times> kernel_memory) option" where
  "kmalloc fuel = binder_allocate (mmu_allocate fuel) fl_allocate fl_add fl_preferred_size"

definition kfree :: "allocation \<Rightarrow> kernel_memory \<Rightarrow> kernel_memory option" where
  "kfree alloc s = do { (_, s) \<leftarrow> binder_free fl_free alloc s; Some s }"

text \<open>An environment of the files on it: the allocator is passed to them as \<open>kernel_allocator()\<close>.\<close>

definition on_kernel_allocator :: "nat \<Rightarrow> kernel_memory kernel_env \<Rightarrow> kernel_memory kernel_env" where
  "on_kernel_allocator fuel ke =
     ke\<lparr>ke_fs := (ke_fs ke)\<lparr>env_allocate := kmalloc fuel, env_free := binder_free fl_free\<rparr>\<rparr>"

section \<open>Booting\<close>

record machine =
  mc_irq :: interrupt_registers
  mc_kernel :: "kernel_memory kernel"
  mc_display :: display
  mc_mailbox :: mailbox

text \<open>
  What the kernel is linked and run with: the bound on the rounds of the page tables' allocator, the end
  of its code, the addresses of the messages, which are static, the frame buffer's pixels, and the name of the file.
\<close>

record boot_env =
  be_fuel :: nat
  be_code_end :: ptr
  be_kernel :: "kernel_memory kernel_env"
  be_display_message :: ptr
  be_vram :: "u32 list"
  be_serial_message :: ptr
  be_file :: "char list"
  be_live :: live_registers

datatype 'm boot = Halted 'm | Scheduling 'm

definition on_uart :: "(uart \<Rightarrow> uart option) \<Rightarrow> machine \<Rightarrow> machine option" where
  "on_uart f m = do {
     u \<leftarrow> f (k_uart (mc_kernel m));
     Some (m\<lparr>mc_kernel := (mc_kernel m)\<lparr>k_uart := u\<rparr>\<rparr>)
   }"

definition interrupts_enable_uart :: "machine \<Rightarrow> machine" where
  "interrupts_enable_uart m = m\<lparr>mc_irq := irq_enable_uart (mc_irq m)\<rparr>"

definition interrupts_enable_timer :: "machine \<Rightarrow> machine" where
  "interrupts_enable_timer m = m\<lparr>mc_irq := irq_enable_timer (mc_irq m)\<rparr>"

definition uart_init :: "machine \<Rightarrow> machine" where
  "uart_init m = interrupts_enable_uart (m\<lparr>mc_kernel := (mc_kernel m)\<lparr>k_uart := uart_reset (k_uart (mc_kernel m))\<rparr>\<rparr>)"

text \<open>The page tables are set up by the assembly routine \<open>mmu_init\<close> with \<open>init_page_tables\<close>.\<close>

definition boot_mmu :: "boot_env \<Rightarrow> machine \<Rightarrow> machine option" where
  "boot_mmu env m = do {
     let (mm, fl) = fs_alloc (k_fs (mc_kernel m));
     mm \<leftarrow> init_page_tables (be_code_end env) mm;
     Some (m\<lparr>mc_kernel := set_alloc (mm, fl) (mc_kernel m)\<rparr>)
   }"

definition boot_timer :: "machine \<Rightarrow> machine" where
  "boot_timer m = m\<lparr>mc_kernel := (mc_kernel m)\<lparr>k_timer := timer_init (k_timer (mc_kernel m))\<rparr>\<rparr>"

definition boot_display :: "boot_env \<Rightarrow> machine \<Rightarrow> machine option" where
  "boot_display env m = do {
     (d, mb) \<leftarrow> display_init (be_display_message env) (be_vram env) 1024 756 (mc_mailbox m);
     Some (m\<lparr>mc_display := d, mc_mailbox := mb\<rparr>)
   }"

text \<open>\<open>tasks_init\<close>: the timer is enabled, and the scheduler, which does not come back, started.\<close>

definition boot_tasks :: "boot_env \<Rightarrow> machine \<Rightarrow> machine option" where
  "boot_tasks env m = do {
     let m = interrupts_enable_timer m;
     k \<leftarrow> tasks_init (on_kernel_allocator (be_fuel env) (be_kernel env)) (mc_kernel m);
     Some (m\<lparr>mc_kernel := k\<rparr>)
   }"

definition pinyon_text :: "char list" where
  "pinyon_text = CHR 0x1B # ''[0;33mPinyon'' @ CHR 0x1B # ''[0m''"

definition pine_text :: "char list" where
  "pine_text = ''+'' @ CHR 0x1B # ''[0;32mPine'' @ CHR 0x1B # ''[0m''"

definition kernel_init :: "boot_env \<Rightarrow> machine \<Rightarrow> machine boot option" where
  "kernel_init env m = do {
     let m = uart_init m;
     m \<leftarrow> on_uart (console [print_lit uart_printer_print ''Initializing... '']) m;
     m \<leftarrow> on_uart (console [print_lit uart_printer_print ''memory '']) m;
     m \<leftarrow> boot_mmu env m;
     m \<leftarrow> on_uart (console [print_lit uart_printer_print ''timer '']) m;
     let m = boot_timer m;
     m \<leftarrow> on_uart (console [print_lit uart_printer_print ''display'']) m;
     m \<leftarrow> boot_display env m;
     m \<leftarrow> on_uart (consoleln []) m;
     m \<leftarrow> on_uart (consolef (lit (''Welcome to %s%s! (%c) %d-%d'' @ [CHR 0x0A]))
       [VaString (lit pinyon_text), VaString (lit pine_text), VaWord (char_u32 (CHR ''c'')), VaWord 2021, VaWord 2023]) m;
     (maybe_serial, mb) \<leftarrow> try_retrieve_serial_num (be_serial_message env) (replicate 8 0) (mc_mailbox m);
     let m = m\<lparr>mc_mailbox := mb\<rparr>;
     (case maybe_serial of
        None \<Rightarrow> do {
          m \<leftarrow> on_uart (panic (be_live env) (panic_message_args (be_file env) 65 ''void init()'' ''!maybe_serial'' [])) m;
          Some (Halted m)
        }
      | Some serial \<Rightarrow> do {
          m \<leftarrow> on_uart (consolef (lit (''Serial: %#lx%lx'' @ [CHR 0x0A]))
            [VaWord (serial_bottom serial), VaWord (serial_top serial)]) m;
          m \<leftarrow> boot_tasks env m;
          Some (Scheduling m)
        })
   }"

section \<open>What a panic reports\<close>

definition panic_text :: "live_registers \<Rightarrow> char list list \<Rightarrow> char list" where
  "panic_text live outs =
     joined '' '' [CHR 0x0A # ''KERNEL PANIC! (!!!)'', [CHR 0x0A]] @ joined '' '' (outs @ [[CHR 0x0A]])
     @ joined '' '' [''cpsr:'', cpsr_text (cpsr_from_data (live_cpsr live)), ''sp:'', ''0x'' @ hex_digits 8 (unat (live_sp live)),
         ''lr:'', ''0x'' @ hex_digits 8 (unat (live_lr live)), [CHR 0x0A]]"

lemma sends_panic:
  assumes "list_all2 sends args outs"
  shows "sends (panic live args) (panic_text live outs)"
proof -
  have "sends (print_lit uart_printer_print (CHR 0x0A # ''KERNEL PANIC! (!!!)'')) (CHR 0x0A # ''KERNEL PANIC! (!!!)'')"
    "sends (print_lit uart_printer_print ''cpsr:'') ''cpsr:''"
    "sends (print_lit uart_printer_print ''sp:'') ''sp:''" "sends (print_lit uart_printer_print ''lr:'') ''lr:''"
    by (simp_all add: sends_lit)
  then have "list_all2 sends [print_lit uart_printer_print (CHR 0x0A # ''KERNEL PANIC! (!!!)'')] [CHR 0x0A # ''KERNEL PANIC! (!!!)'']"
    and "list_all2 sends [print_lit uart_printer_print ''cpsr:'', print_with_cpsr uart_printer_print (cpsr_from_data (live_cpsr live)),
       print_lit uart_printer_print ''sp:'', print_with_ptr uart_printer_print (live_sp live),
       print_lit uart_printer_print ''lr:'', print_with_ptr uart_printer_print (live_lr live)]
      [''cpsr:'', cpsr_text (cpsr_from_data (live_cpsr live)), ''sp:'', ''0x'' @ hex_digits 8 (unat (live_sp live)),
         ''lr:'', ''0x'' @ hex_digits 8 (unat (live_lr live))]"
    by (simp_all only: list_all2_Cons list_all2_Nil sends_cpsr sends_ptr simp_thms)
  from sends_bind [OF consoleln_sends [OF this(1)] sends_bind [OF consoleln_sends [OF assms] consoleln_sends [OF this(2)]]]
  show ?thesis by (simp only: panic_def [abs_def] panic_text_def append_Cons append_Nil)
qed

text \<open>
  C25. An undefined instruction is reported and the processor halts: when the device drains, the handler
  returns with exactly its report sent on the UART, the status register, program counter and link
  register of the interrupted code among it, then the registers at the panic, and changes nothing else.
\<close>

theorem undefined_instruction_report:
  assumes "drains u"
  shows "\<exists>u'. undefined_instruction_handler live c pc lr u = Some u' \<and> sent_more u (panic_text live
    [red ''Undefined instruction! halting.'' @ [CHR 0x0A, CHR 0x0A] @ ''old cpsr:'', cpsr_text (cpsr_from_data c),
     CHR 0x09 # ''old pc:'', ''0x'' @ hex_digits 8 (unat pc), CHR 0x09 # ''old lr: '', ''0x'' @ hex_digits 8 (unat lr)]) u'"
proof -
  have lits: "sends (print_lit uart_printer_print s) s"
    if "s \<in> {red ''Undefined instruction! halting.'' @ [CHR 0x0A, CHR 0x0A] @ ''old cpsr:'', CHR 0x09 # ''old pc:'',
      CHR 0x09 # ''old lr: ''}" for s
    using that by (intro sends_lit) (auto simp: red_def)
  have "sends (undefined_instruction_handler live c pc lr) (panic_text live
    [red ''Undefined instruction! halting.'' @ [CHR 0x0A, CHR 0x0A] @ ''old cpsr:'', cpsr_text (cpsr_from_data c),
     CHR 0x09 # ''old pc:'', ''0x'' @ hex_digits 8 (unat pc), CHR 0x09 # ''old lr: '', ''0x'' @ hex_digits 8 (unat lr)])"
    unfolding undefined_instruction_handler_def Let_def
    by (intro sends_panic list_all2_Cons [THEN iffD2] list_all2_Nil [THEN iffD2] conjI lits sends_cpsr sends_ptr TrueI) simp_all
  then show ?thesis using assms by (simp only: sends_def)
qed

section \<open>What booting reports\<close>

lemma collect_convert:
  assumes "convert (fst (parse_flag fmt)) (fst (parse_modifier (snd (parse_flag fmt))))
      (peek (snd (parse_modifier (snd (parse_flag fmt))))) args = Some (Some (str, args'))"
    and "NUL \<in> set str" and "cstring str = s"
  shows "vfnprintf_loop collect (CHR ''%'' # fmt) args out
    = vfnprintf_loop collect (tl (snd (parse_modifier (snd (parse_flag fmt))))) args' (out @ s)"
  using assms by (simp add: collect_eq)

lemma collect_s:
  assumes "NUL \<notin> set s"
  shows "vfnprintf_loop collect (CHR ''%'' # CHR ''s'' # fmt) (VaString (lit s) # args) out = vfnprintf_loop collect fmt args (out @ s)"
  using collect_convert [of "CHR ''s'' # fmt" "VaString (lit s) # args" "lit s" args s out] assms
  by (simp add: parse_flag_def parse_modifier_def peek_def convert_def lit_def)

lemma collect_c:
  assumes "c \<noteq> NUL"
  shows "vfnprintf_loop collect (CHR ''%'' # CHR ''c'' # fmt) (VaWord (char_u32 c) # args) out
    = vfnprintf_loop collect fmt args (out @ [c])"
proof -
  have "unat (of_nat (of_char c) :: u32) = of_char c"
    by (rule unat_of_nat_lt, rule less_trans [OF nat_of_char_less_256]) simp
  then have "char_of (unat (take_bit 8 (char_u32 c))) = c"
    by (simp add: char_u32_def take_bit_of_nat unat_of_nat_lt take_bit_nat_eq_self)
  then show ?thesis
    using collect_convert [of "CHR ''c'' # fmt" "VaWord (char_u32 c) # args" "[c, NUL]" args "[c]" out] assms
    by (simp add: parse_flag_def parse_modifier_def peek_def convert_def)
qed

lemma collect_d:
  assumes "sint w \<noteq> - (2 ^ 31)"
  shows "vfnprintf_loop collect (CHR ''%'' # CHR ''d'' # fmt) (VaWord w # args) out
    = vfnprintf_loop collect fmt args (out @ decimal (sint w))"
proof -
  obtain str where "convert FlagNone ArgNone (CHR ''d'') (VaWord w # args) = Some (Some (str, args))"
      "cstring str = decimal (sint w)" "NUL \<in> set str"
    using convert_signed [OF assms] by blast
  then show ?thesis
    using collect_convert [of "CHR ''d'' # fmt" "VaWord w # args" str args "decimal (sint w)" out]
    by (simp add: parse_flag_def parse_modifier_def peek_def)
qed

definition welcome_text :: "char list" where
  "welcome_text = ''Welcome to '' @ pinyon_text @ pine_text @ ''! (c) 2021-2023'' @ [CHR 0x0A]"

lemma years: "decimal 2021 = ''2021''" "decimal 2023 = ''2023''"
proof -
  have "log 2021 = 3" "log 2023 = 3" by (simp_all add: log_def log_loop.simps)
  moreover have four: "(4 :: nat) = Suc (Suc (Suc (Suc 0)))" by simp
  have "dec_digits 4 2021 = ''2021''" "dec_digits 4 2023 = ''2023''"
    unfolding four dec_digits.simps by (simp_all add: char_of_def bit_iff_odd)
  ultimately show "decimal 2021 = ''2021''" "decimal 2023 = ''2023''" by (simp_all add: decimal_def)
qed

lemma welcome_printed:
  "vfnprintf collect (lit (''Welcome to %s%s! (%c) %d-%d'' @ [CHR 0x0A]))
     [VaString (lit pinyon_text), VaString (lit pine_text), VaWord (char_u32 (CHR ''c'')), VaWord 2021, VaWord 2023] []
   = Some (True, welcome_text)"
proof -
  have "NUL \<notin> set pinyon_text" "NUL \<notin> set pine_text" by (simp_all add: pinyon_text_def pine_text_def)
  then have "vfnprintf_loop collect (''Welcome to %s%s! (%c) %d-%d'' @ [CHR 0x0A])
     [VaString (lit pinyon_text), VaString (lit pine_text), VaWord (char_u32 (CHR ''c'')), VaWord 2021, VaWord 2023] []
    = Some (True, welcome_text)"
    by (simp add: collect_literal collect_s collect_c collect_d years welcome_text_def del: vfnprintf_loop.simps(2))
  then show ?thesis
    by (simp add: vfnprintf_def string_view_of_def strlen_eq lit_def del: vfnprintf_loop.simps)
qed

definition serial_text :: "serial_num \<Rightarrow> char list" where
  "serial_text s = ''Serial: 0x'' @ hex_digits 8 (unat (serial_bottom s)) @ hex_digits 8 (unat (serial_top s)) @ [CHR 0x0A]"

lemma collect_lx:
  "vfnprintf_loop collect (CHR ''%'' # CHR ''l'' # CHR ''x'' # fmt) (VaWord w # args) out
    = vfnprintf_loop collect fmt args (out @ hex_digits 8 (unat w))"
  "vfnprintf_loop collect (CHR ''%'' # CHR ''#'' # CHR ''l'' # CHR ''x'' # fmt) (VaWord w # args) out
    = vfnprintf_loop collect fmt args (out @ ''0x'' @ hex_digits 8 (unat w))"
proof -
  obtain str where "convert FlagNone ArgLong (CHR ''x'') (VaWord w # args) = Some (Some (str, args))"
      "cstring str = hex_digits 8 (unat w)" "NUL \<in> set str"
    using convert_hex(1) [of FlagNone ArgLong w args] by auto
  then show "vfnprintf_loop collect (CHR ''%'' # CHR ''l'' # CHR ''x'' # fmt) (VaWord w # args) out
    = vfnprintf_loop collect fmt args (out @ hex_digits 8 (unat w))"
    using collect_convert [of "CHR ''l'' # CHR ''x'' # fmt" "VaWord w # args" str args _ out]
    by (simp add: parse_flag_def parse_modifier_def peek_def)
  obtain str where "convert AlternativeForm ArgLong (CHR ''x'') (VaWord w # args) = Some (Some (str, args))"
      "cstring str = ''0x'' @ hex_digits 8 (unat w)" "NUL \<in> set str"
    using convert_hex(1) [of AlternativeForm ArgLong w args] by auto
  then show "vfnprintf_loop collect (CHR ''%'' # CHR ''#'' # CHR ''l'' # CHR ''x'' # fmt) (VaWord w # args) out
    = vfnprintf_loop collect fmt args (out @ ''0x'' @ hex_digits 8 (unat w))"
    using collect_convert [of "CHR ''#'' # CHR ''l'' # CHR ''x'' # fmt" "VaWord w # args" str args _ out]
    by (simp add: parse_flag_def parse_modifier_def peek_def)
qed

lemma serial_printed:
  "vfnprintf collect (lit (''Serial: %#lx%lx'' @ [CHR 0x0A])) [VaWord (serial_bottom s), VaWord (serial_top s)] []
    = Some (True, serial_text s)"
proof -
  have "vfnprintf_loop collect (''Serial: %#lx%lx'' @ [CHR 0x0A]) [VaWord (serial_bottom s), VaWord (serial_top s)] []
    = Some (True, serial_text s)"
    by (simp add: collect_literal collect_lx serial_text_def del: vfnprintf_loop.simps(2))
  then show ?thesis
    by (simp add: vfnprintf_def string_view_of_def strlen_eq lit_def del: vfnprintf_loop.simps)
qed

definition no_serial_text :: "boot_env \<Rightarrow> char list" where
  "no_serial_text env = panic_text (be_live env)
     [be_file env, '':'', ''65'', '' '', ''void init()'', [CHR 0x09, CHR 0x22], ''!maybe_serial'',
      CHR 0x22 # '' condition failed. '', [], [CHR 0x0A, CHR 0x0A]]"

lemma no_serial_sent:
  assumes "NUL \<notin> set (be_file env)"
  shows "sends (panic (be_live env) (panic_message_args (be_file env) 65 ''void init()'' ''!maybe_serial'' [])) (no_serial_text env)"
proof -
  have lits: "sends (print_lit uart_printer_print s) s"
    if "s \<in> {be_file env, '':'', '' '', ''void init()'', [CHR 0x09, CHR 0x22], ''!maybe_serial'',
      CHR 0x22 # '' condition failed. '', [], [CHR 0x0A, CHR 0x0A]}" for s
    using that assms by (intro sends_lit) auto
  have "log 65 = 1" by (simp add: log_def log_loop.simps)
  moreover have "dec_digits (Suc (Suc 0)) 65 = ''65''" by (simp add: char_of_def bit_iff_odd)
  ultimately have "decimal 65 = ''65''" by (simp add: decimal_def numeral_2_eq_2)
  then have "sends (print_with_int uart_printer_print CInt 65) ''65''"
    using sends_int [of CInt 65] by (simp add: in_range_def cint_min_def cint_max_def is_signed_def)
  then show ?thesis
    unfolding no_serial_text_def panic_message_args_def
    by (intro sends_panic list_all2_Cons [THEN iffD2] list_all2_Nil [THEN iffD2] conjI lits TrueI) simp_all
qed

text \<open>Booting without the console: what the devices and the page tables become.\<close>

definition boot_devices :: "boot_env \<Rightarrow> machine \<Rightarrow> (serial_num option \<times> machine) option" where
  "boot_devices env m = do {
     m \<leftarrow> boot_mmu env (interrupts_enable_uart m);
     m \<leftarrow> boot_display env (boot_timer m);
     (maybe_serial, mb) \<leftarrow> try_retrieve_serial_num (be_serial_message env) (replicate 8 0) (mc_mailbox m);
     Some (maybe_serial, m\<lparr>mc_mailbox := mb\<rparr>)
   }"

abbreviation mc_uart :: "machine \<Rightarrow> uart" where "mc_uart m \<equiv> k_uart (mc_kernel m)"

definition with_uart :: "uart \<Rightarrow> machine \<Rightarrow> machine" where
  "with_uart u m = m\<lparr>mc_kernel := (mc_kernel m)\<lparr>k_uart := u\<rparr>\<rparr>"


lemma with_uart_simps [simp]:
  "with_uart u (with_uart v m) = with_uart u m"
  "mc_uart (with_uart u m) = u"
  "mc_mailbox (with_uart u m) = mc_mailbox m"
  "with_uart u m\<lparr>mc_mailbox := mb\<rparr> = with_uart u (m\<lparr>mc_mailbox := mb\<rparr>)"
  "boot_timer (with_uart u m) = with_uart u (boot_timer m)"
  by (simp_all add: with_uart_def boot_timer_def)

lemma with_uart_boot:
  "boot_mmu env (with_uart u m) = map_option (with_uart u) (boot_mmu env m)"
  "boot_display env (with_uart u m) = map_option (with_uart u) (boot_display env m)"
  by (auto simp: with_uart_def boot_mmu_def boot_display_def set_alloc_def split: prod.split Option.bind_split)

lemma uart_init_eq: "uart_init m = with_uart (uart_reset (mc_uart m)) (interrupts_enable_uart m)"
  by (simp add: uart_init_def interrupts_enable_uart_def with_uart_def)

lemma on_uart_sends:
  assumes "sends f out" and "sent_more u0 sent u" and "drains u"
  obtains v where "on_uart f (with_uart u m) = Some (with_uart v m)" "sent_more u0 (sent @ out) v" "drains v"
proof -
  obtain v where v: "f u = Some v" "sent_more u out v" using assms(1,3) by (auto simp: sends_def)
  have "on_uart f (with_uart u m) = Some (with_uart v m)" using v(1) by (simp add: on_uart_def with_uart_def)
  moreover have "sent_more u0 (sent @ out) v" using assms(2) v(2) by (rule sent_more_trans)
  moreover have "drains v" using assms(3) v(2) by (rule sent_more_drains)
  ultimately show thesis by (rule that)
qed

lemma sends_console_lit: "NUL \<notin> set s \<Longrightarrow> sends (console [print_lit uart_printer_print s]) s"
  using sends_spacing [of "[print_lit uart_printer_print s]" "[s]"] sends_lit [of s] by (simp add: console_def [abs_def])

lemma console_told:
  assumes "NUL \<notin> set s" and "sent_more u0 sent u" and "drains u"
  obtains v where "on_uart (console [print_lit uart_printer_print s]) (with_uart u m) = Some (with_uart v m)"
    "sent_more u0 (sent @ s) v" "drains v"
  using on_uart_sends [OF sends_console_lit [OF assms(1)] assms(2,3)] by blast

lemma drains_reset: "drains u \<Longrightarrow> drains (uart_reset u)"
  by (simp add: drains_def uart_reset_def Let_def split: prod.split)

definition boot_text :: "char list" where
  "boot_text = ''Initializing... '' @ ''memory '' @ ''timer '' @ ''display'' @ [CHR 0x0A] @ welcome_text"

lemma banner_told:
  assumes "sent_more u0 sent u" and "drains u"
  obtains v w where "on_uart (consoleln []) (with_uart u m) = Some (with_uart v m)"
    "on_uart (consolef (lit (''Welcome to %s%s! (%c) %d-%d'' @ [CHR 0x0A]))
      [VaString (lit pinyon_text), VaString (lit pine_text), VaWord (char_u32 (CHR ''c'')), VaWord 2021, VaWord 2023])
      (with_uart v m) = Some (with_uart w m)" "sent_more u0 (sent @ [CHR 0x0A] @ welcome_text) w" "drains w"
proof -
  obtain v where v: "on_uart (consoleln []) (with_uart u m) = Some (with_uart v m)"
      "sent_more u0 (sent @ joined '' '' ([] @ [[CHR 0x0A]])) v" "drains v"
    by (rule on_uart_sends [OF consoleln_sends [OF list.rel_intros(1)] assms])
  from on_uart_sends [OF consolef_sends [OF welcome_printed] this(2,3)] that [OF v(1)] show thesis by auto
qed

definition serial_report :: "boot_env \<Rightarrow> serial_num option \<Rightarrow> char list" where
  "serial_report env serial = (case serial of None \<Rightarrow> no_serial_text env | Some s \<Rightarrow> serial_text s)"

lemma serial_told:
  assumes "NUL \<notin> set (be_file env)" and "sent_more u0 sent u" and "drains u"
  obtains v where "on_uart (case serial of None \<Rightarrow> panic (be_live env) (panic_message_args (be_file env) 65 ''void init()'' ''!maybe_serial'' [])
      | Some s \<Rightarrow> consolef (lit (''Serial: %#lx%lx'' @ [CHR 0x0A])) [VaWord (serial_bottom s), VaWord (serial_top s)])
      (with_uart u m) = Some (with_uart v m)" "sent_more u0 (sent @ serial_report env serial) v"
proof -
  have "sends (case serial of None \<Rightarrow> panic (be_live env) (panic_message_args (be_file env) 65 ''void init()'' ''!maybe_serial'' [])
      | Some s \<Rightarrow> consolef (lit (''Serial: %#lx%lx'' @ [CHR 0x0A])) [VaWord (serial_bottom s), VaWord (serial_top s)])
      (serial_report env serial)"
    using no_serial_sent [OF assms(1)] consolef_sends [OF serial_printed] by (simp add: serial_report_def split: option.split)
  from on_uart_sends [OF this assms(2,3)] that show thesis by blast
qed


section \<open>Examples\<close>

definition example_live :: live_registers where
  "example_live = \<lparr>live_sp = 65536, live_lr = 32768, live_cpsr = 0x13\<rparr>"

theorem undefined_instruction_report_witness:
  "\<exists>u'. undefined_instruction_handler example_live 0x10 4096 8192 example_uart = Some u'
    \<and> sent_more example_uart (panic_text example_live
        [red ''Undefined instruction! halting.'' @ [CHR 0x0A, CHR 0x0A] @ ''old cpsr:'', cpsr_text (cpsr_from_data 0x10),
         CHR 0x09 # ''old pc:'', ''0x'' @ hex_digits 8 4096, CHR 0x09 # ''old lr: '', ''0x'' @ hex_digits 8 8192]) u'"
  using undefined_instruction_report [OF example_drains, of example_live "0x10" 4096 8192] by simp

text \<open>A machine whose mailbox accepts the display's message and refuses the request for the serial number.\<close>

definition example_machine :: "machine" where
  "example_machine = \<lparr>mc_irq = \<lparr>pending_basic_irq = 0, pending_irq1 = 0, enable_irq1 = 0, enable_irq2 = 0\<rparr>,
     mc_kernel = \<lparr>k_fs = \<lparr>fs_files = vec_empty, fs_descriptions = Map.empty, fs_descriptors = Map.empty,
         fs_alloc = (\<lparr>mm_physical_page_allocator = broker_empty, mm_virtual_page_allocator = broker_empty, mm_l1_table = [],
           mm_l2_tables = Map.empty, mm_l2_table_allocator = slab_empty, mm_spare_free_l2_page = 0, mm_ttbr0 = 0\<rparr>, (Map.empty, empty_mll))\<rparr>,
       k_bytes = Map.empty, k_tasks = vec_empty, k_task_store = Map.empty, k_running_task_index = 0,
       k_timer = example_timer, k_request = no_request, k_uart = example_uart, k_switches = []\<rparr>,
     mc_display = example_display,
     mc_mailbox = \<lparr>mb_status = \<lambda>_. 0, mb_status_readings = 0,
       mb_read = \<lambda>n. if n = 0 then 2097160 else 2101256, mb_readings = 0,
       mb_contents = \<lambda>n. if n = 0 then (display_message 1024 756)[1 := MAILBOX_RESPONSE] else [32, MAILBOX_ERROR], mb_looks = 0,
       mb_sent = []\<rparr>\<rparr>"

definition example_boot_env :: "boot_env" where
  "example_boot_env = \<lparr>be_fuel = 2, be_code_end = 524288,
     be_kernel = \<lparr>ke_fs = \<lparr>env_allocate = \<lambda>n a. Some (no_allocation, a), env_free = \<lambda>al a. Some (16, a), env_sizeof_file = \<lambda>c. 4\<rparr>,
       ke_garbage = \<lambda>p n. replicate n NUL, ke_halt_addr = 32768, ke_shell_addr = 36864, ke_spin_addr = 40960, ke_sizeof_task = 192\<rparr>,
     be_display_message = 2097152, be_vram = [], be_serial_message = 2101248, be_file = ''kernel.cpp'', be_live = example_live\<rparr>"


end
