(* ===== verification/Algorithms.thy ===== *)
theory Algorithms
  imports Linked_List Int_Limits
begin

unbundle bit_operations_syntax

text \<open>
  The rest of pine/iter.hpp and pine/algorithm.hpp: the kinds of iterators and how they select an
  overload, moving in both directions, and moving and copying ranges. The locale \<open>bidirectional\_range\<close> extends the
  contract of forward ranges with going back.
\<close>

section \<open>Kinds of iterators\<close>

datatype iter_type = Output | Input | IO | Forward | Bidirectional | RandomAccess

fun iter_type_bits :: "iter_type \<Rightarrow> u32" where
  "iter_type_bits Output = 0b1"
| "iter_type_bits Input = 0b10"
| "iter_type_bits IO = 0b11"
| "iter_type_bits Forward = 0b110"
| "iter_type_bits Bidirectional = 0b1110"
| "iter_type_bits RandomAccess = 0b11110"

definition to_static_string :: "u32 \<Rightarrow> char list" where
  "to_static_string iter_type =
     (if iter_type = iter_type_bits Input then ''IterType::Input''
      else if iter_type = iter_type_bits Output then ''IterType::Output''
      else if iter_type = iter_type_bits IO then ''IterType::IO''
      else if iter_type = iter_type_bits Forward then ''IterType::Forward''
      else if iter_type = iter_type_bits Bidirectional then ''IterType::Bidirectional''
      else if iter_type = iter_type_bits RandomAccess then ''IterType::RandomAccess''
      else ''IterType::<Unknown>!'')"

definition iter_type_mask :: "iter_type \<Rightarrow> u32" where
  "iter_type_mask type = push_bit (unat (bit_width (iter_type_bits type) - 1)) 1"

text \<open>The kind that a class names as its \<open>type\<close>, if it has one.\<close>

definition is_iter_type :: "iter_type option \<Rightarrow> iter_type \<Rightarrow> bool" where
  "is_iter_type iter type \<longleftrightarrow> (case iter of None \<Rightarrow> False
     | Some k \<Rightarrow> iter_type_bits k AND iter_type_mask type \<noteq> 0)"

definition has_iter_trait :: "iter_type option \<Rightarrow> iter_type \<Rightarrow> bool" where
  "has_iter_trait iter trait \<longleftrightarrow> (case iter of None \<Rightarrow> False
     | Some k \<Rightarrow> iter_type_bits k AND iter_type_bits trait \<noteq> 0)"

definition is_random_access_iter :: "iter_type option \<Rightarrow> bool" where
  "is_random_access_iter iter = is_iter_type iter RandomAccess"

definition is_bidirectional_iter :: "iter_type option \<Rightarrow> bool" where
  "is_bidirectional_iter iter = is_iter_type iter Bidirectional"

definition is_forward_iter :: "iter_type option \<Rightarrow> bool" where
  "is_forward_iter iter = is_iter_type iter Forward"

definition is_output_iter :: "iter_type option \<Rightarrow> bool" where
  "is_output_iter iter = has_iter_trait iter Output"

section \<open>Moving in both directions\<close>

text \<open>The two loops over a signed number of steps; with an unsigned one the second never runs.\<close>

definition advance_bidirectional :: "('i \<Rightarrow> 'i option) \<Rightarrow> ('i \<Rightarrow> 'i option) \<Rightarrow> 'i \<Rightarrow> int \<Rightarrow> 'i option" where
  "advance_bidirectional incr decr it steps = do {
     it \<leftarrow> advance incr it (nat steps);
     advance decr it (nat (- min steps 0))
   }"

definition ra_advance :: "ra_iter \<Rightarrow> int \<Rightarrow> ra_iter" where
  "ra_advance pos steps = ra_add_diff pos (sint (of_int steps :: size_t))"

text \<open>The other operators of \<open>RandomAccessIter\<close>. The index of \<open>[]\<close> is one of the container: the position is not added.\<close>

definition ra_plus :: "ra_iter \<Rightarrow> size_t \<Rightarrow> ra_iter" where "ra_plus pos offset = pos + offset"

definition ra_sub :: "ra_iter \<Rightarrow> size_t \<Rightarrow> ra_iter" where "ra_sub pos offset = pos - offset"

definition ra_index :: "'e list \<Rightarrow> ra_iter \<Rightarrow> int \<Rightarrow> 'e option" where
  "ra_index xs pos index = ra_deref xs (of_int index)"

definition ra_begin :: ra_iter where "ra_begin = 0"

definition ra_end :: "size_t \<Rightarrow> ra_iter" where "ra_end len = len"

lemma ra_index_ignores_position: "ra_index [3, 5, 7 :: int] (ra_plus ra_begin 1) 0 = Some 3"
  by (simp add: ra_index_def ra_deref_def)

text \<open>Negating the least \<open>ptrdiff_t\<close> is undefined.\<close>

definition prev_iter :: "('i \<Rightarrow> int \<Rightarrow> 'i option) \<Rightarrow> 'i \<Rightarrow> size_t \<Rightarrow> 'i option" where
  "prev_iter adv it steps = (if sint steps = - (2 ^ 31) then None else adv it (- sint steps))"

section \<open>Comparisons, moving and copying\<close>

definition Less :: "'a::ord \<Rightarrow> 'a \<Rightarrow> bool" where "Less first second \<longleftrightarrow> first < second"

definition EqualTo :: "'a \<Rightarrow> 'a \<Rightarrow> bool" where "EqualTo first second \<longleftrightarrow> first = second"

definition lower_bound_less ::
    "('i \<Rightarrow> 'i option) \<Rightarrow> ('i \<Rightarrow> 'e::ord option) \<Rightarrow> ('i \<Rightarrow> 'i \<Rightarrow> nat option) \<Rightarrow> 'i \<Rightarrow> 'i \<Rightarrow> 'e \<Rightarrow> 'i option" where
  "lower_bound_less incr deref dist it e v = lower_bound incr deref dist it e (\<lambda>x. Some (Less x v))"

text \<open>
  Both loops write the range that the first two iterators delimit and read from the third. \<open>get\<close> reads an
  element from the state, and \<open>take\<close> moves one out of it.
\<close>

partial_function (option) move_range ::
    "('i \<Rightarrow> 's \<Rightarrow> 'i option) \<Rightarrow> ('j \<Rightarrow> 's \<Rightarrow> 'j option) \<Rightarrow> ('i \<Rightarrow> 'e \<Rightarrow> 's \<Rightarrow> 's option) \<Rightarrow> ('j \<Rightarrow> 's \<Rightarrow> ('e \<times> 's) option)
       \<Rightarrow> 'i \<Rightarrow> 'i \<Rightarrow> 'j \<Rightarrow> 's \<Rightarrow> 's option" where
  "move_range incr incr_new put take_out old_begin old_end new_begin s =
     (if old_begin \<noteq> old_end then
        Option.bind (take_out new_begin s) (\<lambda>r. Option.bind (put old_begin (fst r) (snd r)) (\<lambda>s.
          Option.bind (incr old_begin s) (\<lambda>old_begin. Option.bind (incr_new new_begin s) (\<lambda>new_begin.
            move_range incr incr_new put take_out old_begin old_end new_begin s))))
      else Some s)"

partial_function (option) copy_range ::
    "('i \<Rightarrow> 's \<Rightarrow> 'i option) \<Rightarrow> ('j \<Rightarrow> 's \<Rightarrow> 'j option) \<Rightarrow> ('i \<Rightarrow> 'e \<Rightarrow> 's \<Rightarrow> 's option) \<Rightarrow> ('j \<Rightarrow> 's \<Rightarrow> 'e option)
       \<Rightarrow> 'i \<Rightarrow> 'i \<Rightarrow> 'j \<Rightarrow> 's \<Rightarrow> 's option" where
  "copy_range incr incr_new put get old_begin old_end new_begin s =
     (if old_begin \<noteq> old_end then
        Option.bind (get new_begin s) (\<lambda>x. Option.bind (put old_begin x s) (\<lambda>s.
          Option.bind (incr old_begin s) (\<lambda>old_begin. Option.bind (incr_new new_begin s) (\<lambda>new_begin.
            copy_range incr incr_new put get old_begin old_end new_begin s))))
      else Some s)"

declare move_range.simps [code] copy_range.simps [code]

section \<open>The kinds are a hierarchy\<close>

text \<open>
  An iterator is of a kind exactly when it is of one above it in the order of input, forward,
  bidirectional and random access; only an output iterator and one for both are
  writable. (An input iterator counts as one for both, as the mask takes the highest bit.)
\<close>

lemma iter_type_masks:
  "iter_type_mask Output = 1" "iter_type_mask Input = 2" "iter_type_mask IO = 2" "iter_type_mask Forward = 4"
  "iter_type_mask Bidirectional = 8" "iter_type_mask RandomAccess = 16"
  by (simp_all add: iter_type_mask_def bit_width_def bit_width_loop.simps push_bit_eq_mult)

lemma iter_hierarchy:
  "is_random_access_iter k \<longleftrightarrow> k = Some RandomAccess"
  "is_bidirectional_iter k \<longleftrightarrow> k \<in> {Some Bidirectional, Some RandomAccess}"
  "is_forward_iter k \<longleftrightarrow> k \<in> {Some Forward, Some Bidirectional, Some RandomAccess}"
  "is_output_iter k \<longleftrightarrow> k \<in> {Some Output, Some IO}"
  "is_iter_type (Some Input) IO"
proof -
  show "is_random_access_iter k \<longleftrightarrow> k = Some RandomAccess"
    "is_bidirectional_iter k \<longleftrightarrow> k \<in> {Some Bidirectional, Some RandomAccess}"
    "is_forward_iter k \<longleftrightarrow> k \<in> {Some Forward, Some Bidirectional, Some RandomAccess}"
    "is_output_iter k \<longleftrightarrow> k \<in> {Some Output, Some IO}"
    by (cases k; (simp add: is_random_access_iter_def is_bidirectional_iter_def is_forward_iter_def is_output_iter_def
        is_iter_type_def has_iter_trait_def; fail)?; rename_tac t; case_tac t;
      simp add: is_random_access_iter_def is_bidirectional_iter_def is_forward_iter_def is_output_iter_def
        is_iter_type_def has_iter_trait_def iter_type_masks)+
qed (simp add: is_iter_type_def iter_type_masks)

section \<open>Binary search\<close>

text \<open>
  With a distance that counts the elements, \<open>lower\_bound\<close> finds the first element that does not come
  before the value, in every range in which those that do come first.
\<close>

context forward_range
begin

lemma lower_bound_loop_partition:
  assumes "seq it xs" and "n \<le> length xs" and "length (takeWhile P xs) \<le> n"
    and "\<And>x. x \<in> set xs \<Longrightarrow> compare x = Some (P x)" and "\<forall>x \<in> set (dropWhile P xs). \<not> P x"
  shows "\<exists>it'. lower_bound_loop incr deref compare it n = Some it' \<and> seq it' (dropWhile P xs)"
  using assms
proof (induction n arbitrary: it xs rule: less_induct)
  case (less n)
  show ?case
  proof (cases "n = 0")
    case True
    then show ?thesis using less.prems(1,3) by (cases xs) (auto simp: lower_bound_loop.simps split: if_splits)
  next
    case False
    let ?k = "n div 2" and ?tw = "takeWhile P xs"
    have k: "?k < n" "?k < length xs" using False less.prems(2) by simp_all
    obtain mid where mid: "advance incr it ?k = Some mid" "seq mid (drop ?k xs)"
      using advance_drop [OF less.prems(1)] k(2) less_imp_le by blast
    have drop: "drop ?k xs = xs ! ?k # drop (Suc ?k) xs" using k(2) by (simp add: Cons_nth_drop_Suc)
    from seq_Cons [OF mid(2) [unfolded drop]] obtain it2 where
      x: "deref mid = Some (xs ! ?k)" "incr mid = Some it2" "seq it2 (drop (Suc ?k) xs)" by blast
    have cmp: "compare (xs ! ?k) = Some (P (xs ! ?k))" using less.prems(4) k(2) by simp
    note step = lower_bound_loop.simps [of incr deref compare it n]
    show ?thesis
    proof (cases "P (xs ! ?k)")
      case True
      have lt: "?k < length ?tw"
      proof (rule ccontr)
        assume "\<not> ?k < length ?tw"
        then have "xs ! ?k \<in> set (dropWhile P xs)"
          using k(2) by (auto simp: dropWhile_eq_drop in_set_conv_nth intro!: exI [of _ "?k - length ?tw"])
        then show False using less.prems(5) True by blast
      qed
      have "\<forall>x \<in> set (take (Suc ?k) xs). P x"
        using lt by (metis Suc_leI set_takeWhileD set_take_subset subsetD takeWhile_eq_take take_take min_absorb1)
      then have split: "takeWhile P xs = take (Suc ?k) xs @ takeWhile P (drop (Suc ?k) xs)"
          "dropWhile P xs = dropWhile P (drop (Suc ?k) xs)"
        using takeWhile_append2 [of "take (Suc ?k) xs" P "drop (Suc ?k) xs"]
          dropWhile_append2 [of "take (Suc ?k) xs" P "drop (Suc ?k) xs"] by simp_all
      have "\<exists>it'. lower_bound_loop incr deref compare it2 (n - Suc ?k) = Some it' \<and> seq it' (dropWhile P (drop (Suc ?k) xs))"
      proof (rule less.IH)
        show "length (takeWhile P (drop (Suc ?k) xs)) \<le> n - Suc ?k"
          using less.prems(3) split(1) k by simp
        show "n - Suc ?k < n" "n - Suc ?k \<le> length (drop (Suc ?k) xs)" using False less.prems(2) by simp_all
        show "compare x = Some (P x)" if "x \<in> set (drop (Suc ?k) xs)" for x
          by (rule less.prems(4)) (rule in_set_dropD [OF that])
        show "\<forall>x \<in> set (dropWhile P (drop (Suc ?k) xs)). \<not> P x" using less.prems(5) split(2) by simp
      qed (rule x(3))
      then show ?thesis using False x cmp mid True split(2) step by (simp add: Let_def next_iter_def)
    next
      case False': False
      have "length ?tw \<le> ?k"
        using False' nth_length_takeWhile k(2) by (metis linorder_not_le nth_mem set_takeWhileD takeWhile_nth)
      then have "\<exists>it'. lower_bound_loop incr deref compare it ?k = Some it' \<and> seq it' (dropWhile P xs)"
        using less.IH [OF k(1) less.prems(1) _ _ less.prems(4,5)] k(2) by simp
      then show ?thesis using False x cmp mid False' step by (simp add: Let_def)
    qed
  qed
qed

lemma lower_bound_partition:
  assumes "seq it xs" and "dist it e = Some (length xs)"
    and "\<And>x. x \<in> set xs \<Longrightarrow> compare x = Some (P x)" and "\<forall>x \<in> set (dropWhile P xs). \<not> P x"
  shows "\<exists>it'. lower_bound incr deref dist it e compare = Some it' \<and> seq it' (dropWhile P xs)"
  using lower_bound_loop_partition [OF assms(1) order.refl length_takeWhile_le assms(3,4)] assms(2)
  by (simp add: lower_bound_def)

end

text \<open>
  C32. \<open>lower\_bound\<close> on a container with random access is right: in a sorted list of elements it returns, in
  the time of a binary search, the position of the first one that is not less than the value, and the end when there is none.
\<close>

theorem lower_bound_sorted:
  fixes xs :: "'e::linorder list"
  assumes "sorted xs" and "length xs < 2 ^ 32"
  shows "lower_bound_less (\<lambda>pos. Some (ra_incr pos)) (ra_deref xs) (\<lambda>b e. Some (unat (ra_distance b e))) 0 (of_nat (length xs)) v
    = Some (of_nat (length (takeWhile (\<lambda>x. x < v) xs)))"
proof -
  let ?P = "\<lambda>x. x < v"
  have seq: "ra_seq xs 0 xs" using assms(2) by (simp add: ra_seq_def)
  let ?dist = "\<lambda>b e. Some (unat (ra_distance b e))"
  have dist: "?dist 0 (of_nat (length xs)) = Some (length xs)"
    using assms(2) by (simp add: ra_distance_def unat_of_nat_lt)
  have after: "\<forall>x \<in> set (dropWhile ?P xs). \<not> ?P x"
  proof
    fix x assume x: "x \<in> set (dropWhile ?P xs)"
    then have "dropWhile ?P xs \<noteq> []" by (metis list.distinct(1) list.set_cases)
    then have "\<not> ?P (hd (dropWhile ?P xs))" by (rule hd_dropWhile)
    moreover have "sorted (dropWhile ?P xs)" using assms(1) by (rule sorted_dropWhile)
    then have "hd (dropWhile ?P xs) \<le> x" using x by (cases "dropWhile ?P xs") auto
    ultimately show "\<not> ?P x" by auto
  qed
  have "\<exists>pos. lower_bound (\<lambda>pos. Some (ra_incr pos)) (ra_deref xs) ?dist 0 (of_nat (length xs)) (\<lambda>x. Some (Less x v)) = Some pos
      \<and> ra_seq xs pos (dropWhile ?P xs)"
  proof (rule ra.lower_bound_partition [where P = ?P])
    show "Some (Less x v) = Some (?P x)" if "x \<in> set xs" for x by (simp add: Less_def)
  qed (rule seq dist after)+
  then obtain pos where
      "lower_bound_less (\<lambda>pos. Some (ra_incr pos)) (ra_deref xs) (\<lambda>b e. Some (unat (ra_distance b e))) 0 (of_nat (length xs)) v = Some pos"
      and pos: "ra_seq xs pos (dropWhile ?P xs)"
    by (auto simp: lower_bound_less_def)
  moreover have "unat pos = length (takeWhile ?P xs)"
  proof -
    have "length (drop (unat pos) xs) = length (drop (length (takeWhile ?P xs)) xs)"
      using pos by (simp add: ra_seq_def dropWhile_eq_drop)
    moreover have "unat pos \<le> length xs" "length (takeWhile ?P xs) \<le> length xs"
      using pos by (simp_all add: ra_seq_def length_takeWhile_le)
    ultimately show ?thesis by simp
  qed
  then have "pos = of_nat (length (takeWhile ?P xs))" by (metis of_nat_unat ucast_id)
  ultimately show ?thesis by simp
qed

text \<open>For such an iterator the overload of \<open>advance\<close> that adds the offset at once is the one that takes single steps.\<close>

lemma ra_advance_steps:
  "n < 2 ^ 31 \<Longrightarrow> advance (\<lambda>pos. Some (ra_incr pos)) pos n = Some (ra_advance pos (int n))"
proof -
  assume "n < 2 ^ 31"
  then have s: "sint (of_int (int n) :: size_t) = int n" by (intro sint_of_int_small) simp_all
  have "advance (\<lambda>pos. Some (ra_incr pos)) pos n = Some (pos + of_nat n)"
    by (induction n arbitrary: pos) (simp_all add: ra_incr_def algebra_simps)
  then show ?thesis by (simp only: ra_advance_def ra_add_diff_def s) simp
qed

section \<open>Going back\<close>

locale bidirectional_range = forward_range +
  fixes decr :: "'a \<Rightarrow> 'a option"
  assumes decr_incr: "seq it (x # xs) \<Longrightarrow> incr it = Some it' \<Longrightarrow> decr it' = Some it"
begin

lemma advance_last: "advance f it (Suc n) = Option.bind (advance f it n) f"
proof (induction n arbitrary: it)
  case (Suc n)
  then show ?case by (cases "f it") simp_all
qed (simp split: Option.bind_split)

lemma advance_back:
  "seq it xs \<Longrightarrow> n \<le> length xs \<Longrightarrow>
    \<exists>it'. advance incr it n = Some it' \<and> seq it' (drop n xs) \<and> advance decr it' n = Some it"
proof (induction n arbitrary: it xs)
  case (Suc n)
  then obtain x ys where xs: "xs = x # ys" by (cases xs) auto
  from seq_Cons [OF Suc.prems(1) [unfolded xs]] obtain it1 where it1: "incr it = Some it1" "seq it1 ys" by blast
  from Suc.IH [OF it1(2)] obtain it' where "advance incr it1 n = Some it'" "seq it' (drop n ys)" "advance decr it' n = Some it1"
    using Suc.prems(2) xs by auto
  then show ?case
    using it1 decr_incr [OF Suc.prems(1) [unfolded xs] it1(1)] xs advance_last [of decr it' n] by auto
qed auto

lemma prev_undoes_next:
  assumes "seq it xs" and "n \<le> length xs" and "n < 2 ^ 31"
  shows "\<exists>it'. next_iter incr it n = Some it' \<and> seq it' (drop n xs)
    \<and> prev_iter (advance_bidirectional incr decr) it' (of_nat n) = Some it"
proof -
  have "sint (of_int (int n) :: size_t) = int n" by (rule sint_of_int_small) (use assms(3) in simp_all)
  then have s: "sint (of_nat n :: size_t) = int n" by simp
  have "advance_bidirectional incr decr it' (- int n) = advance decr it' n" for it'
    by (cases "n = 0") (simp_all add: advance_bidirectional_def)
  then show ?thesis using advance_back [OF assms(1,2)] by (simp add: next_iter_def prev_iter_def s)
qed

end

interpretation ra2: bidirectional_range "\<lambda>pos. Some (ra_incr pos)" "ra_deref xs" "of_nat (length xs)" "ra_seq xs"
    "\<lambda>pos. Some (ra_decr pos)" for xs
  by unfold_locales (auto simp: ra_incr_def ra_decr_def)

interpretation pi2: bidirectional_range "pi_incr h" pi_deref "mll_end l" "iter_on h l" "pi_decr h" for h l
proof
  fix it x xs it' assume on: "iter_on h l it (x # xs)" and incr: "pi_incr h it = Some it'"
  then obtain ys where rep: "list_rep h l (ys @ x # xs)"
    and it: "it = \<lparr>it_ptr = x, it_at_end = False\<rparr>" by (auto simp: iter_on_def)
  obtain n where n: "h x = Some n" "nd_next n = first_or xs nullptr" "x \<noteq> nullptr"
    using rep by (auto simp: list_rep_def)
  show "pi_decr h it' = Some it"
  proof (cases xs)
    case Nil
    then show ?thesis using incr it n by (auto simp: pi_incr_def pi_decr_def get_node_def)
  next
    case (Cons z zs)
    have z: "z \<noteq> nullptr" using list_rep_node [OF rep, of z] Cons by simp
    have "list_rep h l ((ys @ [x]) @ z # zs)" using rep Cons by simp
    then obtain nz where "h z = Some nz" "nd_prev nz = x" by (auto simp: list_rep_def)
    then show ?thesis using incr it n Cons z by (auto simp: pi_incr_def pi_decr_def get_node_def)
  qed
qed

text \<open>
  On a list \<open>prev\<close> undoes \<open>next\<close>: from the first node, \<open>n\<close> steps forward come to the node with that index, or to the
  end, and \<open>n\<close> steps back lead to the first node again.
\<close>

lemma mll_prev_undoes_next:
  assumes "list_rep h l xs" and "n \<le> length xs" and "n < 2 ^ 31"
  shows "\<exists>it. next_iter (pi_incr h) (mll_begin l) n = Some it
    \<and> (if n < length xs then pi_deref it = Some (xs ! n) else it = mll_end l)
    \<and> prev_iter (advance_bidirectional (pi_incr h) (pi_decr h)) it (of_nat n) = Some (mll_begin l)"
proof -
  obtain it where it: "next_iter (pi_incr h) (mll_begin l) n = Some it" "iter_on h l it (drop n xs)"
      "prev_iter (advance_bidirectional (pi_incr h) (pi_decr h)) it (of_nat n) = Some (mll_begin l)"
    using pi2.prev_undoes_next [OF iter_on_begin [OF assms(1)] assms(2,3)] by blast
  moreover have "if n < length xs then pi_deref it = Some (xs ! n) else it = mll_end l"
    using it(2) by (auto simp: iter_on_def pi_deref_def hd_drop_conv_nth)
  ultimately show ?thesis by blast
qed

section \<open>Copying overwrites the first range\<close>

text \<open>
  The range \<open>old\_begin\<close> to \<open>old\_end\<close> is the one that is written, with what starts at \<open>new\_begin\<close>: here
  both are in lists, and the elements of \<open>ys\<close> replace those of \<open>xs\<close>.
\<close>

definition list_put :: "nat \<Rightarrow> 'e \<Rightarrow> 'e list \<Rightarrow> 'e list option" where
  "list_put i x xs = (if i < length xs then Some (xs[i := x]) else None)"

lemma copy_overwrites:
  assumes "i \<le> j" and "j \<le> length xs" and "k + (j - i) \<le> length ys"
  shows "copy_range (\<lambda>i s. Some (i + 1)) (\<lambda>k s. Some (k + 1)) list_put (\<lambda>k s. Some (ys ! k)) i j k xs
    = Some (take i xs @ take (j - i) (drop k ys) @ drop j xs)"
  using assms
proof (induction "j - i" arbitrary: i k xs)
  case 0
  then show ?case by (simp add: copy_range.simps)
next
  case (Suc n)
  then have lt: "i < j" "i < length xs" "k < length ys" by simp_all
  have "copy_range (\<lambda>i s. Some (i + 1)) (\<lambda>k s. Some (k + 1)) list_put (\<lambda>k s. Some (ys ! k)) (i + 1) j (k + 1) (xs[i := ys ! k])
    = Some (take (i + 1) (xs[i := ys ! k]) @ take (j - (i + 1)) (drop (k + 1) ys) @ drop j (xs[i := ys ! k]))"
    using Suc by (intro Suc.hyps(1)) simp_all
  moreover have "take (i + 1) (xs[i := ys ! k]) = take i xs @ [ys ! k]" using lt by (simp add: take_Suc_conv_app_nth)
  moreover have "take (j - i) (drop k ys) = ys ! k # take (j - (i + 1)) (drop (k + 1) ys)"
    using lt by (simp add: Cons_nth_drop_Suc [symmetric] take_Cons' Suc_diff_Suc [symmetric])
  ultimately show ?case using lt by (simp add: copy_range.simps [of _ _ _ _ i] list_put_def)
qed

section \<open>Examples\<close>

theorem lower_bound_sorted_witness:
  "lower_bound_less (\<lambda>pos. Some (ra_incr pos)) (ra_deref [1, 3, 3, 7 :: int]) (\<lambda>b e. Some (unat (ra_distance b e))) 0 4 3 = Some 1"
  using lower_bound_sorted [of "[1, 3, 3, 7 :: int]" 3] by simp

end
