(* ===== verification/Type_Functions.thy ===== *)
theory Type_Functions
  imports Int_Limits
begin

text \<open>
  The functions on types that select the code at compile time: pine/metaprogramming.hpp,
  type\_traits.hpp and the value categories of utility.hpp. A C++ type is a value here; a template
  specialisation is a pattern that a type matches or not. Whether the compiler accepts an expression on
  values of given types (a \<open>new\<close>, a destructor call, a conversion) is a judgement, which is an argument.
\<close>

section \<open>Types\<close>

datatype floating = Float | Double | LongDouble

text \<open>A type with its qualifiers \<open>const\<close> and \<open>volatile\<close>; those of an array are the ones of its elements.\<close>

datatype ctype = Qual bool bool base_type
and base_type = Void | Integer cint | Floating floating | Class string | Enum string cint | Pointer ctype
  | LRef ctype | RRef ctype | Array ctype "nat option" | Function ctype "ctype list"

abbreviation plain :: "base_type \<Rightarrow> ctype" where "plain b \<equiv> Qual False False b"

text \<open>The types that can be written: references, functions and arrays carry no qualifiers of their own.\<close>

fun referable :: "ctype \<Rightarrow> bool" where
  "referable (Qual c v b) = (case b of Void \<Rightarrow> False | LRef t \<Rightarrow> False | RRef t \<Rightarrow> False | _ \<Rightarrow> True)"

fun well_formed :: "ctype \<Rightarrow> bool" where
  "well_formed (Qual c v (Pointer t)) = (well_formed t \<and> (referable t \<or> (\<exists>c v. t = Qual c v Void)))"
| "well_formed (Qual c v (LRef t)) = (\<not> c \<and> \<not> v \<and> referable t \<and> well_formed t)"
| "well_formed (Qual c v (RRef t)) = (\<not> c \<and> \<not> v \<and> referable t \<and> well_formed t)"
| "well_formed (Qual c v (Array t n)) = (\<not> c \<and> \<not> v \<and> referable t \<and> well_formed t \<and> (\<forall>u us. t \<noteq> plain (Function u us)))"
| "well_formed (Qual c v (Function t ts)) = (\<not> c \<and> \<not> v \<and> well_formed t)"
| "well_formed (Qual c v b) = True"

text \<open>\<open>const T\<close>, and the references \<open>T&\<close> and \<open>T&&\<close>, which collapse.\<close>

fun add_const :: "ctype \<Rightarrow> ctype" where
  "add_const (Qual c v (Array t n)) = Qual c v (Array (add_const t) n)"
| "add_const (Qual c v (LRef t)) = Qual c v (LRef t)"
| "add_const (Qual c v (RRef t)) = Qual c v (RRef t)"
| "add_const (Qual c v (Function t ts)) = Qual c v (Function t ts)"
| "add_const (Qual c v b) = Qual True v b"

fun lref :: "ctype \<Rightarrow> ctype" where
  "lref (Qual c v (LRef t)) = plain (LRef t)"
| "lref (Qual c v (RRef t)) = plain (LRef t)"
| "lref t = plain (LRef t)"

fun rref :: "ctype \<Rightarrow> ctype" where
  "rref (Qual c v (LRef t)) = plain (LRef t)"
| "rref (Qual c v (RRef t)) = plain (RRef t)"
| "rref t = plain (RRef t)"

text \<open>The patterns \<open>const Value\<close> and \<open>volatile Value\<close>.\<close>

fun match_const :: "ctype \<Rightarrow> ctype option" where
  "match_const (Qual c v (Array t n)) = map_option (\<lambda>t. Qual c v (Array t n)) (match_const t)"
| "match_const (Qual c v b) = (if c then Some (Qual False v b) else None)"

fun match_volatile :: "ctype \<Rightarrow> ctype option" where
  "match_volatile (Qual c v (Array t n)) = map_option (\<lambda>t. Qual c v (Array t n)) (match_volatile t)"
| "match_volatile (Qual c v b) = (if v then Some (Qual c False b) else None)"

section \<open>Functions on types\<close>

fun remove_ref :: "ctype \<Rightarrow> ctype" where
  "remove_ref (Qual c v (LRef t)) = t"
| "remove_ref (Qual c v (RRef t)) = t"
| "remove_ref t = t"

definition remove_const :: "ctype \<Rightarrow> ctype" where
  "remove_const t = (case match_const t of Some u \<Rightarrow> u | None \<Rightarrow> t)"

definition remove_volatile :: "ctype \<Rightarrow> ctype" where
  "remove_volatile t = (case match_volatile t of Some u \<Rightarrow> u | None \<Rightarrow> t)"

definition remove_cv :: "ctype \<Rightarrow> ctype" where
  "remove_cv t = remove_const (remove_volatile t)"

fun remove_ptr_func :: "ctype \<Rightarrow> ctype" where
  "remove_ptr_func (Qual False False (Pointer t)) = t"
| "remove_ptr_func t = t"

definition remove_ptr :: "ctype \<Rightarrow> ctype" where
  "remove_ptr t = remove_ptr_func (remove_cv t)"

fun make_unsigned :: "ctype \<Rightarrow> ctype" where
  "make_unsigned (Qual False False (Integer CChar)) = plain (Integer CUChar)"
| "make_unsigned (Qual False False (Integer CUChar)) = plain (Integer CUChar)"
| "make_unsigned (Qual False False (Integer CSChar)) = plain (Integer CUChar)"
| "make_unsigned (Qual False False (Integer CShort)) = plain (Integer CUShort)"
| "make_unsigned (Qual False False (Integer CUShort)) = plain (Integer CUShort)"
| "make_unsigned (Qual False False (Integer CInt)) = plain (Integer CUInt)"
| "make_unsigned (Qual False False (Integer CUInt)) = plain (Integer CUInt)"
| "make_unsigned (Qual False False (Integer CLong)) = plain (Integer CULong)"
| "make_unsigned (Qual False False (Integer CULong)) = plain (Integer CULong)"
| "make_unsigned (Qual False False (Integer CLLong)) = plain (Integer CULLong)"
| "make_unsigned (Qual False False (Integer CULLong)) = plain (Integer CULLong)"
| "make_unsigned (Qual False False (Integer CBool)) = plain (Integer CBool)"
| "make_unsigned t = plain Void"

text \<open>\<open>None\<close> is a substitution that fails.\<close>

definition enable_if :: "bool \<Rightarrow> ctype \<Rightarrow> ctype option" where
  "enable_if cond t = (if cond then Some t else None)"

definition if_else :: "bool \<Rightarrow> ctype \<Rightarrow> ctype \<Rightarrow> ctype" where
  "if_else cond true_value false_value = (if cond then true_value else false_value)"

section \<open>Checks of types\<close>

definition all_conds :: "bool list \<Rightarrow> bool" where "all_conds conds = foldr (\<and>) conds True"

definition any_conds :: "bool list \<Rightarrow> bool" where "any_conds conds = foldr (\<or>) conds False"

definition is_same :: "ctype \<Rightarrow> ctype \<Rightarrow> bool" where "is_same t u \<longleftrightarrow> t = u"

definition is_one_of :: "ctype \<Rightarrow> ctype list \<Rightarrow> bool" where
  "is_one_of t us = any_conds (map (is_same t) us)"

definition is_const :: "ctype \<Rightarrow> bool" where "is_const t \<longleftrightarrow> \<not> is_same (remove_const t) t"

definition is_void :: "ctype \<Rightarrow> bool" where "is_void t \<longleftrightarrow> is_same (remove_cv t) (plain Void)"

fun is_array :: "ctype \<Rightarrow> bool" where
  "is_array (Qual c v (Array t n)) = True"
| "is_array _ = False"

definition is_reference :: "ctype \<Rightarrow> bool" where "is_reference t \<longleftrightarrow> \<not> is_same (remove_ref t) t"

fun is_lvalue :: "ctype \<Rightarrow> bool" where
  "is_lvalue (Qual c v (LRef t)) = True"
| "is_lvalue _ = False"

fun is_rvalue :: "ctype \<Rightarrow> bool" where
  "is_rvalue (Qual c v (RRef t)) = True"
| "is_rvalue _ = False"

definition is_function :: "ctype \<Rightarrow> bool" where
  "is_function t \<longleftrightarrow> \<not> is_const (add_const t) \<and> \<not> is_reference t"

definition integer_types :: "ctype list" where
  "integer_types = map (\<lambda>ty. plain (Integer ty))
     [CULLong, CLLong, CULong, CLong, CUInt, CInt, CUShort, CShort, CSChar, CUChar, CChar, CBool]"

definition is_integer :: "ctype \<Rightarrow> bool" where "is_integer t \<longleftrightarrow> is_one_of (remove_cv t) integer_types"

definition is_floating_point :: "ctype \<Rightarrow> bool" where
  "is_floating_point t \<longleftrightarrow> is_one_of (remove_cv t) (map (\<lambda>f. plain (Floating f)) [Float, Double, LongDouble])"

definition is_arithmetic :: "ctype \<Rightarrow> bool" where "is_arithmetic t \<longleftrightarrow> is_integer t \<or> is_floating_point t"

text \<open>\<open>Value(n)\<close> for a small integer; a floating type holds it as it is.\<close>

fun value_of_int :: "ctype \<Rightarrow> int \<Rightarrow> int" where
  "value_of_int (Qual c v (Integer ty)) n = (if ty = CBool then (if n = 0 then 0 else 1) else cint_wrap ty n)"
| "value_of_int _ n = n"

definition is_unsigned :: "ctype \<Rightarrow> bool" where
  "is_unsigned t \<longleftrightarrow> (if is_arithmetic t then value_of_int t 0 < value_of_int t (- 1) else False)"

definition is_signed_type :: "ctype \<Rightarrow> bool" where "is_signed_type t \<longleftrightarrow> \<not> is_unsigned t"

fun is_pointer_impl :: "ctype \<Rightarrow> bool" where
  "is_pointer_impl (Qual False False (Pointer t)) = True"
| "is_pointer_impl _ = False"

definition is_pointer :: "ctype \<Rightarrow> bool" where "is_pointer t \<longleftrightarrow> is_pointer_impl (remove_cv t)"

section \<open>Checks of expressions\<close>

text \<open>The compiler's judgements on expressions over values of given types.\<close>

record judgements =
  new_valid :: "ctype \<Rightarrow> ctype list \<Rightarrow> bool"
  destroy_valid :: "ctype \<Rightarrow> bool"
  pass_valid :: "ctype \<Rightarrow> ctype \<Rightarrow> bool"
  cast_valid :: "ctype \<Rightarrow> ctype \<Rightarrow> bool"

text \<open>The type of \<open>declval\<close>, which falls back to the type itself where there is no reference to it.\<close>

definition declval :: "ctype \<Rightarrow> ctype" where
  "declval t = (if is_void t then t else rref t)"

definition is_constructible :: "judgements \<Rightarrow> ctype \<Rightarrow> ctype list \<Rightarrow> bool" where
  "is_constructible j t args = new_valid j t (map declval args)"

definition is_destructible :: "judgements \<Rightarrow> ctype \<Rightarrow> bool" where
  "is_destructible j t \<longleftrightarrow> \<not> is_void t \<and> destroy_valid j (lref t)"

definition is_constructible_from :: "judgements \<Rightarrow> ctype \<Rightarrow> ctype list \<Rightarrow> bool" where
  "is_constructible_from j t args = all_conds [is_destructible j t, is_constructible j t args]"

definition is_implicitly_convertible :: "judgements \<Rightarrow> ctype \<Rightarrow> ctype \<Rightarrow> bool" where
  "is_implicitly_convertible j from_t to_t \<longleftrightarrow> is_void from_t \<and> is_void to_t
     \<or> (\<not> is_void from_t \<and> \<not> is_array from_t \<and> \<not> is_function from_t) \<and> pass_valid j (declval from_t) to_t"

definition is_explicitly_convertible :: "judgements \<Rightarrow> ctype \<Rightarrow> ctype \<Rightarrow> bool" where
  "is_explicitly_convertible j from_t to_t = cast_valid j (declval from_t) to_t"

definition is_convertible_to :: "judgements \<Rightarrow> ctype \<Rightarrow> ctype \<Rightarrow> bool" where
  "is_convertible_to j from_t to_t \<longleftrightarrow> is_implicitly_convertible j from_t to_t \<and> is_explicitly_convertible j from_t to_t"

definition is_move_constructible :: "judgements \<Rightarrow> ctype \<Rightarrow> bool" where
  "is_move_constructible j t = all_conds [is_constructible_from j t [t], is_convertible_to j t t]"

definition is_copy_constructible :: "judgements \<Rightarrow> ctype \<Rightarrow> bool" where
  "is_copy_constructible j t = all_conds [is_move_constructible j t,
     is_constructible_from j t [lref t], is_convertible_to j (lref t) t,
     is_constructible_from j t [lref (add_const t)], is_convertible_to j (lref (add_const t)) t,
     is_constructible_from j t [add_const t], is_convertible_to j (add_const t) t]"

definition ConditionallyCopyable :: "judgements \<Rightarrow> ctype \<Rightarrow> ctype" where
  "ConditionallyCopyable j t =
     if_else (is_copy_constructible j t) (plain (Class ''Copyable'')) (plain (Class ''NonCopyable''))"

definition ConditionallyMovable :: "judgements \<Rightarrow> ctype \<Rightarrow> ctype" where
  "ConditionallyMovable j t =
     if_else (is_move_constructible j t) (plain (Class ''Movable'')) (plain (Class ''NonMovable''))"

text \<open>The type that an enumeration is stored as; for other types the compiler reports an error.\<close>

fun underlying_type :: "ctype \<Rightarrow> ctype option" where
  "underlying_type (Qual c v (Enum name ty)) = Some (plain (Integer ty))"
| "underlying_type _ = None"

section \<open>Moving and forwarding (utility.hpp)\<close>

text \<open>The type of \<open>move\<close>'s result, and of the first overload of \<open>forward\<close>. The second returns \<open>auto\<close>, a value.\<close>

definition move_type :: "ctype \<Rightarrow> ctype" where "move_type t = rref (remove_ref t)"

definition forward_type :: "ctype \<Rightarrow> ctype" where "forward_type t = rref t"

fun decay :: "ctype \<Rightarrow> ctype" where
  "decay (Qual c v (Array t n)) = plain (Pointer t)"
| "decay (Qual c v (Function t ts)) = plain (Pointer (Qual c v (Function t ts)))"
| "decay t = remove_cv t"

definition forward_rvalue_type :: "ctype \<Rightarrow> ctype option" where
  "forward_rvalue_type t = (if is_rvalue t then None else Some (decay (remove_ref (rref t))))"

text \<open>\<open>mv\<close> is what moving out of an object gives, and what it leaves behind.\<close>

definition exchange :: "('a \<Rightarrow> 'a \<times> 'a) \<Rightarrow> 'a \<Rightarrow> 'a \<Rightarrow> 'a \<times> 'a" where
  "exchange mv v replacement = (let (tmp, _) = mv v in (tmp, replacement))"

definition swap_values :: "('a \<Rightarrow> 'a \<times> 'a) \<Rightarrow> 'a \<Rightarrow> 'a \<Rightarrow> 'a \<times> 'a" where
  "swap_values mv first second =
     (let (temp, first) = mv first;
          (moved, second) = mv second; first = moved;
          (moved, temp) = mv temp; second = moved
      in (first, second))"

section \<open>The checks say what the types are\<close>

lemma match_const_changes: "match_const t = Some u \<Longrightarrow> u \<noteq> t"
  by (induction t arbitrary: u rule: match_const.induct) (auto split: if_splits)

lemma is_const_iff: "is_const t \<longleftrightarrow> match_const t \<noteq> None"
  using match_const_changes [of t] by (auto simp: is_const_def is_same_def remove_const_def split: option.splits)

lemma const_added:
  "well_formed t \<Longrightarrow> is_const (add_const t) \<longleftrightarrow> (case t of Qual c v b \<Rightarrow>
     case b of LRef u \<Rightarrow> False | RRef u \<Rightarrow> False | Function u us \<Rightarrow> False | _ \<Rightarrow> True)"
  unfolding is_const_iff
proof (induction t rule: add_const.induct)
  case (1 c v t n)
  then show ?case by (cases t) (auto split: base_type.splits)
qed auto

lemma not_own_part: "t \<noteq> Qual c v (LRef t)" "t \<noteq> Qual c v (RRef t)"
  by (auto dest: arg_cong [where f = size])

lemma is_reference_iff: "is_reference t \<longleftrightarrow> is_lvalue t \<or> is_rvalue t"
  using not_own_part by (cases t rule: remove_ref.cases) (auto simp: is_reference_def is_same_def)

lemma remove_cv_simps [simp]:
  "\<lbrakk>\<And>t n. b \<noteq> Array t n\<rbrakk> \<Longrightarrow> remove_cv (Qual c v b) = plain b"
  by (cases b) (auto simp: remove_cv_def remove_const_def remove_volatile_def)

lemma remove_cv_array: "\<exists>u. remove_cv (Qual c v (Array t n)) = Qual c v (Array u n)"
  by (auto simp: remove_cv_def remove_const_def remove_volatile_def split: option.split)

lemma remove_cv_plain: "(\<And>t n. b \<noteq> Array t n) \<Longrightarrow> remove_cv t = plain b \<longleftrightarrow> (\<exists>c v. t = Qual c v b)"
proof -
  assume b: "\<And>t n. b \<noteq> Array t n"
  obtain c v b' where t: "t = Qual c v b'" by (cases t)
  show ?thesis
  proof (cases "\<exists>u n. b' = Array u n")
    case True
    then obtain u n where "b' = Array u n" by blast
    then show ?thesis using t b remove_cv_array [of c v u n] by auto
  next
    case False
    then show ?thesis using t by auto
  qed
qed

lemma any_conds_iff: "any_conds bs \<longleftrightarrow> (\<exists>b\<in>set bs. b)"
  by (induction bs) (auto simp: any_conds_def)

lemma is_one_of_iff: "is_one_of t us \<longleftrightarrow> t \<in> set us"
  by (auto simp: is_one_of_def any_conds_iff is_same_def)


section \<open>Signedness\<close>

text \<open>What \<open>make\_unsigned\<close> makes of an integer type is an unsigned type of the same size; a qualified type becomes \<open>void\<close>.\<close>

lemma is_unsigned_integer: "is_unsigned (Qual c v (Integer ty)) \<longleftrightarrow> \<not> is_signed ty"
proof -
  have "is_arithmetic (Qual c v (Integer ty))"
    by (cases ty) (simp_all add: is_arithmetic_def is_integer_def is_one_of_iff integer_types_def)
  then show ?thesis by (cases ty) (simp_all add: is_unsigned_def cint_wrap_def is_signed_def mask_eq_exp_minus_1)
qed

lemma make_unsigned_integer:
  "\<exists>u. make_unsigned (plain (Integer ty)) = plain (Integer u) \<and> \<not> is_signed u \<and> cint_sizeof u = cint_sizeof ty
    \<and> make_unsigned (plain (Integer u)) = plain (Integer u) \<and> (\<not> is_signed ty \<longrightarrow> ty \<noteq> CChar \<longrightarrow> u = ty)"
  by (cases ty) (simp_all add: is_signed_def)

lemma make_unsigned_qualified: "make_unsigned (Qual True v b) = plain Void" "make_unsigned (Qual c True b) = plain Void"
  by (cases c; simp)+

text \<open>Whatever is not arithmetic counts as signed, pointers and classes too, and so does floating point.\<close>

lemma not_arithmetic_signed: "\<not> is_integer t \<Longrightarrow> is_signed_type t"
proof (cases t)
  case (Qual c v b)
  assume "\<not> is_integer t"
  then have "b \<noteq> Integer ty" for ty using Qual by (cases ty) (auto simp: is_integer_def is_one_of_iff integer_types_def)
  then show ?thesis using Qual by (cases b) (auto simp: is_signed_type_def is_unsigned_def)
qed

text \<open>An array is never convertible, although it decays to a pointer in the language.\<close>

lemma array_never_convertible: "\<not> is_implicitly_convertible j (Qual c v (Array t n)) u"
  using remove_cv_array [of c v t n] by (auto simp: is_implicitly_convertible_def is_void_def is_same_def)

text \<open>
  Forwarding keeps the value category, and moving always gives an r-value: for an object type \<open>t\<close>, a
  forwarding reference deduces \<open>t&\<close> from an l-value and \<open>t\<close> from an r-value. The second overload of
  \<open>forward\<close> gives a value instead of a reference.
\<close>

lemma forward_keeps_category:
  "referable t \<Longrightarrow> forward_type (lref t) = plain (LRef t) \<and> forward_type t = plain (RRef t)
    \<and> move_type (lref t) = plain (RRef t) \<and> move_type (rref t) = plain (RRef t) \<and> move_type t = plain (RRef t)"
  by (cases t rule: rref.cases) (auto simp: forward_type_def move_type_def)

lemma swap_exchanges:
  "(\<And>x. fst (mv x) = x) \<Longrightarrow> swap_values mv x y = (y, x) \<and> exchange mv x y = (x, y)"
  by (simp add: swap_values_def exchange_def Let_def split_def)


end
