(* ===== verification/Container_Access.thy ===== *)
theory Container_Access
  imports Containers Linked_List Algorithms Type_Functions
begin

text \<open>
  How clients read, walk and exchange the containers of pine: the accessors and iterators of
  vector.hpp, string.hpp, memory.hpp, maybe.hpp, array.hpp and linked\_list.hpp, their \<open>swap\<close> functions
  and the assignments made of them. A loop over a container visits what the container represents, by
  interpretation of \<open>forward_range\<close>.
\<close>

section \<open>Vector\<close>

definition vec_length :: "vector \<Rightarrow> size_t" where "vec_length v = v_count v"

definition vec_capacity :: "vector \<Rightarrow> size_t" where "vec_capacity v = v_capacity v"

definition vec_is_empty :: "vector \<Rightarrow> bool" where "vec_is_empty v = (v_count v = 0)"

definition vec_data :: "vector \<Rightarrow> ptr" where "vec_data v = v_contents v"

definition vec_begin :: "vector \<Rightarrow> ra_iter" where "vec_begin v = ra_begin"

definition vec_end :: "vector \<Rightarrow> ra_iter" where "vec_end v = ra_end (vec_length v)"

definition vec_swap :: "vector \<Rightarrow> vector \<Rightarrow> vector \<times> vector" where
  "vec_swap first second =
     (let (c1, c2) = swap_values (\<lambda>x. (x, x)) (v_count first) (v_count second);
          (k1, k2) = swap_values (\<lambda>x. (x, x)) (v_capacity first) (v_capacity second);
          (p1, p2) = swap_values (\<lambda>x. (x, x)) (v_contents first) (v_contents second)
      in (first\<lparr>v_count := c1, v_capacity := k1, v_contents := p1\<rparr>,
          second\<lparr>v_count := c2, v_capacity := k2, v_contents := p2\<rparr>))"

text \<open>
  The parameter of \<open>operator=\<close> is made from the argument by moving; after the exchange it is
  destroyed with what the vector held before.
\<close>

definition vec_assign ::
    "(allocation \<Rightarrow> 's \<Rightarrow> (size_t \<times> 's) option) \<Rightarrow> size_t \<Rightarrow> vector \<Rightarrow> vector \<Rightarrow> 'v store \<times> 's
       \<Rightarrow> (vector \<times> vector \<times> 'v store \<times> 's) option" where
  "vec_assign free sizeof_value v argument = (\<lambda>(st, a).
     let (other, argument) = vec_move argument; (v, other) = vec_swap v other
     in do {
       (st, a) \<leftarrow> vec_dtor free sizeof_value (other, st, a);
       Some (v, argument, st, a)
     })"

section \<open>String\<close>

definition str_of :: "ptr \<Rightarrow> size_t \<Rightarrow> str" where
  "str_of string len = \<lparr>s_length = len, s_string = string\<rparr>"

definition str_length :: "str \<Rightarrow> size_t" where "str_length m = s_length m"

definition str_is_empty :: "str \<Rightarrow> bool" where "str_is_empty m = (s_length m = 0)"

definition c_str :: "str \<Rightarrow> ptr" where "c_str m = s_string m"

definition str_begin :: "str \<Rightarrow> ra_iter" where "str_begin m = ra_begin"

definition str_end :: "str \<Rightarrow> ra_iter" where "str_end m = ra_end (str_length m)"

definition str_swap :: "str \<Rightarrow> str \<Rightarrow> str \<times> str" where
  "str_swap first second =
     (let (l1, l2) = swap_values (\<lambda>x. (x, x)) (s_length first) (s_length second);
          (p1, p2) = swap_values (\<lambda>x. (x, x)) (s_string first) (s_string second)
      in (first\<lparr>s_length := l1, s_string := p1\<rparr>, second\<lparr>s_length := l2, s_string := p2\<rparr>))"

definition str_assign ::
    "(allocation \<Rightarrow> 's \<Rightarrow> (size_t \<times> 's) option) \<Rightarrow> str \<Rightarrow> str \<Rightarrow> bytes \<times> 's
       \<Rightarrow> (str \<times> str \<times> bytes \<times> 's) option" where
  "str_assign free m argument s =
     (let (other, argument) = str_move argument; (m, other) = str_swap m other
      in do { (b, a) \<leftarrow> str_dtor free other s; Some (m, argument, b, a) })"

section \<open>Owner, Maybe, Array and the nodes of lists\<close>

definition owner_of :: "ptr \<Rightarrow> owner" where "owner_of value_ptr = value_ptr"

definition owner_get :: "owner \<Rightarrow> ptr" where "owner_get m_ptr = m_ptr"

definition owner_deref :: "owner \<Rightarrow> ptr option" where
  "owner_deref m_ptr = (if owner_get m_ptr = nullptr then None else Some (owner_get m_ptr))"

definition owner_swap :: "owner \<Rightarrow> owner \<Rightarrow> owner \<times> owner" where
  "owner_swap first second = swap_values (\<lambda>x. (x, x)) first second"

definition maybe_has_value :: "'v maybe \<Rightarrow> bool" where "maybe_has_value m = mb_has_value m"

definition maybe_deref :: "'v maybe \<Rightarrow> 'v option" where "maybe_deref m = maybe_value m"

definition maybe_dtor :: "'v maybe \<Rightarrow> ('v list \<times> 'v maybe) option" where
  "maybe_dtor m = maybe_destroy m"

definition array_remove :: "('v \<Rightarrow> 'v \<times> 'v) \<Rightarrow> 'v list \<Rightarrow> size_t \<Rightarrow> ('v \<times> 'v list) option" where
  "array_remove mv contents index = do {
     v \<leftarrow> arr_at contents (unat index);
     let (taken, left) = mv v;
     Some (taken, contents[unat index := left])
   }"


definition array_length :: "'v list \<Rightarrow> size_t" where "array_length contents = of_nat (length contents)"

definition array_begin :: "'v list \<Rightarrow> ra_iter" where "array_begin contents = ra_begin"

definition array_end :: "'v list \<Rightarrow> ra_iter" where "array_end contents = ra_end (array_length contents)"

definition node_contents :: "'c heap \<Rightarrow> ptr \<Rightarrow> 'c option" where
  "node_contents h p = do { n \<leftarrow> get_node h p; Some (nd_content n) }"

definition node_next :: "'c heap \<Rightarrow> ptr \<Rightarrow> ptr option" where
  "node_next h p = do { n \<leftarrow> get_node h p; Some (nd_next n) }"

definition node_prev :: "'c heap \<Rightarrow> ptr \<Rightarrow> ptr option" where
  "node_prev h p = do { n \<leftarrow> get_node h p; Some (nd_prev n) }"

definition node_less :: "'c::ord heap \<Rightarrow> ptr \<Rightarrow> 'c \<Rightarrow> bool option" where
  "node_less h first second = do { c \<leftarrow> node_contents h first; Some (c < second) }"

definition node_greater :: "'c::ord heap \<Rightarrow> ptr \<Rightarrow> 'c \<Rightarrow> bool option" where
  "node_greater h first second = do { c \<leftarrow> node_contents h first; Some (c > second) }"

definition mll_length :: "mll \<Rightarrow> size_t" where "mll_length l = m_length l"

definition mll_move :: "mll \<Rightarrow> mll \<times> mll" where
  "mll_move other =
     (let (hd, hd') = exchange (\<lambda>x. (x, x)) (m_head other) nullptr;
          (tl, tl') = exchange (\<lambda>x. (x, x)) (m_tail other) nullptr;
          (len, len') = exchange (\<lambda>x. (x, x)) (m_length other) 0
      in (\<lparr>m_head = hd, m_tail = tl, m_length = len\<rparr>, \<lparr>m_head = hd', m_tail = tl', m_length = len'\<rparr>))"

section \<open>Exchanging\<close>

lemma container_swaps:
  "vec_swap v w = (w, v)" "str_swap s t = (t, s)" "owner_swap p q = (q, p)"
  by (simp_all add: vec_swap_def str_swap_def owner_swap_def swap_exchanges)

text \<open>A list that was moved represents the same nodes, and the one it was moved from is empty.\<close>

lemma mll_move_keeps:
  assumes "list_rep h l xs"
  shows "\<exists>l' old. mll_move l = (l', old) \<and> list_rep h l' xs \<and> list_rep h old []"
  using assms by (auto simp: mll_move_def swap_exchanges list_rep_def)

text \<open>
  Assigning a vector leaves the argument empty and the target with the argument's values, and gives
  back the target's memory, whose first value alone is destroyed.
\<close>

lemma vec_assign_takes_over:
  assumes "vec_rep sz w st ys" and "vec_assign free sz v w (st, a) = Some (v', w', st', a')"
    and "v_contents v \<noteq> v_contents w \<or> v_contents v = nullptr"
  shows "vec_rep sz v' st' ys \<and> vec_rep sz w' st' []
    \<and> (v_contents v \<noteq> nullptr \<longrightarrow> st' (v_contents v) = None)"
  using assms
  by (auto simp: vec_assign_def vec_move_def container_swaps vec_dtor_def vec_rep_def split: if_splits bind_splits)

section \<open>Walking\<close>

definition vec_seq :: "size_t \<Rightarrow> vector \<Rightarrow> 'v store \<Rightarrow> 'v list \<Rightarrow> ra_iter \<Rightarrow> 'v list \<Rightarrow> bool" where
  "vec_seq sz v st xs it ys \<longleftrightarrow> vec_rep sz v st xs \<and> ra_seq xs it ys"

interpretation vec_walk: forward_range
    "\<lambda>pos. Some (ra_incr pos)" "vec_at (v, st, a)" "vec_end v" "vec_seq sz v st xs"
  for v st a sz xs
proof
  fix it assume "vec_seq sz v st xs it []"
  then show "it = vec_end v"
    using ra.seq_Nil [of xs it] by (simp add: vec_seq_def vec_rep_def vec_end_def vec_length_def ra_end_def)
next
  fix it x ys assume s: "vec_seq sz v st xs it (x # ys)"
  then have r: "vec_rep sz v st xs" and c: "ra_seq xs it (x # ys)" by (simp_all add: vec_seq_def)
  from ra.seq_Cons [OF c] have "it \<noteq> vec_end v" "ra_deref xs it = Some x" "ra_seq xs (ra_incr it) ys"
    using r by (auto simp: vec_rep_def vec_end_def vec_length_def ra_end_def)
  moreover from this(2) have "vec_at (v, st, a) it = Some x"
    using vec_rep_get [OF r, of "unat it"] by (simp add: vec_at_def ra_deref_def split: if_splits)
  ultimately show "it \<noteq> vec_end v \<and> vec_at (v, st, a) it = Some x
      \<and> (\<exists>it'. Some (ra_incr it) = Some it' \<and> vec_seq sz v st xs it' ys)"
    using r by (auto simp: vec_seq_def)
qed

lemma vec_seq_begin: "vec_rep sz v st xs \<Longrightarrow> vec_seq sz v st xs (vec_begin v) xs"
  using vec_rep_count [of sz v st xs] unat_lt_exp [of "v_count v"]
  by (simp add: vec_seq_def ra_seq_def vec_begin_def ra_begin_def)

text \<open>A range-based loop over a vector runs its body on the values in order.\<close>

lemma vec_range_for:
  assumes "vec_rep sz v st xs"
  shows "range_for (\<lambda>pos. Some (ra_incr pos)) (vec_at (v, st, a)) body (vec_begin v) (vec_end v) s
    = fold_break body xs s"
  using vec_walk.range_for_fold [OF vec_seq_begin [OF assms]] .

text \<open>A string holds its characters and at least the terminator after them.\<close>

definition str_rep :: "bytes \<Rightarrow> str \<Rightarrow> char list \<Rightarrow> bool" where
  "str_rep b m cs \<longleftrightarrow> length cs < 2 ^ 32 \<and> s_length m = of_nat (length cs)
     \<and> (\<exists>rest. b (s_string m) = Some (cs @ rest))"

definition str_seq :: "bytes \<Rightarrow> str \<Rightarrow> char list \<Rightarrow> ra_iter \<Rightarrow> char list \<Rightarrow> bool" where
  "str_seq b m cs it ys \<longleftrightarrow> str_rep b m cs \<and> ra_seq cs it ys"

interpretation str_walk: forward_range
    "\<lambda>pos. Some (ra_incr pos)" "str_at b m" "str_end m" "str_seq b m cs"
  for b m cs
proof
  fix it assume "str_seq b m cs it []"
  then show "it = str_end m"
    using ra.seq_Nil [of cs it] by (simp add: str_seq_def str_rep_def str_end_def str_length_def ra_end_def)
next
  fix it x ys assume s: "str_seq b m cs it (x # ys)"
  then have r: "str_rep b m cs" and c: "ra_seq cs it (x # ys)" by (simp_all add: str_seq_def)
  from ra.seq_Cons [OF c] have "it \<noteq> str_end m" "ra_deref cs it = Some x" "ra_seq cs (ra_incr it) ys"
    using r by (auto simp: str_rep_def str_end_def str_length_def ra_end_def)
  moreover from this(2) have "str_at b m it = Some x"
    using r by (auto simp: str_at_def str_rep_def arr_at_def ra_deref_def nth_append split: if_splits)
  ultimately show "it \<noteq> str_end m \<and> str_at b m it = Some x
      \<and> (\<exists>it'. Some (ra_incr it) = Some it' \<and> str_seq b m cs it' ys)"
    using r by (auto simp: str_seq_def)
qed

lemma str_range_for:
  assumes "str_rep b m cs"
  shows "range_for (\<lambda>pos. Some (ra_incr pos)) (str_at b m) body (str_begin m) (str_end m) s
    = fold_break body cs s"
proof (rule str_walk.range_for_fold)
  show "str_seq b m cs (str_begin m) cs"
    using assms by (simp add: str_seq_def str_rep_def ra_seq_def str_begin_def ra_begin_def)
qed

text \<open>\<open>find\_if\<close> on a vector stops at the first value that satisfies the predicate.\<close>

lemma vec_find_if:
  assumes "vec_rep sz v st xs" and "\<And>x. x \<in> set xs \<Longrightarrow> pred x = Some (P x)"
  shows "\<exists>it. find_if (\<lambda>pos. Some (ra_incr pos)) (vec_at (v, st, a)) pred (vec_begin v) (vec_end v) = Some it
    \<and> vec_seq sz v st xs it (dropWhile (\<lambda>x. \<not> P x) xs)"
  by (rule vec_walk.find_if_dropWhile) (simp_all add: vec_seq_begin assms)

end
