(* ===== verification/Slab_Growth.thy ===== *)
theory Slab_Growth
  imports Slab
begin

text \<open>
  \<open>SlabAllocator::add\<close> on fresh memory: its first chunk feeds the private free list, from which the
  bitmap and the nodes of the pages are cut, and the other chunks become pages. The result is the
  state that the lemmas on \<open>allocate\<close> and \<open>free\<close> of Slab start from.
\<close>

section \<open>The private free list\<close>

lemma fl_allocate_single:
  assumes inv: "fl_inv (h, l) [b] A" and size: "unat r + 48 \<le> unat (hsz h b)"
  shows "\<exists>h' l' s. fl_allocate r (h, l) = Some (\<lparr>al_ptr = b + 16, al_size = s\<rparr>, (h', l'))
    \<and> r \<le> s \<and> b \<notin> A \<and> b + 16 \<noteq> 0 \<and> fl_inv (h', l') [b + 16 + s] (insert b A)
    \<and> unat (hsz h b) \<le> unat (hsz h' (b + 16 + s)) + unat r + 48"
proof -
  have fits: "r \<le> hsz h b" using size by (simp add: unat_word_le)
  have "unat (hsz h b - r) = unat (hsz h b) - unat r" using size by (intro unat_sub_le) (simp add: unat_word_le)
  then have big: "24 < align_down_two (hsz h b - r) Alignment"
    using size by (simp add: unat_word_lt unat_align_down_8)
  define s where "s = hsz h b - align_down_two (hsz h b - r) Alignment"
  from fl_allocate_cut [of h l "[]" b "[]" A r s] inv fits big
  obtain h' l' where c: "fl_allocate r (h, l) = Some (\<lparr>al_ptr = b + 16, al_size = s\<rparr>, (h', l'))"
      "r \<le> s" "unat s < unat r + 32" "b + 16 + s \<notin> insert b A" "fl_inv (h', l') [b + 16 + s] (insert b A)"
      "hsz h' = (hsz h)(b := s, b + 16 + s := hsz h b - s - 16)"
    by (auto simp: s_def)
  have bA: "b \<notin> A" using inv by (simp add: fl_inv_def)
  have "block_ok b (hsz h b)" using fl_inv_block [OF inv] by simp
  then have "unat (b + 16) = unat b + 16" by (subst unat_add_lt) (simp_all add: block_ok_def)
  then have nz: "b + 16 \<noteq> 0" by (metis add_is_0 unat_0 zero_neq_numeral)
  have "unat (hsz h b - s) = unat (hsz h b) - unat s" using c(3) size by (intro unat_sub_le) (simp add: unat_word_le)
  then have "unat (hsz h b - s - 16) = unat (hsz h b) - unat s - 16"
    using c(3) size by (subst unat_sub_le) (simp_all add: unat_word_le)
  then have "unat (hsz h b) \<le> unat (hsz h' (b + 16 + s)) + unat r + 48" using c(3,6) by simp
  then show ?thesis using c bA nz by blast
qed

text \<open>The free list holds one block, which is large enough for \<open>n\<close> more nodes, apart from the nodes in use.\<close>

definition slab_room :: "slab \<Rightarrow> ptr list \<Rightarrow> nat \<Rightarrow> bool" where
  "slab_room s ps n \<longleftrightarrow> (\<exists>b A. fl_inv (sl_free_pages s) [b] A \<and> set ps \<subseteq> (\<lambda>q. q + 16) ` A
     \<and> 60 * n \<le> unat (hsz (fst (sl_free_pages s)) b))"

section \<open>Pages\<close>

lemma slab_grow_pages_ok:
  assumes pages: "list_rep (sl_page_heap s) (sl_pages s) ps" and room: "slab_room s ps (Suc n)"
  shows "\<exists>x s'. slab_grow_pages v p sz s = Some (False, p + c_chunk_size v, sz - c_chunk_size v, s')
    \<and> list_rep (sl_page_heap s') (sl_pages s') (ps @ [x]) \<and> slab_room s' (ps @ [x]) n
    \<and> map_option nd_content (sl_page_heap s' (hd (ps @ [x])))
        = (if ps = [] then Some p else map_option nd_content (sl_page_heap s (hd ps)))
    \<and> sl_bitmap_heap s' = sl_bitmap_heap s \<and> sl_bitmaps s' = sl_bitmaps s"
proof -
  obtain h l b A where f: "sl_free_pages s = (h, l)" "fl_inv (h, l) [b] A" "set ps \<subseteq> (\<lambda>q. q + 16) ` A"
      "60 * Suc n \<le> unat (hsz h b)"
    using room by (cases "sl_free_pages s") (auto simp: slab_room_def)
  have "unat slab_node_size + 48 \<le> unat (hsz h b)" using f(4) by (simp add: slab_node_size_def)
  from fl_allocate_single [OF f(2) this] obtain h' l' z where
    a: "fl_allocate slab_node_size (h, l) = Some (\<lparr>al_ptr = b + 16, al_size = z\<rparr>, (h', l'))" "b \<notin> A" "b + 16 \<noteq> 0"
      "slab_node_size \<le> z"
      "fl_inv (h', l') [b + 16 + z] (insert b A)"
      "unat (hsz h b) \<le> unat (hsz h' (b + 16 + z)) + unat slab_node_size + 48" by blast
  have z: "z \<noteq> 0" using a(4) by (auto simp: slab_node_size_def)
  let ?x = "b + 16"
  let ?h1 = "(sl_page_heap s)(?x \<mapsto> \<lparr>nd_next = nullptr, nd_prev = nullptr, nd_content = p\<rparr>)"
  have new: "?x \<notin> set ps" using f(3) a(2) by auto
  have "list_rep ?h1 (sl_pages s) ps" by (rule list_rep_frame [OF pages new])
  moreover have "unlinked ?h1 ?x" using a(3) by (simp add: unlinked_def)
  ultimately obtain h2 l2 where ap: "mll_append ?x (?h1, sl_pages s) = Some (h2, l2)"
      "list_rep h2 l2 (ps @ [?x])" "links_only (insert ?x (set ps)) ?h1 h2"
    using mll_append_refines [OF _ _ new] by blast
  have contents: "map_option nd_content (h2 y) = map_option nd_content (?h1 y)" for y
    using ap(3) by (simp add: links_only_def)
  let ?s = "s\<lparr>sl_free_pages := (h', l'), sl_page_heap := h2, sl_pages := l2\<rparr>"
  have "slab_grow_pages v p sz s = Some (False, p + c_chunk_size v, sz - c_chunk_size v, ?s)"
    using a(1,3) z ap(1)
    by (simp add: slab_grow_pages_def allocate_or_feed_def f(1) allocation_bool_def construct_at_def)
  moreover have "slab_room ?s (ps @ [?x]) n"
    unfolding slab_room_def
  proof (intro exI conjI)
    show "fl_inv (sl_free_pages ?s) [b + 16 + z] (insert b A)" using a(5) by simp
    show "set (ps @ [?x]) \<subseteq> (\<lambda>q. q + 16) ` insert b A" using f(3) by auto
    show "60 * n \<le> unat (hsz (fst (sl_free_pages ?s)) (b + 16 + z))"
      using f(4) a(6) by (simp add: slab_node_size_def)
  qed
  moreover have "map_option nd_content (h2 (hd (ps @ [?x])))
      = (if ps = [] then Some p else map_option nd_content (sl_page_heap s (hd ps)))"
    unfolding contents using new by (cases ps) auto
  ultimately show ?thesis using ap(2) by (intro exI [of _ ?x] exI [of _ ?s]) simp
qed

lemma slab_bitmaps_suffice:
  assumes "list_rep h (sl_bitmaps s) [bn]" and "list_rep (sl_page_heap s) (sl_pages s) ps" and "length ps < 126"
    and v: "slot_ok v"
  shows "slab_grow_bitmaps v p sz s = Some (False, p, sz, s)"
proof -
  have len: "m_length (sl_bitmaps s) = 1" "m_length (sl_pages s) = of_nat (length ps)"
    using assms(1,2) by (simp_all add: list_rep_def)
  have le: "(length ps + 1) * per_page v \<le> 126 * 256"
    using assms(3) per_page_bounds(3) [OF v] by (intro mult_le_mono) simp_all
  have "unat (num_slabs v s) = length ps * per_page v"
    using le assms(3) v len(2) by (simp add: num_slabs_def slab_constants unat_word_ariths unat_of_nat_lt)
  then have "unat (32768 - num_slabs v s) = 32768 - length ps * per_page v"
    using le by (subst unat_sub_le) (simp_all add: unat_word_le)
  then have "\<not> 32768 - num_slabs v s < c_slabs_per_page v" using le v by (simp add: unat_word_lt slab_constants)
  then show ?thesis using v len(1) by (simp add: slab_grow_bitmaps_def slab_constants)
qed

lemma slab_add_pages:
  assumes "list_rep (sl_bitmap_heap s) (sl_bitmaps s) [bn]" and "list_rep (sl_page_heap s) (sl_pages s) ps"
    and "slab_room s ps n" and "length ps + n \<le> 126" and "slot_ok v"
  shows "\<exists>s' qs. slab_add v p (of_nat (n * 8192)) s = Some s'
    \<and> list_rep (sl_page_heap s') (sl_pages s') (ps @ qs) \<and> length qs = n
    \<and> sl_bitmap_heap s' = sl_bitmap_heap s \<and> sl_bitmaps s' = sl_bitmaps s
    \<and> (n \<noteq> 0 \<or> ps \<noteq> [] \<longrightarrow> map_option nd_content (sl_page_heap s' (hd (ps @ qs)))
        = (if ps = [] then Some p else map_option nd_content (sl_page_heap s (hd ps))))"
  using assms
proof (induction n arbitrary: p s ps)
  case 0
  then show ?case by (intro exI [of _ s] exI [of _ "[]"]) (auto simp: slab_add.simps [of v p 0 s] slab_constants)
next
  case (Suc n)
  have "unat (of_nat (Suc n * 8192) :: size_t) = Suc n * 8192" using Suc.prems(4) by (intro unat_of_nat_lt) simp
  then have big: "c_chunk_size v \<le> (of_nat (Suc n * 8192) :: size_t)" using Suc.prems(5) by (simp add: slab_constants unat_word_le)
  have left: "(of_nat (Suc n * 8192) :: size_t) - c_chunk_size v = of_nat (n * 8192)" using Suc.prems(5) by (simp add: slab_constants)
  obtain x s1 where g: "slab_grow_pages v p (of_nat (Suc n * 8192)) s = Some (False, p + c_chunk_size v, of_nat (n * 8192), s1)"
      "list_rep (sl_page_heap s1) (sl_pages s1) (ps @ [x])" "slab_room s1 (ps @ [x]) n"
      "map_option nd_content (sl_page_heap s1 (hd (ps @ [x])))
        = (if ps = [] then Some p else map_option nd_content (sl_page_heap s (hd ps)))"
      "sl_bitmap_heap s1 = sl_bitmap_heap s" "sl_bitmaps s1 = sl_bitmaps s"
    using slab_grow_pages_ok [OF Suc.prems(2,3), of v p "of_nat (Suc n * 8192)"] unfolding left by blast
  have "list_rep (sl_bitmap_heap s1) (sl_bitmaps s1) [bn]" using Suc.prems(1) g(5,6) by simp
  from Suc.IH [OF this g(2,3), of "p + c_chunk_size v"] Suc.prems(4,5) obtain s' qs where
    r: "slab_add v (p + c_chunk_size v) (of_nat (n * 8192)) s1 = Some s'"
      "list_rep (sl_page_heap s') (sl_pages s') ((ps @ [x]) @ qs)" "length qs = n"
      "sl_bitmap_heap s' = sl_bitmap_heap s1" "sl_bitmaps s' = sl_bitmaps s1"
      "map_option nd_content (sl_page_heap s' (hd ((ps @ [x]) @ qs)))
        = map_option nd_content (sl_page_heap s1 (hd (ps @ [x])))" by auto
  have "slab_grow_bitmaps v p (of_nat (Suc n * 8192)) s = Some (False, p, of_nat (Suc n * 8192), s)"
    using slab_bitmaps_suffice [OF Suc.prems(1,2) _ Suc.prems(5)] Suc.prems(4) by simp
  then have "slab_add v p (of_nat (Suc n * 8192)) s = Some s'"
    using big g(1) r(1) by (subst slab_add.simps) (simp del: of_nat_Suc of_nat_mult mult_Suc)
  then show ?case
    using r(2-6) g(4-6) by (intro exI [of _ s'] exI [of _ "x # qs"]) auto
qed

section \<open>Fresh memory\<close>

lemma slab_add_fresh:
  assumes p: "p \<noteq> 0" "unat p mod 4096 = 0" "unat p + Suc (Suc n) * 8192 < 2 ^ 32" and n: "n < 64" and v: "slot_ok v"
  shows "\<exists>s bn ws ps. slab_add v p (of_nat (Suc (Suc n) * 8192)) slab_empty = Some s
    \<and> slab_inv s bn 0 ws ps (p + 8192)"
proof -
  let ?sz = "of_nat (Suc (Suc n) * 8192) :: size_t"
  have sz: "unat ?sz = Suc (Suc n) * 8192" using n by (intro unat_of_nat_lt) simp
  have rest: "?sz - 8192 = of_nat (Suc n * 8192)" by simp
  have usz: "unat (of_nat (Suc n * 8192) :: size_t) = Suc n * 8192" using n by (intro unat_of_nat_lt) simp
  have ok: "block_ok p (8192 - 16)"
    using p by (auto simp: block_ok_def)
  have none: "fl_allocate r (Map.empty, empty_mll) = Some (no_allocation, (Map.empty, empty_mll))" for r
    by (rule fl_allocate_none [OF fl_inv_empty]) simp
  obtain h l where f: "fl_add p 8192 (Map.empty, empty_mll) = Some (h, l)" "fl_inv (h, l) [p] {}"
      "hsz h = (hsz Map.empty)(p := 8192 - 16)"
    using fl_add_appends [OF fl_inv_empty [of Map.empty] ok] by (auto simp: fl_bytes_def cover_def)
  have "unat (bitmap_node_size v) + 48 \<le> unat (hsz h p)" using v by (simp add: f(3) slab_constants)
  from fl_allocate_single [OF f(2) this] obtain h' l' z where
    a: "fl_allocate (bitmap_node_size v) (h, l) = Some (\<lparr>al_ptr = p + 16, al_size = z\<rparr>, (h', l'))" "p + 16 \<noteq> 0"
      "bitmap_node_size v \<le> z" "fl_inv (h', l') [p + 16 + z] {p}"
      "unat (hsz h p) \<le> unat (hsz h' (p + 16 + z)) + unat (bitmap_node_size v) + 48" by blast
  have z: "z \<noteq> 0" using a(3) v by (auto simp: slab_constants)
  let ?bm = "bitmap_new (c_bits_per_bitmap v)"
  let ?h1 = "Map.empty(p + 16 \<mapsto> \<lparr>nd_next = nullptr, nd_prev = nullptr, nd_content = ?bm\<rparr>)"
  obtain h2 l2 where ap: "mll_append (p + 16) (?h1, empty_mll) = Some (h2, l2)" "list_rep h2 l2 [p + 16]"
      "links_only {p + 16} ?h1 h2"
    using mll_append_refines [of ?h1 empty_mll "[]" "p + 16"] a(2) by (auto simp: unlinked_def)
  let ?s = "slab_empty\<lparr>sl_free_pages := (h', l'), sl_bitmap_heap := h2, sl_bitmaps := l2\<rparr>"
  have bm: "map_option nd_content (h2 (p + 16)) = Some (0 # replicate 1023 0)"
  proof -
    have "unat (divide_up (c_bits_per_bitmap v) 32) = Suc 1023" using v by (simp add: slab_constants divide_up_def)
    then have "?bm = 0 # replicate 1023 0" unfolding bitmap_new_def by (simp only: replicate_Suc)
    then show ?thesis using ap(3) by (simp add: links_only_def)
  qed
  have some: "0 < c_slabs_per_page v" using v per_page_bounds(2) [OF v] by (simp add: unat_word_lt slab_constants)
  have len0: "m_length empty_mll = 0" by (simp add: empty_mll_def)
  have grow: "slab_grow_bitmaps v p ?sz slab_empty = Some (False, p + 8192, of_nat (Suc n * 8192), ?s)"
    using a(1,2) z ap(1) f(1) rest none len0 v some
    by (simp add: slab_grow_bitmaps_def slab_constants num_slabs_def slab_empty_def
        allocate_or_feed_def allocation_bool_def no_allocation_def construct_at_def
        del: of_nat_Suc of_nat_mult mult_Suc)
  have room: "slab_room ?s [] (Suc n)"
    unfolding slab_room_def
    using a(4,5) n v by (intro exI [of _ "p + 16 + z"] exI [of _ "{p}"]) (simp add: f(3) slab_constants)
  have reps: "list_rep (sl_bitmap_heap ?s) (sl_bitmaps ?s) [p + 16]" "list_rep (sl_page_heap ?s) (sl_pages ?s) []"
    using ap(2) by (simp_all add: slab_empty_def)
  obtain x s1 where g: "slab_grow_pages v (p + 8192) (of_nat (Suc n * 8192)) ?s
        = Some (False, p + 8192 + 8192, of_nat (n * 8192), s1)"
      "list_rep (sl_page_heap s1) (sl_pages s1) [x]" "slab_room s1 [x] n"
      "map_option nd_content (sl_page_heap s1 x) = Some (p + 8192)"
      "sl_bitmap_heap s1 = h2" "sl_bitmaps s1 = l2"
    using slab_grow_pages_ok [OF reps(2) room, of v "p + 8192" "of_nat (Suc n * 8192)"]
    using v by (auto simp: slab_constants)
  have "list_rep (sl_bitmap_heap s1) (sl_bitmaps s1) [p + 16]" using reps(1) g(5,6) by simp
  from slab_add_pages [OF this g(2,3), of v "p + 8192 + 8192"] n v obtain s qs where
    r: "slab_add v (p + 8192 + 8192) (of_nat (n * 8192)) s1 = Some s"
      "list_rep (sl_page_heap s) (sl_pages s) (x # qs)" "length qs = n"
      "sl_bitmap_heap s = h2" "sl_bitmaps s = l2"
      "map_option nd_content (sl_page_heap s x) = Some (p + 8192)"
    using g(4-6) by auto
  have "c_chunk_size v \<le> ?sz" using sz v by (simp add: slab_constants unat_word_le)
  moreover have "\<not> of_nat (Suc n * 8192) < c_chunk_size v" using usz v by (simp add: slab_constants unat_word_lt)
  ultimately have "slab_add v p ?sz slab_empty = Some s"
    by (subst slab_add.simps) (simp only: grow g(1) r(1) bind.bind_lunit prod.case if_True if_False simp_thms)
  moreover have "slab_inv s (p + 16) 0 (replicate 1023 0) (x # qs) (p + 8192)"
  proof -
    have u: "unat (p + 8192) = unat p + 8192" using p(3) by (subst unat_add_lt) simp_all
    then have "unat (p + 8192) \<noteq> 0" by simp
    then have "p + 8192 \<noteq> 0" by (simp only: unat_eq_0 not_False_eq_True)
    moreover have "unat (p + 8192) mod 4096 = 0" using mod_mult_self1 [of "unat p" 2 4096] p(2) by (simp add: u)
    ultimately show ?thesis using r bm ap(2) n by (simp add: slab_inv_def)
  qed
  ultimately show ?thesis by blast
qed

end
