(* ===== verification/Page_Brokering.thy ===== *)
theory Page_Brokering
  imports Page_Allocation Slab_Growth
begin

text \<open>
  The page broker from its initialisation on: \<open>init\<close> on fresh scratch memory gives an allocator of one
  free region, and while the runway lasts, reserving and allocating blocks act on the set of free
  regions by halving, with the results computed by \<open>trim\_blocks\<close> and \<open>trim\_region\_blocks\<close>.
\<close>

section \<open>Initialisation\<close>

lemma empty_backend_rep:
  assumes "slab_inv sl bn 0 ws ps page"
  shows "pb_rep page 0 (\<lambda>_. []) (pb_empty\<lparr>pb_node_allocator := sl\<rparr>)"
  using assms
  by (auto simp: pb_rep_def pb_empty_def all_nodes_def slots_def max_depth_21 empty_mll_def [symmetric])

lemma pb_init_ok:
  assumes scratch: "unat (rg_offset sc) + 64 < 2 ^ 20" "rg_offset sc \<noteq> 0" "rg_length sc = 64"
    and r: "block d r" "d < 21"
  shows "\<exists>s. pb_init r sc pb_empty = Some s \<and> implements s {r}"
proof -
  let ?p = "region_ptr PageSize sc 0"
  have p: "unat ?p = unat (rg_offset sc) * 4096"
    unfolding region_ptr_def using scratch(1) by (simp add: PageSize_def unat_word_ariths)
  then have nz: "?p \<noteq> 0" using scratch(2) by (metis mult_eq_0_iff unat_0 unat_eq_0 zero_neq_numeral)
  have aligned: "unat ?p mod 4096 = 0" by (simp add: p)
  have page_slots: "slot_ok page_node_size" by (simp add: page_node_size_def)
  have room: "unat ?p + Suc (Suc 30) * 8192 < 2 ^ 32" "(30 :: nat) < 64" using scratch(1) unfolding p by simp_all
  obtain sl bn ws pgs where
    "slab_add page_node_size ?p (of_nat (Suc (Suc 30) * 8192)) slab_empty = Some sl" "slab_inv sl bn 0 ws pgs (?p + 8192)"
    using slab_add_fresh [OF nz aligned room page_slots] by (elim exE conjE) (rule that)
  then have sl: "slab_add page_node_size ?p (region_size PageSize sc) slab_empty = Some sl" "slab_inv sl bn 0 ws pgs (?p + 8192)"
    by (simp_all add: region_size_def scratch(3) PageSize_def)
  let ?s = "pb_empty\<lparr>pb_node_allocator := sl\<rparr>"
  have none: "free_pages (\<lambda>_. []) ?s = {}" "blocks (\<lambda>_. []) ?s = {}" "used 0 < 32"
    by (simp_all add: free_pages_def blocks_def all_nodes_def used_def)
  obtain s w nss where s: "free_region r ?s = Some (max_overhead_per_allocation, s)" "pb_rep (?p + 8192) w nss s"
      "blocks nss s = insert r (blocks (\<lambda>_. []) ?s)"
    using free_region_ok [OF empty_backend_rep [OF sl(2)] r(2,1) _ none(3)] none(1) by auto
  have "pb_init r sc pb_empty = Some s"
    using sl(1) s(1) by (simp add: pb_init_def pb_add_def) (simp add: pb_empty_def)
  then show ?thesis using implementsI [OF s(2)] s(3) none(2) by auto
qed

section \<open>Blocks\<close>

lemma implements_disjoint:
  assumes "implements s R" and "p \<in> R" and "q \<in> R" and "x \<in> pages p" and "x \<in> pages q"
  shows "p = q"
proof -
  obtain page w nss where rep: "pb_rep page w nss s" "R = blocks nss s" using assms(1) by (rule implementsE)
  then obtain a b where "a \<in> all_nodes nss" "p = content (pb_heap s) a" "b \<in> all_nodes nss" "q = content (pb_heap s) b"
    using assms(2,3) by (auto simp: blocks_def)
  then show ?thesis using pb_repD(6) [OF rep(1)] assms(4,5) by blast
qed

lemma block_depth: "block d r \<Longrightarrow> block e r \<Longrightarrow> d = e"
  by (simp add: block_def)

lemma reserve_block:
  assumes "implements s R" and "card R \<le> 13" and p: "p \<in> R" "block (k + m) p"
    and q: "block k q" "pages q \<subseteq> pages p" and trim: "trim_region_blocks q m p = (q, S)"
  shows "\<exists>b s'. pb_reserve_region q s = Some (b, s') \<and> implements s' (R - {p} \<union> S)
    \<and> b = \<lparr>ba_ptr = region_ptr PageSize q 0, ba_size = region_size PageSize q, ba_overhead_used = 0\<rparr>"
proof -
  obtain page w nss where rep: "pb_rep page w nss s" "R = blocks nss s" "card R = used w"
    using assms(1) by (rule implementsE)
  have len: "unat (rg_length q) = 2 ^ k" "unat (rg_length q) \<le> 2 ^ 20" using q(1) by (simp_all add: block_def)
  obtain x where x: "x \<in> pages q" using block_has_page [OF q(1)] by blast
  have room: "used w \<le> 13" using assms(2) rep(3) by simp
  have "\<not> (\<forall>y \<in> all_nodes nss. \<not> pages q \<subseteq> pages (content (pb_heap s) y))"
    using p(1) q(2) rep(2) by (auto simp: blocks_def)
  with pb_reserve_region_ok [OF rep(1) block_fits_space [OF q(1)] block_nonempty [OF q(1)] len(2) room]
  obtain r e b s' w' nss' p' k' m' where r: "pb_reserve_region q s = Some (b, s')"
      "ba_ptr b = region_ptr PageSize r 0" "ba_size b = region_size PageSize r" "block e r" "pb_rep page w' nss' s'"
      "p' \<in> blocks nss s" "pages q \<subseteq> pages p'" "block (k' + m') p'"
      "2 ^ k' \<le> unat (rg_length q)" "unat (rg_length q) < 2 ^ Suc k'"
      "r = fst (trim_region_blocks q m' p')" "blocks nss' s' = blocks nss s - {p'} \<union> snd (trim_region_blocks q m' p')"
      "ba_overhead_used b = (of_nat k' - of_nat e) * max_overhead_per_allocation * page_node_size"
    by (elim disjE exE conjE) (erule notE, assumption, rule that)
  have pp: "p' = p" using implements_disjoint [OF assms(1) _ p(1)] r(6,7) q(2) x rep(2) by blast
  have kk: "k' = k" using r(9,10) floor_log_unique [of k' "2 ^ k" k] len(1) by simp
  have mm: "m' = m" using block_depth [OF r(8) [unfolded pp kk] p(2)] by simp
  have rq: "r = q" using r(11) trim by (simp add: pp mm)
  then have "e = k" using block_depth r(4) q(1) by blast
  then have "ba_overhead_used b = 0" using r(13) kk by simp
  moreover have "blocks nss' s' = R - {p} \<union> S" using r(12) trim rep(2) by (simp add: pp mm)
  ultimately show ?thesis
    using r(1-3) rq implementsI [OF r(5)] by (intro exI [of _ b] exI [of _ s']) auto
qed

lemma rounded_up_unique:
  assumes "(n :: nat) \<le> 2 ^ d" "2 ^ d < 2 * n" "n \<le> 2 ^ e" "2 ^ e < 2 * n"
  shows "d = e"
proof -
  have less: "d \<le> e" if "(2 :: nat) ^ d < 2 * n" "n \<le> 2 ^ e" for d e
  proof -
    have "(2 :: nat) ^ d < 2 ^ Suc e" using that by simp
    then show ?thesis by (simp only: power_strict_increasing_iff less_Suc_eq_le)
  qed
  show ?thesis using less [OF assms(2,3)] less [OF assms(4,1)] by simp
qed

lemma allocate_block:
  assumes "implements s R" and "card R \<le> 13" and n: "unat n \<le> 2 ^ e" "2 ^ e < 2 * unat n" "e \<le> 19"
    and q: "q \<in> R" "block (e + m) q" "\<And>r. r \<in> R \<Longrightarrow> region_fits r n \<Longrightarrow> r \<noteq> q \<Longrightarrow> rg_length q < rg_length r"
  shows "\<exists>b s'. pb_allocate n PALPage s = Some (b, s')
    \<and> implements s' (R - {q} \<union> snd (trim_blocks m q))
    \<and> b = \<lparr>ba_ptr = region_ptr PageSize (fst (trim_blocks m q)) 0,
           ba_size = region_size PageSize (fst (trim_blocks m q)),
           ba_overhead_used = of_nat m * max_overhead_per_allocation * page_node_size\<rparr>"
proof -
  obtain page w nss where rep: "pb_rep page w nss s" "R = blocks nss s" "card R = used w"
    using assms(1) by (rule implementsE)
  have n': "n \<noteq> 0" "unat n \<le> 2 ^ 19"
  proof -
    show "n \<noteq> 0" using n(2) by auto
    have "(2 :: nat) ^ e \<le> 2 ^ 19" using n(3) by (intro power_increasing) simp_all
    then show "unat n \<le> 2 ^ 19" using n(1) by simp
  qed
  have room: "used w \<le> 13" using assms(2) rep(3) by simp
  have aligned: "region_aligned_to r (pal_unsigned PALPage)" for r by (simp add: region_aligned_to_def)
  have fits: "region_fits q n"
  proof -
    have "(2 :: nat) ^ e \<le> 2 ^ (e + m)" by (intro power_increasing) simp_all
    with n(1) have "unat n \<le> 2 ^ (e + m)" by (rule le_trans)
    then show ?thesis using q(2) by (simp add: region_fits_def block_def unat_word_le)
  qed
  obtain y where "y \<in> all_nodes nss" "q = content (pb_heap s) y" using q(1) rep(2) by (auto simp: blocks_def)
  then have "\<not> (\<forall>y \<in> all_nodes nss. \<not> (region_fits (content (pb_heap s) y) n
      \<and> region_aligned_to (content (pb_heap s) y) (pal_unsigned PALPage)))"
    using fits aligned by blast
  with pb_allocate_ok [OF rep(1) n' room, of PALPage]
  obtain r e' b s' w' nss' q' m' where r: "pb_allocate n PALPage s = Some (b, s')"
      "ba_ptr b = region_ptr PageSize r 0" "ba_size b = region_size PageSize r"
      "unat n \<le> 2 ^ e'" "2 ^ e' < 2 * unat n" "pb_rep page w' nss' s'"
      "smallest (\<lambda>r. region_fits r n \<and> region_aligned_to r (pal_unsigned PALPage)) (blocks nss s) q'"
      "block (e' + m') q'" "r = fst (trim_blocks m' q')"
      "blocks nss' s' = blocks nss s - {q'} \<union> snd (trim_blocks m' q')"
      "ba_overhead_used b = of_nat m' * max_overhead_per_allocation * page_node_size"
    by (elim disjE exE conjE) (erule notE, assumption, rule that)
  have "e' = e" by (rule rounded_up_unique [OF r(4,5) n(1,2)])
  moreover have qq: "q' = q"
  proof (rule ccontr)
    assume "q' \<noteq> q"
    moreover have "q' \<in> R" "region_fits q' n" "rg_length q' \<le> rg_length q"
      using r(7) rep(2) q(1) fits aligned by (auto simp: smallest_def)
    ultimately show False using q(3) [of q'] by simp
  qed
  ultimately have "m' = m" using block_depth [OF r(8), of "e + m"] q(2) by simp
  then show ?thesis
    using r(1-3,9-11) qq rep(2) implementsI [OF r(6)] by (intro exI [of _ b] exI [of _ s']) auto
qed

section \<open>The broker\<close>

definition brokers :: "page_broker \<Rightarrow> size_t \<Rightarrow> region set \<Rightarrow> bool" where
  "brokers s runway R \<longleftrightarrow> br_curr_runway s = runway \<and> implements (br_page_allocator s) R"

lemma runway_512: "c_required_runway = 512"
proof -
  have "pb_max_overhead = 336"
    by (simp add: pb_max_overhead_def max_overhead_per_allocation_def header_node_size_def max_depth_21)
  moreover have "align_up_to_power (336 :: u32) = Some 512" by code_simp
  ultimately show ?thesis by (simp add: c_required_runway_def)
qed

lemma broker_init_ok:
  assumes "unat (rg_offset sc) + 64 < 2 ^ 20" "rg_offset sc \<noteq> 0" "rg_length sc = 64" and "block d r" "d < 21"
  shows "\<exists>s. broker_init r sc broker_empty = Some s \<and> brokers s 262128 {r}"
proof -
  have "pb_initial_cost = 16"
    by (simp add: pb_initial_cost_def max_overhead_per_allocation_def header_node_size_def)
  then have "region_size PageSize sc - pb_initial_cost = 262128"
    using assms(3) by (simp add: region_size_def PageSize_def)
  then show ?thesis
    using pb_init_ok [OF assms] by (auto simp: broker_init_def brokers_def broker_empty_def)
qed

lemma broker_add_ok:
  assumes "brokers s runway R" and "card R < 32" and "block d r" "d < 20" "pages r \<inter> covered R = {}"
  shows "\<exists>s'. broker_add r s = Some s' \<and> brokers s' runway (insert r R)"
proof -
  obtain page w nss where rep: "pb_rep page w nss (br_page_allocator s)" "R = blocks nss (br_page_allocator s)"
    "card R = used w" "covered R = free_pages nss (br_page_allocator s)"
    using assms(1) by (auto simp: brokers_def elim: implementsE)
  obtain s' w' nss' where s': "free_region r (br_page_allocator s) = Some (max_overhead_per_allocation, s')"
      "pb_rep page w' nss' s'" "blocks nss' s' = insert r R"
    using free_region_ok [OF rep(1) _ assms(3)] assms(2,4,5) rep(2-4) by auto
  then show ?thesis
    using assms(1) implementsI [OF s'(2)] by (simp add: broker_add_def pb_add_def brokers_def)
qed

lemma broker_reserve_block:
  assumes "brokers s runway R" and "512 \<le> runway" and "card R \<le> 13" and "p \<in> R" "block (k + m) p"
    and "block k q" "pages q \<subseteq> pages p" and "trim_region_blocks q m p = (q, S)"
  shows "\<exists>s'. broker_reserve_region q s = Some (\<lparr>al_ptr = region_ptr PageSize q 0, al_size = region_size PageSize q\<rparr>, s')
    \<and> brokers s' runway (R - {p} \<union> S)"
proof -
  obtain s' where "pb_reserve_region q (br_page_allocator s) = Some (\<lparr>ba_ptr = region_ptr PageSize q 0,
      ba_size = region_size PageSize q, ba_overhead_used = 0\<rparr>, s')" "implements s' (R - {p} \<union> S)"
    using reserve_block [OF _ assms(3-8)] assms(1) by (auto simp: brokers_def)
  then show ?thesis
    using assms(1,2) by (auto simp add: broker_reserve_region_def broker_forward_def brokers_def runway_512 as_allocation_def)
qed

lemma broker_allocate_block:
  assumes "brokers s runway R" and "512 \<le> runway" and "card R \<le> 13" and "unat n \<le> 2 ^ e" "2 ^ e < 2 * unat n" "e \<le> 19"
    and "q \<in> R" "block (e + m) q" "\<And>r. r \<in> R \<Longrightarrow> region_fits r n \<Longrightarrow> r \<noteq> q \<Longrightarrow> rg_length q < rg_length r"
    and "trim_blocks m q = (r, S)"
  shows "\<exists>s'. broker_allocate n PALPage s = Some (\<lparr>al_ptr = region_ptr PageSize r 0, al_size = region_size PageSize r\<rparr>, s')
    \<and> brokers s' (runway - of_nat m * 256) (R - {q} \<union> S)"
proof -
  have "max_overhead_per_allocation * page_node_size = 256"
    by (simp add: max_overhead_per_allocation_def page_node_size_def header_node_size_def)
  moreover have "implements (br_page_allocator s) R" using assms(1) by (simp add: brokers_def)
  then obtain b s' where "pb_allocate n PALPage (br_page_allocator s) = Some (b, s')" "implements s' (R - {q} \<union> S)"
      "b = \<lparr>ba_ptr = region_ptr PageSize r 0, ba_size = region_size PageSize r,
        ba_overhead_used = of_nat m * max_overhead_per_allocation * page_node_size\<rparr>"
    using allocate_block [OF _ assms(3-9)] assms(10) by fastforce
  ultimately show ?thesis
    using assms(1,2)
    by (auto simp: broker_allocate_def broker_forward_def brokers_def runway_512 as_allocation_def mult.assoc)
qed

end
