(* ===== verification/Boot_Tables.thy ===== *)
theory Boot_Tables
  imports Mmu Page_Brokering
begin

text \<open>
  What \<open>init\_page\_tables\<close> leaves when the machine boots with a kernel of at most one section (1 MiB):
  the steps of both page allocators on their sets of free regions, what is recorded in the first
  table, and the translation that the kernel then runs on.
\<close>

abbreviation rg :: "size_t \<Rightarrow> size_t \<Rightarrow> region" where
  "rg first count \<equiv> \<lparr>rg_offset = first, rg_length = count\<rparr>"

abbreviation memory_of :: "region \<Rightarrow> allocation" where
  "memory_of r \<equiv> \<lparr>al_ptr = region_ptr PageSize r 0, al_size = region_size PageSize r\<rparr>"

lemma trim_region_blocks_numeral:
  "trim_region_blocks q (numeral n) r =
     (let (a, b) = region_halve r in
      if region_contains a q
      then (let (r', R) = trim_region_blocks q (pred_numeral n) a in (r', insert b R))
      else if region_contains b q
      then (let (r', R) = trim_region_blocks q (pred_numeral n) b in (r', insert a R))
      else (r, {}))"
  by (simp add: numeral_eq_Suc)

lemmas halving = trim_region_blocks_numeral region_halve_def region_contains_def region_end_offset_def Let_def

section \<open>Single steps\<close>

lemma reserve_step:
  assumes "brokers s runway R" and "512 \<le> runway" and "card R \<le> 13" and "p \<in> R" "block (k + m) p"
    and "block k q" "pages q \<subseteq> pages p" and "trim_region_blocks q m p = (q, S)" and "R - {p} \<union> S = R'"
  shows "\<exists>s'. broker_reserve_region q s = Some (memory_of q, s') \<and> brokers s' runway R'"
  using broker_reserve_block [OF assms(1-8)] assms(9) by simp

lemma reserve_whole:
  assumes "brokers s runway R" and "512 \<le> runway" and "card R \<le> 13" and "q \<in> R" "block k q" and "R - {q} = R'"
  shows "\<exists>s'. broker_reserve_region q s = Some (memory_of q, s') \<and> brokers s' runway R'"
  using reserve_step [OF assms(1-4) _ assms(5) subset_refl, of 0 "{}"] assms(5,6) by simp

lemma allocate_step:
  assumes "brokers s runway R" and "512 \<le> runway" and "card R \<le> 13" and "unat n \<le> 2 ^ e" "2 ^ e < 2 * unat n" "e \<le> 19"
    and "q \<in> R" "block (e + m) q" "\<And>r. r \<in> R \<Longrightarrow> region_fits r n \<Longrightarrow> r \<noteq> q \<Longrightarrow> rg_length q < rg_length r"
    and "trim_blocks m q = (r, S)" and "R - {q} \<union> S = R'"
  shows "\<exists>s'. broker_allocate n PALPage s = Some (memory_of r, s') \<and> brokers s' (runway - of_nat m * 256) R'"
  using broker_allocate_block [OF assms(1-10)] assms(11) by simp

section \<open>The physical pages\<close>

text \<open>The blocks between two powers of two of pages, which halving towards the first page leaves.\<close>

abbreviation upper_blocks :: "region set" where
  "upper_blocks \<equiv> {rg 65536 65536, rg 32768 32768, rg 16384 16384, rg 8192 8192, rg 4096 4096, rg 2048 2048, rg 1024 1024}"

lemma covered_simps: "covered (R \<union> S) = covered R \<union> covered S" "covered (insert r R) = pages r \<union> covered R" "covered {} = {}"
  by (simp_all add: covered_def)

lemma covered_upper: "covered upper_blocks = {1024 ..< 131072}"
  by (rule set_eqI) (simp add: covered_simps pages_def, arith)

definition boot_physical :: "region set" where "boot_physical = {rg 768 256} \<union> upper_blocks"

lemma covered_boot_physical: "covered boot_physical = {768 ..< 131072}"
  unfolding boot_physical_def covered_simps(1) covered_upper by (auto simp: covered_simps pages_def)

lemma physical_pages_reserved:
  assumes "brokers p 262128 {rg 245760 16384, rg 0 131072}"
  shows "\<exists>p1 p2 p3 p4. broker_reserve_region (rg 0 256) p = Some (memory_of (rg 0 256), p1)
    \<and> broker_reserve_region (rg 256 256) p1 = Some (memory_of (rg 256 256), p2)
    \<and> broker_allocate 256 PALPage p2 = Some (memory_of (rg 512 256), p3)
    \<and> broker_reserve_region (rg 245760 16384) p3 = Some (memory_of (rg 245760 16384), p4)
    \<and> brokers p4 261872 boot_physical"
proof -
  let ?D = "rg 245760 16384"
  have "\<exists>p1. broker_reserve_region (rg 0 256) p = Some (memory_of (rg 0 256), p1)
      \<and> brokers p1 262128 ({?D, rg 512 512, rg 256 256} \<union> upper_blocks)"
    by (rule reserve_step [OF assms, of "rg 0 131072" 8 9 _ "{rg 512 512, rg 256 256} \<union> upper_blocks"])
      (simp_all add: block_def pages_def halving insert_commute)
  then obtain p1 where p1: "broker_reserve_region (rg 0 256) p = Some (memory_of (rg 0 256), p1)"
      "brokers p1 262128 ({?D, rg 512 512, rg 256 256} \<union> upper_blocks)" by blast
  have "\<exists>p2. broker_reserve_region (rg 256 256) p1 = Some (memory_of (rg 256 256), p2)
      \<and> brokers p2 262128 ({?D, rg 512 512} \<union> upper_blocks)"
    by (rule reserve_whole [OF p1(2), of _ 8]) (simp_all add: block_def insert_Diff_if)
  then obtain p2 where p2: "broker_reserve_region (rg 256 256) p1 = Some (memory_of (rg 256 256), p2)"
      "brokers p2 262128 ({?D, rg 512 512} \<union> upper_blocks)" by blast
  have "\<exists>p3. broker_allocate 256 PALPage p2 = Some (memory_of (rg 512 256), p3)
      \<and> brokers p3 (262128 - of_nat 1 * 256) ({?D, rg 768 256} \<union> upper_blocks)"
    by (rule allocate_step [OF p2(2), of _ 8 "rg 512 512" _ _ "{rg 768 256}"])
      (auto simp: block_def region_halve_def)
  then obtain p3 where p3: "broker_allocate 256 PALPage p2 = Some (memory_of (rg 512 256), p3)"
      "brokers p3 261872 ({?D, rg 768 256} \<union> upper_blocks)" by auto
  have "\<exists>p4. broker_reserve_region ?D p3 = Some (memory_of ?D, p4) \<and> brokers p4 261872 ({rg 768 256} \<union> upper_blocks)"
    by (rule reserve_whole [OF p3(2), of _ 14]) (simp_all add: block_def insert_Diff_if)
  then show ?thesis using p1(1) p2(1) p3(1) unfolding boot_physical_def by blast
qed

section \<open>The virtual pages\<close>

definition boot_virtual :: "region set" where
  "boot_virtual = {rg 131072 65536, rg 196608 32768, rg 229376 16384, rg 768 256}
     \<union> ({rg 524288 524288, rg 262144 262144} \<union> upper_blocks)"

lemma covered_boot_virtual: "covered boot_virtual = {768 ..< 245760} \<union> {262144 ..< 1048576}"
  unfolding boot_virtual_def covered_simps(1) covered_upper by (rule set_eqI) (simp add: covered_simps pages_def, arith)

lemma virtual_pages_reserved:
  assumes "brokers v 262128 {rg 0 1048576}"
  shows "\<exists>v1 v2 v3 v4. broker_reserve_region (rg 0 256) v = Some (memory_of (rg 0 256), v1)
    \<and> broker_reserve_region (rg 256 256) v1 = Some (memory_of (rg 256 256), v2)
    \<and> broker_reserve_region (rg 512 256) v2 = Some (memory_of (rg 512 256), v3)
    \<and> broker_reserve_region (rg 245760 16384) v3 = Some (memory_of (rg 245760 16384), v4)
    \<and> brokers v4 262128 boot_virtual"
proof -
  let ?U = "{rg 524288 524288, rg 262144 262144} \<union> upper_blocks"
  have "\<exists>v1. broker_reserve_region (rg 0 256) v = Some (memory_of (rg 0 256), v1)
      \<and> brokers v1 262128 ({rg 131072 131072, rg 512 512, rg 256 256} \<union> ?U)"
    by (rule reserve_step [OF assms, of "rg 0 1048576" 8 12 _ "{rg 131072 131072, rg 512 512, rg 256 256} \<union> ?U"])
      (simp_all add: block_def pages_def halving insert_commute)
  then obtain v1 where v1: "broker_reserve_region (rg 0 256) v = Some (memory_of (rg 0 256), v1)"
      "brokers v1 262128 ({rg 131072 131072, rg 512 512, rg 256 256} \<union> ?U)" by blast
  have "\<exists>v2. broker_reserve_region (rg 256 256) v1 = Some (memory_of (rg 256 256), v2)
      \<and> brokers v2 262128 ({rg 131072 131072, rg 512 512} \<union> ?U)"
    by (rule reserve_whole [OF v1(2), of _ 8]) (simp_all add: block_def insert_Diff_if)
  then obtain v2 where v2: "broker_reserve_region (rg 256 256) v1 = Some (memory_of (rg 256 256), v2)"
      "brokers v2 262128 ({rg 131072 131072, rg 512 512} \<union> ?U)" by blast
  have "\<exists>v3. broker_reserve_region (rg 512 256) v2 = Some (memory_of (rg 512 256), v3)
      \<and> brokers v3 262128 ({rg 131072 131072, rg 768 256} \<union> ?U)"
    by (rule reserve_step [OF v2(2), of "rg 512 512" 8 1 _ "{rg 768 256}"])
      (simp_all add: block_def pages_def halving insert_Diff_if insert_commute)
  then obtain v3 where v3: "broker_reserve_region (rg 512 256) v2 = Some (memory_of (rg 512 256), v3)"
      "brokers v3 262128 ({rg 131072 131072, rg 768 256} \<union> ?U)" by blast
  have "\<exists>v4. broker_reserve_region (rg 245760 16384) v3 = Some (memory_of (rg 245760 16384), v4)
      \<and> brokers v4 262128 ({rg 131072 65536, rg 196608 32768, rg 229376 16384, rg 768 256} \<union> ?U)"
    by (rule reserve_step [OF v3(2), of "rg 131072 131072" 14 3 _ "{rg 131072 65536, rg 196608 32768, rg 229376 16384}"])
      (simp_all add: block_def pages_def halving insert_Diff_if insert_commute)
  then show ?thesis using v1(1) v2(1) v3(1) unfolding boot_virtual_def by blast
qed

section \<open>The first table\<close>

definition identity_sections :: "(nat \<Rightarrow> bool) \<Rightarrow> u32 list" where
  "identity_sections S = map (\<lambda>j. if S j then section_entry (push_bit 20 (of_nat j)) else 0) [0..<l1_num_entries]"

lemma identity_sections_none: "identity_sections (\<lambda>_. False) = replicate l1_num_entries 0"
  by (simp add: identity_sections_def map_replicate_const)

lemma record_identity:
  assumes "mm_l1_table m = identity_sections S" and "unat (rg_offset r) + unat (rg_length r) \<le> l1_num_entries"
    and "\<forall>j. unat (rg_offset r) \<le> j \<and> j < unat (rg_offset r) + unat (rg_length r) \<longrightarrow> \<not> S j"
  shows "try_record_section_in_l1 r r m = Some (True, m\<lparr>mm_l1_table := identity_sections
    (\<lambda>j. S j \<or> unat (rg_offset r) \<le> j \<and> j < unat (rg_offset r) + unat (rg_length r))\<rparr>)"
proof -
  let ?o = "unat (rg_offset r)" and ?n = "unat (rg_length r)"
  have at: "mm_l1_table m ! j = (if S j then section_entry (push_bit 20 (of_nat j)) else 0)" if "j < 1024" for j
    using that by (simp add: assms(1) identity_sections_def l1_num_entries_def)
  have own: "region_ptr SectionSize r (x - rg_offset r) = push_bit 20 x" for x
    by (simp add: region_ptr_push_bit)
  have "try_record_section_in_l1 r r m = Some (True, m\<lparr>mm_l1_table := map (\<lambda>j.
      if ?o \<le> j \<and> j < ?o + ?n then section_entry (region_ptr SectionSize r (of_nat (j - ?o))) else mm_l1_table m ! j)
      [0..<l1_num_entries]\<rparr>)"
    by (rule record_sections_l1)
      (use assms at in \<open>auto simp: identity_sections_def l1_num_entries_def\<close>)
  moreover have "map (\<lambda>j. if ?o \<le> j \<and> j < ?o + ?n
        then section_entry (region_ptr SectionSize r (of_nat (j - ?o))) else mm_l1_table m ! j) [0..<l1_num_entries]
      = identity_sections (\<lambda>j. S j \<or> ?o \<le> j \<and> j < ?o + ?n)"
    unfolding identity_sections_def by (rule map_cong [OF refl]) (auto simp: own at l1_num_entries_def of_nat_diff)
  ultimately show ?thesis by simp
qed

lemma walk_identity:
  assumes "mm_l1_table m = identity_sections S" and "va < DEVICES_END"
  shows "walk m va = (if S (unat va div 2 ^ 20) then Some va else None)"
proof -
  let ?j = "unat va div 2 ^ 20"
  have j: "l1_index va = ?j" "?j < 1024" using l1_index_below [OF assms(2)] l1_index_less [of va] by simp_all
  have "?j = unat (drop_bit 20 va)" by (simp only: unat_drop_bit_eq) (simp add: drop_bit_eq_div)
  then have base: "of_nat ?j = drop_bit 20 va" by (simp only: of_nat_unat ucast_id)
  have split: "push_bit 20 (drop_bit 20 va) + take_bit 20 va = va" by (rule bits_ident)
  have "section_physical_address (section_entry (push_bit 20 (of_nat ?j))) = push_bit 20 (of_nat ?j)"
    by (rule section_address)
      (use region_ptr_section_ok [of "rg (of_nat ?j) 1" 0] j(2) in
        \<open>simp_all add: region_ptr_push_bit unat_of_nat_lt\<close>)
  then show ?thesis
    using j base split by (simp add: walk_def Let_def assms(1) identity_sections_def l1_num_entries_def)
qed

section \<open>Reserving sections\<close>

lemma reserve_section_identity:
  assumes reserve: "broker_reserve_region (as_page_region r) (mm_virtual_page_allocator m) = Some (memory_of (as_page_region r), v)"
      "(case b of Mixed \<Rightarrow> broker_allocate (rg_length (as_page_region r)) PALPage
         | Identity \<Rightarrow> broker_reserve_region (as_page_region r)) (mm_physical_page_allocator m)
       = Some (memory_of (as_page_region r), p)"
    and conv: "region_from_ptr PageSize (region_ptr PageSize (as_page_region r) 0) (region_size PageSize (as_page_region r))
        = as_page_region r"
      "region_from_ptr SectionSize (region_ptr PageSize (as_page_region r) 0) (region_size PageSize (as_page_region r)) = r"
      "region_size PageSize (as_page_region r) \<noteq> 0"
    and l1: "mm_l1_table m = identity_sections S" "unat (rg_offset r) + unat (rg_length r) \<le> l1_num_entries"
      "\<forall>j. unat (rg_offset r) \<le> j \<and> j < unat (rg_offset r) + unat (rg_length r) \<longrightarrow> \<not> S j"
    and T: "\<And>j. T j \<longleftrightarrow> S j \<or> unat (rg_offset r) \<le> j \<and> j < unat (rg_offset r) + unat (rg_length r)"
  shows "mmu_reserve_section_region r b m = Some ((r, r), m\<lparr>mm_physical_page_allocator := p, mm_virtual_page_allocator := v,
    mm_l1_table := identity_sections T\<rparr>)"
proof -
  have T: "T = (\<lambda>j. S j \<or> unat (rg_offset r) \<le> j \<and> j < unat (rg_offset r) + unat (rg_length r))"
    using T by blast
  let ?a = "memory_of (as_page_region r)"
  let ?m = "m\<lparr>mm_virtual_page_allocator := v, mm_physical_page_allocator := p\<rparr>"
  have "try_reserve_region_unrecorded (as_page_region r) b m = Some ((?a, ?a), ?m)"
    using reserve conv(1,3)
    by (cases b) (simp_all add: try_reserve_region_unrecorded_def virt_op_def phys_op_def allocation_bool_def)
  then show ?thesis
    using conv(2,3) record_identity [of ?m S r] l1
    by (simp add: mmu_reserve_section_region_def allocation_bool_def unless_recorded_def T)
qed

lemma code_end_section:
  assumes "0 < unat (code_end :: ptr)" and "unat code_end \<le> 2 ^ 20"
  shows "align_up_two code_end SectionSize = 0x100000"
proof -
  have nz: "code_end \<noteq> 0" using assms(1) by (metis unat_0 less_irrefl)
  have "unat code_end + 2 ^ 20 \<le> 2 ^ LENGTH(32)" using assms(2) by simp
  then have "unat (align_up_two code_end SectionSize) = (unat code_end + 2 ^ 20 - 1) div 2 ^ 20 * 2 ^ 20"
    using unat_align_up_two [of SectionSize 20 code_end] nz by (simp only: SectionSize_def) simp
  moreover have "(n + 2 ^ 20 - 1) div 2 ^ 20 * 2 ^ 20 = 1048576" if "0 < n" "n \<le> 2 ^ 20" for n :: nat
  proof -
    have "(n + 2 ^ 20 - 1) div 2 ^ 20 = 1" by (rule div_nat_eqI) (use that in simp_all)
    then show ?thesis by simp
  qed
  ultimately have "unat (align_up_two code_end SectionSize) = 1048576" using assms by metis
  then show ?thesis by (simp add: word_unat_eq_iff)
qed

lemma boot_regions:
  "region_from_range SectionSize 0 0x100000 = rg 0 1"
  "region_from_range SectionSize DEVICES_START DEVICES_END = rg 960 64"
  "region_halve (rg 512 256) = (rg 512 128, rg 640 128)"
  "region_halve (rg 512 128) = (rg 512 64, rg 576 64)"
  "as_page_region (rg 0 1) = rg 0 256" "as_page_region (rg 1 1) = rg 256 256"
  "as_page_region (rg 2 1) = rg 512 256" "as_page_region (rg 960 64) = rg 245760 16384"
  by (simp_all add: region_from_range_def SectionSize_def PageSize_def DEVICES_START_def DEVICES_END_def
      region_halve_def as_page_region_def region_convert_to_def Let_def)

lemma boot_regions_back:
  assumes "r \<in> {rg 0 1, rg 1 1, rg 2 1, rg 960 64}"
  shows "region_from_ptr PageSize (region_ptr PageSize (as_page_region r) 0) (region_size PageSize (as_page_region r))
      = as_page_region r"
    and "region_from_ptr SectionSize (region_ptr PageSize (as_page_region r) 0) (region_size PageSize (as_page_region r)) = r"
    and "region_size PageSize (as_page_region r) \<noteq> 0"
    and "unat (rg_offset r) + unat (rg_length r) \<le> l1_num_entries"
  using assms
  by (auto simp: boot_regions region_from_ptr_def region_ptr_def region_size_def PageSize_def SectionSize_def
      divide_up_def l1_num_entries_def)

lemma init_brokers:
  "\<exists>p. broker_init (rg 0 PHYSICAL_MEMORY_END_PAGES) (rg 512 64) broker_empty = Some p \<and> brokers p 262128 {rg 0 131072}"
  "\<exists>v. broker_init (rg 0 MEMORY_END_PAGES) (rg 576 64) broker_empty = Some v \<and> brokers v 262128 {rg 0 1048576}"
  unfolding PHYSICAL_MEMORY_END_PAGES_def MEMORY_END_PAGES_def
  by (rule broker_init_ok [where d = 17], simp_all add: block_def)
    (rule broker_init_ok [where d = 20], simp_all add: block_def)

section \<open>Booting\<close>

text \<open>
  The state that \<open>init\_page\_tables\<close> leaves: the sections it records, the free regions of both page
  allocators, and the allocator of second-level tables with all of its slots free.
\<close>

definition boot_sections :: "nat \<Rightarrow> bool" where "boot_sections j \<longleftrightarrow> j < 3 \<or> 960 \<le> j \<and> j < 1024"

definition booted :: "mmu \<Rightarrow> bool" where
  "booted m \<longleftrightarrow> l1_table m = 0x100000 \<and> mm_l1_table m = identity_sections boot_sections
     \<and> brokers (mm_physical_page_allocator m) 261872 boot_physical
     \<and> brokers (mm_virtual_page_allocator m) 262128 boot_virtual
     \<and> (\<exists>bn ws pgs. slab_inv (mm_l2_table_allocator m) bn 0 ws pgs 0x282000)"

lemma init_page_tables_booted:
  assumes code: "0 < unat code_end" "unat code_end \<le> 2 ^ 20"
    and fresh: "mm_physical_page_allocator m = broker_empty" "mm_virtual_page_allocator m = broker_empty"
      "mm_l2_table_allocator m = slab_empty"
  shows "\<exists>m'. init_page_tables code_end m = Some m' \<and> booted m'"
proof -
  obtain l bn ws pgs where l2: "slab_add l2_table_size 0x280000 0x80000 (mm_l2_table_allocator m) = Some l"
      "slab_inv l bn 0 ws pgs 0x282000"
    using slab_add_fresh [of "0x280000" 62 l2_table_size] by (auto simp: fresh(3) l2_table_size_def)
  obtain p v where p: "broker_init (rg 0 PHYSICAL_MEMORY_END_PAGES) (rg 512 64) broker_empty = Some p"
      "brokers p 262128 {rg 0 131072}"
    and v: "broker_init (rg 0 MEMORY_END_PAGES) (rg 576 64) broker_empty = Some v" "brokers v 262128 {rg 0 1048576}"
    using init_brokers by blast
  obtain p0 where p0: "broker_add (rg 245760 16384) p = Some p0" "brokers p0 262128 {rg 245760 16384, rg 0 131072}"
    using broker_add_ok [OF p(2), of 14 "rg 245760 16384"] by (auto simp: block_def covered_def pages_def)
  obtain p1 p2 p3 p4 where ps: "broker_reserve_region (rg 0 256) p0 = Some (memory_of (rg 0 256), p1)"
      "broker_reserve_region (rg 256 256) p1 = Some (memory_of (rg 256 256), p2)"
      "broker_allocate 256 PALPage p2 = Some (memory_of (rg 512 256), p3)"
      "broker_reserve_region (rg 245760 16384) p3 = Some (memory_of (rg 245760 16384), p4)"
      "brokers p4 261872 boot_physical"
    using physical_pages_reserved [OF p0(2)] by (elim exE conjE) (rule that)
  obtain v1 v2 v3 v4 where vs: "broker_reserve_region (rg 0 256) v = Some (memory_of (rg 0 256), v1)"
      "broker_reserve_region (rg 256 256) v1 = Some (memory_of (rg 256 256), v2)"
      "broker_reserve_region (rg 512 256) v2 = Some (memory_of (rg 512 256), v3)"
      "broker_reserve_region (rg 245760 16384) v3 = Some (memory_of (rg 245760 16384), v4)"
      "brokers v4 262128 boot_virtual"
    using virtual_pages_reserved [OF v(2)] by (elim exE conjE) (rule that)
  define m0 where "m0 = m\<lparr>mm_l1_table := identity_sections (\<lambda>_. False), mm_physical_page_allocator := p0,
    mm_virtual_page_allocator := v, mm_l2_table_allocator := l, mm_spare_free_l2_page := nullptr\<rparr>"
  have start: "mmu_init p0 v (rg 640 128) m = Some m0"
    using l2(1) by (simp add: mmu_init_def m0_def identity_sections_none region_ptr_def region_size_def PageSize_def)
  define m1 where "m1 = m0\<lparr>mm_physical_page_allocator := p1, mm_virtual_page_allocator := v1,
    mm_l1_table := identity_sections (\<lambda>j. j < 1)\<rparr>"
  have s1: "mmu_reserve_section_region (rg 0 1) Identity m0 = Some ((rg 0 1, rg 0 1), m1)"
    unfolding m1_def
    by (rule reserve_section_identity [where S = "\<lambda>_. False", OF _ _ boot_regions_back(1-3) _ boot_regions_back(4)])
      (use ps(1) vs(1) in \<open>auto simp: m0_def boot_regions\<close>)
  define m2 where "m2 = m1\<lparr>mm_physical_page_allocator := p2, mm_virtual_page_allocator := v2,
    mm_l1_table := identity_sections (\<lambda>j. j < 2)\<rparr>"
  have s2: "mmu_reserve_section_region (rg 1 1) Identity m1 = Some ((rg 1 1, rg 1 1), m2)"
    unfolding m2_def
    by (rule reserve_section_identity [where S = "\<lambda>j. j < 1", OF _ _ boot_regions_back(1-3) _ boot_regions_back(4)])
      (use ps(2) vs(2) in \<open>auto simp: m1_def boot_regions\<close>)
  define m3 where "m3 = m2\<lparr>mm_physical_page_allocator := p3, mm_virtual_page_allocator := v3,
    mm_l1_table := identity_sections (\<lambda>j. j < 3)\<rparr>"
  have s3: "mmu_reserve_section_region (rg 2 1) Mixed m2 = Some ((rg 2 1, rg 2 1), m3)"
    unfolding m3_def
    by (rule reserve_section_identity [where S = "\<lambda>j. j < 2", OF _ _ boot_regions_back(1-3) _ boot_regions_back(4)])
      (use ps(3) vs(3) in \<open>auto simp: m2_def boot_regions\<close>)
  define m4 where "m4 = m3\<lparr>mm_physical_page_allocator := p4, mm_virtual_page_allocator := v4,
    mm_l1_table := identity_sections boot_sections\<rparr>"
  have s4: "mmu_reserve_section_region (rg 960 64) Identity m3 = Some ((rg 960 64, rg 960 64), m4)"
    unfolding m4_def
    by (rule reserve_section_identity [where S = "\<lambda>j. j < 3", OF _ _ boot_regions_back(1-3) _ boot_regions_back(4)])
      (use ps(4) vs(4) in \<open>auto simp: m3_def boot_regions boot_sections_def\<close>)
  let ?m = "set_l1_table 0x100000 m4"
  have run: "init_page_tables code_end m = Some ?m"
    using p(1) p0(1) v(1) start s1 s2 s3 s4
    by (simp add: init_page_tables_def code_end_section [OF code] boot_regions fresh Let_def region_end_offset_def)
      (simp add: region_ptr_def SectionSize_def)
  moreover have "booted ?m"
    using ps(5) vs(5) l2(2)
    by (auto simp: booted_def m0_def m1_def m2_def m3_def m4_def set_l1_table_def l1_table_def)
  ultimately show ?thesis by blast
qed

lemma boot_section_address:
  assumes "va < DEVICES_END"
  shows "boot_sections (unat va div 2 ^ 20) \<longleftrightarrow> va < 0x300000 \<or> DEVICES_START \<le> va"
proof -
  have "unat va < 1073741824" using assms by (simp add: DEVICES_END_def unat_word_lt)
  then show ?thesis
    by (simp add: boot_sections_def DEVICES_START_def unat_word_lt unat_word_le div_less_iff_less_mult less_eq_div_iff_mult_less_eq)
qed

lemma walk_booted:
  assumes "mm_l1_table m = identity_sections boot_sections" and "va < DEVICES_END"
  shows "walk m va = (if va < 0x300000 \<or> DEVICES_START \<le> va then Some va else None)"
  using walk_identity [OF assms] boot_section_address [OF assms(2)] by simp

text \<open>
  C6. A kernel whose code ends within the first section, on allocators as they start: \<open>init\_page\_tables\<close>
  returns with the translation base at the second section, every address of the first three
  sections (the code, the first table and the allocators' own memory) and of the devices translates to
  itself and no other address below 1 GiB translates, and in both page allocators exactly the pages
  of these sections have been taken.
\<close>
theorem boot_maps_identity:
  assumes code: "0 < unat code_end" "unat code_end \<le> 2 ^ 20"
    and fresh: "mm_physical_page_allocator m = broker_empty" "mm_virtual_page_allocator m = broker_empty"
      "mm_l2_table_allocator m = slab_empty"
  shows "\<exists>m' R V. init_page_tables code_end m = Some m' \<and> l1_table m' = 0x100000
    \<and> (\<forall>va < DEVICES_END. walk m' va = (if va < 0x300000 \<or> DEVICES_START \<le> va then Some va else None))
    \<and> implements (br_page_allocator (mm_physical_page_allocator m')) R \<and> covered R = {768 ..< 131072}
    \<and> implements (br_page_allocator (mm_virtual_page_allocator m')) V
    \<and> covered V = {768 ..< 245760} \<union> {262144 ..< 1048576}"
proof -
  obtain m' where m': "init_page_tables code_end m = Some m'" "booted m'"
    using init_page_tables_booted [OF code fresh] by blast
  then have "implements (br_page_allocator (mm_physical_page_allocator m')) boot_physical"
    "implements (br_page_allocator (mm_virtual_page_allocator m')) boot_virtual"
    by (simp_all add: booted_def brokers_def)
  then show ?thesis
    using m' walk_booted [of m'] covered_boot_physical covered_boot_virtual unfolding booted_def by blast
qed

text \<open>The state at power on.\<close>

definition reset_mmu :: mmu where
  "reset_mmu = \<lparr>mm_physical_page_allocator = broker_empty, mm_virtual_page_allocator = broker_empty,
     mm_l1_table = [], mm_l2_tables = Map.empty, mm_l2_table_allocator = slab_empty,
     mm_spare_free_l2_page = nullptr, mm_ttbr0 = 0\<rparr>"

theorem boot_maps_identity_witness:
  "\<exists>m' R V. init_page_tables 0x8C000 reset_mmu = Some m'
    \<and> l1_table m' = 0x100000
    \<and> (\<forall>va < DEVICES_END. walk m' va = (if va < 0x300000 \<or> DEVICES_START \<le> va then Some va else None))
    \<and> implements (br_page_allocator (mm_physical_page_allocator m')) R \<and> covered R = {768 ..< 131072}
    \<and> implements (br_page_allocator (mm_virtual_page_allocator m')) V
    \<and> covered V = {768 ..< 245760} \<union> {262144 ..< 1048576}"
  by (intro boot_maps_identity) (simp_all add: reset_mmu_def)

end
