(* ===== verification/Page_Mapping.thy ===== *)
theory Page_Mapping
  imports Boot_Tables
begin

text \<open>
  The first memory that the kernel gets from the page allocator after booting: the two page
  allocators, the slab allocator of second-level tables and the recording of pages work together,
  and the memory that \<open>PageAllocator::allocate\<close> returns is mapped.
\<close>

section \<open>Pages of a new section\<close>

text \<open>
  \<open>allocate\_pages\<close> when both page allocators have the pages and the section of the virtual ones is
  empty: a second-level table is taken from the slab allocator, and every address of the virtual
  pages leads to the physical ones, every other address to where it led before.
\<close>

lemma allocate_pages_new_table:
  assumes phys: "broker_allocate k PALPage (mm_physical_page_allocator m) = Some (memory_of p, P)"
    and virt: "broker_allocate k PALPage (mm_virtual_page_allocator m) = Some (memory_of v, V)"
    and conv: "region_from_ptr PageSize (region_ptr PageSize p 0) (region_size PageSize p) = p" "region_size PageSize p \<noteq> 0"
      "region_from_ptr PageSize (region_ptr PageSize v 0) (region_size PageSize v) = v" "region_size PageSize v \<noteq> 0"
    and table: "slab_allocate l2_table_size (mm_l2_table_allocator m) = Some (\<lparr>al_ptr = t, al_size = l2_table_size\<rparr>, l)"
      "t \<noteq> nullptr" "t mod 1024 = 0"
    and l1: "length (mm_l1_table m) = l1_num_entries" "mm_l1_table m ! l1_index (region_ptr PageSize v 0) = 0"
    and len: "0 < unat (rg_length v)" "unat (rg_offset v) mod 256 + unat (rg_length v) \<le> 256"
    and below: "unat (rg_offset v) + unat (rg_length v) \<le> 2 ^ 18" "unat (rg_offset p) + unat (rg_length v) \<le> 2 ^ 18"
  shows "\<exists>m'. mmu_allocate_pages (Suc fuel) k PALPage Mixed m = Some ((p, v), m')
    \<and> mm_physical_page_allocator m' = P \<and> mm_virtual_page_allocator m' = V
    \<and> (\<forall>va < DEVICES_END.
        (covers PageSize v va \<longrightarrow> walk m' va = Some (va - region_ptr PageSize v 0 + region_ptr PageSize p 0))
        \<and> (\<not> covers PageSize v va \<longrightarrow> l1_index va = l1_index (region_ptr PageSize v 0) \<or>
            \<not> (l1_entry_type (mm_l1_table m ! l1_index va) = L1L2Ptr \<and> l2ptr_table (mm_l1_table m ! l1_index va) = t) \<longrightarrow>
          walk m' va = walk m va))"
proof -
  define m0 where "m0 = m\<lparr>mm_physical_page_allocator := P, mm_virtual_page_allocator := V\<rparr>"
  define m1 where "m1 = m0\<lparr>mm_l2_table_allocator := l\<rparr>"
  let ?r = "try_reserve_l2_table_entry (Suc fuel)" and ?l2 = "replicate l2_num_entries 0"
  define m2 where "m2 = with_table v t (paged p v ?l2) m1"
  have some: "allocation_bool (memory_of p)" "allocation_bool (memory_of v)"
    "allocation_bool \<lparr>al_ptr = t, al_size = l2_table_size\<rparr>"
    using conv(2,4) by (simp_all add: allocation_bool_def l2_table_size_def)
  have unrecorded: "try_reserve_page_unrecorded k PALPage Mixed m = Some ((memory_of p, memory_of v), m0)"
    using phys virt some by (simp add: try_reserve_page_unrecorded_def phys_op_def virt_op_def m0_def)
  have reserve: "?r m0 = Some (\<lparr>al_ptr = t, al_size = l2_table_size\<rparr>, m1)"
    using table(1) some(3) by (simp add: m0_def m1_def)
  have ready: "table_ready m1 v t t ?l2"
    using l1 table(2,3) by (simp add: table_ready_def m1_def m0_def)
  have empty: "l2_entry_type (?l2 ! (unat (rg_offset v) mod 256 + i)) = Some L2Fault" if "i < unat (rg_length v)" for i
    using that len(2) by (simp add: l2_num_entries_def)
  have "try_record_page_in_l1 ?r p v nullptr m0 = try_record_page_in_l1 ?r p v t m1"
    using record_pages_reserved_table [where reserve = ?r and m = m0, OF reserve _ _ len] some(3) table(2) l1 by (simp add: m0_def m1_def)
  also have "\<dots> = Some (True, m2)"
    unfolding m2_def using record_pages_one_table [OF ready len] below(1) empty by simp
  finally have "mmu_allocate_pages (Suc fuel) k PALPage Mixed m = Some ((p, v), m2)"
    using unrecorded some(1) conv(1,3)
    by (simp add: mmu_allocate_pages_def unless_recorded_def del: try_reserve_l2_table_entry.simps)
  moreover have "mm_physical_page_allocator m2 = P" "mm_virtual_page_allocator m2 = V"
    by (simp_all add: m2_def m1_def m0_def with_table_def)
  moreover have "walk m1 va = walk m va" for va
    by (simp add: walk_def Let_def m1_def m0_def split: l1_type.split)
  moreover have "mm_l1_table m1 = mm_l1_table m" by (simp add: m1_def m0_def)
  ultimately show ?thesis
    using walk_with_table [OF ready len below, folded m2_def] by (intro exI [of _ m2]) simp
qed

section \<open>Rounding up\<close>

lemma rounded_up_exists: "0 < (k :: nat) \<Longrightarrow> \<exists>e. k \<le> 2 ^ e \<and> 2 ^ e < 2 * k"
proof (induction k)
  case (Suc k)
  show ?case
  proof (cases "k = 0")
    case True
    then show ?thesis by (intro exI [of _ 0]) simp
  next
    case False
    then obtain e where e: "k \<le> 2 ^ e" "2 ^ e < 2 * k" using Suc.IH by blast
    show ?thesis
    proof (cases "k = 2 ^ e")
      case True
      then show ?thesis using False by (intro exI [of _ "Suc e"]) simp
    next
      case less: False
      then show ?thesis using e by (intro exI [of _ e]) simp
    qed
  qed
qed simp

lemma trim_blocks_block:
  "block (e + m) r \<Longrightarrow> block e (fst (trim_blocks m r)) \<and> rg_offset (fst (trim_blocks m r)) = rg_offset r
    \<and> pages (fst (trim_blocks m r)) \<union> covered (snd (trim_blocks m r)) = pages r
    \<and> pages (fst (trim_blocks m r)) \<inter> covered (snd (trim_blocks m r)) = {}"
proof (induction m arbitrary: r)
  case 0
  then show ?case by (simp add: covered_simps)
next
  case (Suc m)
  obtain a b where ab: "region_halve r = (a, b)" by fastforce
  have h: "block (e + m) a" "pages a \<union> pages b = pages r" "pages a \<inter> pages b = {}" "rg_offset a = rg_offset r"
    using block_halves [OF _ ab, of "e + m"] Suc.prems by simp_all
  then show ?case using Suc.IH [OF h(1)] by (auto simp: ab Let_def split_def covered_simps)
qed

section \<open>The first pages\<close>

text \<open>The free block at 3 MiB is the smallest one of both allocators, and a request of at most 256 pages is cut from it.\<close>

abbreviation first_pages :: "nat \<Rightarrow> region" where "first_pages e \<equiv> rg 768 (2 ^ e)"

lemma first_pages_small:
  assumes "e \<le> 8"
  shows "(2 :: nat) ^ e \<le> 256" "unat (2 ^ e :: size_t) = 2 ^ e"
proof -
  have "(2 :: nat) ^ e \<le> 2 ^ 8" using assms by (intro power_increasing) simp_all
  then show "(2 :: nat) ^ e \<le> 256" by simp
  show "unat (2 ^ e :: size_t) = 2 ^ e" using assms by (intro unat_exp_word) simp
qed

lemma first_pages_cut:
  assumes "e \<le> 8"
  shows "fst (trim_blocks (8 - e) (rg 768 256)) = first_pages e"
    and "covered (snd (trim_blocks (8 - e) (rg 768 256))) = {768 + 2 ^ e ..< 1024}"
proof -
  have b: "block (e + (8 - e)) (rg 768 256)" using assms by (simp add: block_def)
  let ?r = "fst (trim_blocks (8 - e) (rg 768 256))"
  note t = trim_blocks_block [OF b]
  note e = first_pages_small(1) [OF assms] and u = first_pages_small(2) [OF assms]
  have "rg_length ?r = 2 ^ e" using t by (simp add: block_def word_unat_eq_iff u)
  then show r: "?r = first_pages e" using t by simp
  have "pages (first_pages e) = {768 ..< 768 + 2 ^ e}" "pages (rg 768 256) = {768 ..< 1024}"
    by (simp_all add: pages_def u)
  then have "covered (snd (trim_blocks (8 - e) (rg 768 256))) = {768 ..< 1024} - {768 ..< 768 + 2 ^ e}"
    using t unfolding r by blast
  then show "covered (snd (trim_blocks (8 - e) (rg 768 256))) = {768 + 2 ^ e ..< 1024}" using e by auto
qed

lemma covers_first_pages:
  assumes "e \<le> 8"
  shows "covers PageSize (first_pages e) va \<longleftrightarrow> 0x300000 \<le> unat va \<and> unat va < 0x300000 + 2 ^ e * 4096"
    and "unat va < 0x300000 + 2 ^ e * 4096 \<Longrightarrow> \<not> DEVICES_START \<le> va"
  using first_pages_small [OF assms]
  by (auto simp: covers_def PageSize_def less_eq_div_iff_mult_less_eq div_less_iff_less_mult distrib_right
      DEVICES_START_def unat_word_le)

lemma first_pages_memory:
  assumes "e \<le> 8"
  shows "memory_of (first_pages e) = \<lparr>al_ptr = 0x300000, al_size = 2 ^ e * 4096\<rparr>"
    and "region_from_ptr PageSize (region_ptr PageSize (first_pages e) 0) (region_size PageSize (first_pages e)) = first_pages e"
    and "region_size PageSize (first_pages e) \<noteq> 0"
proof -
  have "e \<in> {0, 1, 2, 3, 4, 5, 6, 7, 8}" using assms by auto
  then show "memory_of (first_pages e) = \<lparr>al_ptr = 0x300000, al_size = 2 ^ e * 4096\<rparr>"
    "region_from_ptr PageSize (region_ptr PageSize (first_pages e) 0) (region_size PageSize (first_pages e)) = first_pages e"
    "region_size PageSize (first_pages e) \<noteq> 0"
    by (auto simp: region_from_ptr_def region_ptr_def region_size_def PageSize_def divide_up_def)
qed

lemma without_first_block:
  "covered (boot_physical - {rg 768 256}) = covered boot_physical - {768 ..< 1024}"
  "covered (boot_virtual - {rg 768 256}) = covered boot_virtual - {768 ..< 1024}"
proof -
  have "boot_physical - {rg 768 256} = upper_blocks" by (simp add: boot_physical_def insert_Diff_if)
  then show "covered (boot_physical - {rg 768 256}) = covered boot_physical - {768 ..< 1024}"
    unfolding covered_boot_physical by (simp only: covered_upper) auto
  have "boot_virtual - {rg 768 256} = {rg 131072 65536, rg 196608 32768, rg 229376 16384}
      \<union> ({rg 524288 524288, rg 262144 262144} \<union> upper_blocks)"
    by (simp add: boot_virtual_def insert_Diff_if)
  then show "covered (boot_virtual - {rg 768 256}) = covered boot_virtual - {768 ..< 1024}"
    unfolding covered_boot_virtual
    by (simp only: covered_simps(1) covered_upper) (rule set_eqI, simp add: covered_simps pages_def, arith)
qed

lemma first_pages_allocated:
  assumes "brokers s runway R" and "512 \<le> runway" and "R = boot_physical \<or> R = boot_virtual"
    and k: "unat k \<le> 2 ^ e" "2 ^ e < 2 * unat k" "e \<le> 8"
  shows "\<exists>s' R'. broker_allocate k PALPage s = Some (memory_of (first_pages e), s')
    \<and> implements (br_page_allocator s') R' \<and> covered R' = covered R - {768 ..< 768 + 2 ^ e}"
proof -
  let ?q = "rg 768 256" and ?S = "snd (trim_blocks (8 - e) (rg 768 256))"
  have cut: "trim_blocks (8 - e) ?q = (first_pages e, ?S)" using first_pages_cut(1) [OF k(3)] by (simp add: prod_eq_iff)
  have mem: "?q \<in> R" using assms(3) by (auto simp: boot_physical_def boot_virtual_def)
  have "card boot_physical \<le> 13" "card boot_virtual \<le> 13" by (simp_all add: boot_physical_def boot_virtual_def)
  then have card: "card R \<le> 13" using assms(3) by auto
  have smallest: "rg_length ?q < rg_length r" if "r \<in> R" "r \<noteq> ?q" for r
    using that assms(3) by (auto simp: boot_physical_def boot_virtual_def)
  have b: "block (e + (8 - e)) ?q" "e \<le> 19" using k(3) by (simp_all add: block_def)
  obtain s' where s': "broker_allocate k PALPage s = Some (memory_of (first_pages e), s')"
      "brokers s' (runway - of_nat (8 - e) * 256) (R - {?q} \<union> ?S)"
    using broker_allocate_block [OF assms(1,2) card k(1,2) b(2) mem b(1) smallest cut] by blast
  have "covered (R - {?q}) = covered R - {768 ..< 1024}"
    using assms(3) without_first_block by auto
  moreover have "{768 ..< 1024} \<subseteq> covered R"
    using assms(3) by (auto simp: covered_boot_physical covered_boot_virtual)
  moreover note first_pages_small(1) [OF k(3)]
  ultimately have "covered (R - {?q} \<union> ?S) = covered R - {768 ..< 768 + 2 ^ e}"
    unfolding covered_simps(1) first_pages_cut(2) [OF k(3)] by auto
  then show ?thesis using s' by (auto simp: brokers_def)
qed

section \<open>From boot to memory\<close>

lemma rounded_up_pages:
  assumes "0 < (n :: nat)"
  shows "n \<le> (n + 4095) div 4096 * 4096" "(n + 4095) div 4096 * 4096 \<le> n + 4095" "0 < (n + 4095) div 4096"
proof -
  let ?q = "(n + 4095) div 4096"
  have "?q * 4096 + (n + 4095) mod 4096 = n + 4095" by (rule div_mult_mod_eq)
  moreover have "(n + 4095) mod 4096 < 4096" by simp
  ultimately show le: "n \<le> ?q * 4096" and "?q * 4096 \<le> n + 4095" by linarith+
  show "0 < ?q" using le assms by (cases ?q) simp_all
qed

lemma pages_of_bytes:
  assumes "0 < unat n" and "unat n \<le> 2 ^ 20"
  shows "unat (align_up_two n PageSize div PageSize) = (unat n + 4095) div 4096"
proof -
  have "n \<noteq> 0" using assms(1) by (metis unat_0 less_irrefl)
  then have "unat (align_up_two n PageSize) = (unat n + 4095) div 4096 * 4096"
    using unat_align_up_two [of PageSize 12 n] assms(2) by (simp add: PageSize_def)
  then show ?thesis by (simp add: unat_div PageSize_def)
qed

lemma booted_allocate:
  assumes m: "booted m" and n: "0 < unat n" "unat n \<le> 2 ^ 20"
    and e: "(unat n + 4095) div 4096 \<le> 2 ^ e" "2 ^ e < 2 * ((unat n + 4095) div 4096)"
  shows "\<exists>m' R V. mmu_allocate (Suc fuel) n m = Some (\<lparr>al_ptr = 0x300000, al_size = 2 ^ e * 4096\<rparr>, m')
    \<and> (\<forall>va < DEVICES_END. walk m' va =
        (if unat va < 0x300000 + 2 ^ e * 4096 \<or> DEVICES_START \<le> va then Some va else None))
    \<and> implements (br_page_allocator (mm_physical_page_allocator m')) R \<and> covered R = {768 + 2 ^ e ..< 131072}
    \<and> implements (br_page_allocator (mm_virtual_page_allocator m')) V
    \<and> covered V = {768 + 2 ^ e ..< 245760} \<union> {262144 ..< 1048576}"
proof -
  let ?k = "align_up_two n PageSize div PageSize" and ?r = "first_pages e"
  have "(unat n + 4095) div 4096 < 257" using n(2) by (subst div_less_iff_less_mult) simp_all
  then have "(2 :: nat) ^ e < 2 ^ 9" using e(2) by simp
  then have e8: "e \<le> 8" by (subst (asm) power_strict_increasing_iff) simp_all
  have k: "unat ?k \<le> 2 ^ e" "2 ^ e < 2 * unat ?k" using e unfolding pages_of_bytes [OF n] .
  note small = first_pages_small [OF e8]
  have b: "brokers (mm_physical_page_allocator m) 261872 boot_physical"
    "brokers (mm_virtual_page_allocator m) 262128 boot_virtual" using m by (simp_all add: booted_def)
  have runway: "(512 :: size_t) \<le> 261872" "(512 :: size_t) \<le> 262128" by simp_all
  obtain P R where P: "broker_allocate ?k PALPage (mm_physical_page_allocator m) = Some (memory_of ?r, P)"
      "implements (br_page_allocator P) R" "covered R = covered boot_physical - {768 ..< 768 + 2 ^ e}"
    using first_pages_allocated [OF b(1) runway(1) disjI1 [OF refl] k e8] by blast
  obtain V W where V: "broker_allocate ?k PALPage (mm_virtual_page_allocator m) = Some (memory_of ?r, V)"
      "implements (br_page_allocator V) W" "covered W = covered boot_virtual - {768 ..< 768 + 2 ^ e}"
    using first_pages_allocated [OF b(2) runway(2) disjI2 [OF refl] k e8] by blast
  obtain bn ws pgs where slab: "slab_inv (mm_l2_table_allocator m) bn 0 ws pgs 0x282000"
    using m by (auto simp: booted_def)
  obtain l where l: "slab_allocate l2_table_size (mm_l2_table_allocator m) = Some (\<lparr>al_ptr = 0x282000, al_size = l2_table_size\<rparr>, l)"
    using slab_allocate_ok [OF slab slot_ok_sizes(2) first_free_0] by (auto simp: l2_table_size_def)
  have l1: "mm_l1_table m = identity_sections boot_sections" using m by (simp add: booted_def)
  have index: "l1_index (region_ptr PageSize ?r 0) = 3" by (simp add: l1_index_page)
  obtain m' where m': "mmu_allocate_pages (Suc fuel) ?k PALPage Mixed m = Some ((?r, ?r), m')"
      "mm_physical_page_allocator m' = P" "mm_virtual_page_allocator m' = V"
      "\<forall>va < DEVICES_END.
        (covers PageSize ?r va \<longrightarrow> walk m' va = Some (va - region_ptr PageSize ?r 0 + region_ptr PageSize ?r 0))
        \<and> (\<not> covers PageSize ?r va \<longrightarrow> l1_index va = l1_index (region_ptr PageSize ?r 0) \<or>
            \<not> (l1_entry_type (mm_l1_table m ! l1_index va) = L1L2Ptr \<and> l2ptr_table (mm_l1_table m ! l1_index va) = 0x282000) \<longrightarrow>
          walk m' va = walk m va)"
    using allocate_pages_new_table [OF P(1) V(1) first_pages_memory(2,3) [OF e8] first_pages_memory(2,3) [OF e8] l, of fuel]
      small index by (auto simp: l1 identity_sections_def boot_sections_def l1_num_entries_def)
  have no_table: "l1_entry_type (mm_l1_table m ! l1_index va) \<noteq> L1L2Ptr" for va
    using l1_index_less [of va] by (simp add: l1 identity_sections_def l1_num_entries_def)
  have walk: "walk m' va = (if unat va < 0x300000 + 2 ^ e * 4096 \<or> DEVICES_START \<le> va then Some va else None)"
    if va: "va < DEVICES_END" for va
    using m'(4) va no_table walk_booted [OF l1 va] covers_first_pages [OF e8, of va]
    by (cases "covers PageSize ?r va") (auto simp: unat_word_lt)
  have "mmu_allocate (Suc fuel) n m = Some (memory_of ?r, m')"
    using m'(1) by (simp add: mmu_allocate_def Let_def)
  then have "mmu_allocate (Suc fuel) n m = Some (\<lparr>al_ptr = 0x300000, al_size = 2 ^ e * 4096\<rparr>, m')"
    unfolding first_pages_memory(1) [OF e8] .
  moreover have "covered R = {768 + 2 ^ e ..< 131072}" "covered W = {768 + 2 ^ e ..< 245760} \<union> {262144 ..< 1048576}"
    using small unfolding P(3) V(3) covered_boot_physical covered_boot_virtual by auto
  ultimately show ?thesis using walk P(2) V(2) m'(2,3) by blast
qed



end
