(* ===== verification/Spec2Isabelle.thy ===== *)
theory Spec2Isabelle
  imports Mmu Page_Allocation Interrupts Syscalls Display Printing Shell Aarch64 Container_Access Page_Mapping
begin

text \<open>
  Pinyon: a kernel for the Raspberry Pi in C++, with its own library (pine) and a user shell. This
  library models the 32-bit build (AARCH32) of the kernel and of pine and proves what makes them
  correct.

  \<^bold>\<open>The program.\<close> \<open>init\<close> in kernel/kernel.cpp sets up the interrupt controller, the UART, the translation
  tables, the timer, the display and the tasks, and starts the scheduler, which switches between a shell
  and a task that spins. From then on the kernel runs when a task makes a system call
  (\<open>handle\_syscall\<close>, kernel/syscall.cpp) or when an interrupt arrives (\<open>interrupts\_handle\_irq\<close>): a tick of
  the timer schedules, and an interrupt of the UART moves bytes of the pending request. Tasks open files
  (kernel/file.cpp), which are devices, through descriptor tables. All memory comes from the page
  allocator of kernel/arch/aarch32/mmu.cpp, which records its pages in the translation tables and feeds
  the kernel's free list, from which the containers of pine (vectors, owners, strings) and the kernel's
  objects are allocated.

  \<^bold>\<open>How it is modelled.\<close> \<open>size\_t\<close>, pointers, \<open>unsigned\<close>, \<open>long\<close> and \<open>u32\<close> are 32-bit words, which wrap around;
  signed integers are \<open>int\<close> where the code checks or bounds them; bytes of text are \<open>char\<close>. A class is a
  record, a method is a function from its state to the new state, and the objects that live at an
  address (list nodes, file descriptions, memory of tasks) are in a map from addresses that the
  functions pass along. \<open>None\<close> is a run that does not come back in a defined way: undefined behaviour
  (null or dangling pointers, accesses out of bounds, shifts that are too wide), a panic, or a loop that never ends. Errors
  that the code reports are values (\<open>Maybe\<close> is an option, a descriptor is negative, an allocation is
  null). A template's type parameter that has operations, such as the allocator of a container, is a
  function parameter, and its contract is a locale. A device is a record with its registers, the
  readings it will give as a stream with a position, and what was written to it as a list. The switch
  to another task, which is assembly, is recorded in the kernel's list of switches; what the machine does
  until the task runs again is an argument (\<open>resume\<close>) of the operations that wait.

  \<^bold>\<open>The theories.\<close>
  \<^item> \<open>Prelude\<close>: types and lemmas on lists, options and words that all components share.
  \<^item> \<open>TwoMath\<close>: pine/twomath.hpp, math.hpp, bit.hpp. Alignment is the least multiple, bit widths and
    logarithms agree with their definitions by powers, and where they wrap around.
  \<^item> \<open>Int\_Limits\<close>: pine/limits.hpp and cast.hpp. The constants of the twelve integer types are derived from
    their ranges; a cast between signed and unsigned is exact when the value fits.
  \<^item> \<open>C\_Strings\<close>: pine/c\_builtins.cpp, c\_string and string\_view. Copying with truncation, comparison,
    numbers to text and back.
  \<^item> \<open>Formatting\<close>: pine/print. The formatter over any function that takes text simulates the one that
    collects it (\<open>vfnprintf\_sim\<close>), from which truncation in a buffer and printing on a device follow.
  \<^item> \<open>Iterators\<close>, \<open>Linked\_List\<close>: pine/iter.hpp, algorithm.hpp and linked\_list.hpp. A heap of nodes
    represents an abstract list, and insertion and removal refine it, with a frame.
  \<^item> \<open>Containers\<close>: pine/array.hpp, maybe.hpp, memory.hpp, string.hpp and vector.hpp, over any allocator that
    satisfies the locale \<open>allocator\<close> of \<open>Allocator\_Interface\<close>.
  \<^item> \<open>Free\_List\<close>, \<open>Slab\<close>, \<open>Slab\_Growth\<close>, \<open>Allocators\<close>, \<open>Pages\<close>, \<open>Page\_Backend\<close>, \<open>Page\_Allocation\<close>,
    \<open>Page\_Brokering\<close>: pine/malloc and page.hpp. The free list is first fit over well-formed and disjoint blocks;
    the slab allocator, over the size of its slots (page regions and second-level tables), is proved from
    fresh memory on; the bound allocators satisfy the allocator's contract,
    by interpretation; the page allocator implements halving on the set of its free regions, from its
    initialisation on.
  \<^item> \<open>Mmu\<close>: kernel/arch/aarch32/mmu. Table entries, the recording of sections and pages and the allocator
    on top. \<open>walk\<close> is what the entries translate an address to, as the code reads them; recording is
    proved against it, and where the hardware reads a page entry otherwise.
  \<^item> \<open>Boot\_Tables\<close>, \<open>Page\_Mapping\<close>: what \<open>init\_page\_tables\<close> leaves at boot, in the tables, both page allocators
    and the allocator of second-level tables, and that the first memory allocated on it is mapped.
  \<^item> \<open>Processor\<close>: kernel/arch/aarch32/processor, the registers of a task.
  \<^item> \<open>Kfiles\<close>: kernel/file and the pseudo devices. Descriptor tables and descriptions in a slab.
  \<^item> \<open>Timer\<close>, \<open>Uart\<close>: the system timer and the UART with its request, which interrupts complete.
  \<^item> \<open>Tasks\<close>: kernel/tasks, stack and wait. The scheduler is round robin and never stuck while a task does
    not wait; processor time is kept.
  \<^item> \<open>Interrupts\<close>, \<open>Syscalls\<close>: kernel/device/bcm2835/interrupts and kernel/syscall, which tie the components together.
  \<^item> \<open>Font\<close>, \<open>Display\<close>: kernel/data/font.hpp, the mailbox and the display.
  \<^item> \<open>Console\<close>, \<open>Printing\<close>: kernel/console, which prints on the UART, and the \<open>print\_with\<close> functions of the classes.
  \<^item> \<open>User\_Lib\<close>, \<open>Shell\<close>: userspace/lib and userspace/shell. A process runs over any system-call function;
    the kernel's handler is one, and with it \<open>read\<close> leaves a string and the shell gets its standard streams.
  \<^item> \<open>Type\_Functions\<close>: pine/metaprogramming.hpp, type\_traits.hpp and utility.hpp. The functions on types that
    select code at compile time, over a datatype of the types, and \<open>move\<close>, \<open>forward\<close>, \<open>swap\<close> and \<open>exchange\<close>.
  \<^item> \<open>Algorithms\<close>: the rest of pine/iter.hpp and algorithm.hpp, over the locale \<open>bidirectional\_range\<close>.
  \<^item> \<open>Container\_Access\<close>: the accessors, iterators, exchange and assignment of the containers. A loop over a
    container visits what it represents, by interpretation of \<open>forward\_range\<close>.
  \<^item> \<open>Boot\<close>: kernel/kernel.cpp, panic.cpp, malloc.cpp and the exception handlers of
    kernel/arch/aarch32. The order in which the parts start, and what an exception reports before the machine halts.
  \<^item> \<open>Aarch64\<close>: the registers, exceptions and panics of kernel/arch/aarch64, which print as the 32-bit ones do.

  \<^bold>\<open>Bounds.\<close> Loops whose end follows from the data are total functions. Loops over pointers or device
  readings are partial functions, which give \<open>None\<close> when they do not end; that they do return is part
  of the theorems about them. The page allocator of the kernel needs pages for its own
  tables: \<open>try\_reserve\_l2\_table\_entry\<close> and what it calls take a fuel, which bounds how deep tables are reserved for tables. A process's
  \<open>malloc\<close> and \<open>printf\<close> call each other: \<open>user\_malloc\<close> takes a depth, and \<open>malloc\_failure\_recurses\<close> shows that no depth is
  enough when memory runs out. The theorems on the page
  allocator assume that all free regions have a power of two of pages, and that its nodes are not used up
  (\<open>pb\_rep\<close>); \<open>three\_pages\_double\_allocation\<close> shows that the first of these is needed.

  \<^bold>\<open>What the theorems found.\<close> Several properties of the code are negative: they show, on the model, an
  error of the code with its exact condition, such as \<open>page\_entry\_misread\_by\_hardware\<close>,
  \<open>pages\_across\_sections\_stay\_unmapped\<close>, \<open>fdt\_dup\_close\_dangles\<close> and \<open>draw\_string\_overruns\<close>.

  \<^bold>\<open>Not modelled.\<close> Assembly (the entry code, vectors, the task switch), reading and writing live
  processor registers, memory barriers, the translation tables and timers of the 64-bit port, and the
  tests with what they need to run on a host. A panic is \<open>None\<close> in every component but \<open>Boot\<close> and
  \<open>Aarch64\<close>, where the handlers give the device with the report that was printed. Interrupts arrive
  between operations, never inside one; the kernel disables them while it runs.
\<close>

end
